(* ===== verification/Prelude.thy ===== *)
theory Prelude
  imports Main "HOL-Library.Word"
begin

text \<open>
  Shared vocabulary of the development: Rust's \<open>Result\<close>, the outcome of a computation that may
  panic or end the process, byte strings, and the list lemmas the component theories rest on.

  A byte string (Rust's \<open>Vec<u8>\<close>, \<open>OsStr\<close>, \<open>Path\<close>, \<open>&str\<close>, C's \<open>char[]\<close>) is a
  list of \<^typ>\<open>char\<close>, one \<^typ>\<open>char\<close> being one byte.
\<close>

section \<open>Collections of rewrite rules\<close>

named_theorems path_simps \<open>unfolding of path operations\<close>
named_theorems wire_simps \<open>unfolding of stream operations\<close>

section \<open>Types\<close>

type_synonym bytes = "char list"
type_synonym u8 = "8 word"
type_synonym u32 = "32 word"
type_synonym errno = nat

datatype ('a, 'e) result = Ok 'a | Err 'e

text \<open>
  A computation returns, panics (or aborts on a failed assertion), ends the process with an exit
  status, or does not return.
\<close>

datatype 'a outcome = Ret 'a | Panic | Exit nat | Diverge

fun is_ok :: "('a, 'e) result \<Rightarrow> bool" where
  "is_ok (Ok _) = True"
| "is_ok (Err _) = False"

fun is_err :: "('a, 'e) result \<Rightarrow> bool" where
  "is_err (Ok _) = False"
| "is_err (Err _) = True"

fun map_err :: "('e \<Rightarrow> 'f) \<Rightarrow> ('a, 'e) result \<Rightarrow> ('a, 'f) result" where
  "map_err f (Ok a) = Ok a"
| "map_err f (Err e) = Err (f e)"

fun ok_or :: "'e \<Rightarrow> 'a option \<Rightarrow> ('a, 'e) result" where
  "ok_or e None = Err e"
| "ok_or e (Some a) = Ok a"

text \<open>\<open>?\<close> inside a function that returns a \<open>Result\<close>.\<close>

fun try_res :: "('a, 'e) result \<Rightarrow> ('a \<Rightarrow> ('b, 'e) result) \<Rightarrow> ('b, 'e) result" where
  "try_res (Ok a) f = f a"
| "try_res (Err e) f = Err e"

lemma try_res_eq_Ok: "try_res r f = Ok b \<longleftrightarrow> (\<exists>a. r = Ok a \<and> f a = Ok b)"
  by (cases r) auto

lemma map_err_eq_Ok [simp]: "map_err f r = Ok a \<longleftrightarrow> r = Ok a"
  by (cases r) auto

lemma is_err_iff: "is_err r \<longleftrightarrow> (\<exists>e. r = Err e)"
  by (cases r) auto

lemma is_ok_not_err [simp]: "is_ok r \<longleftrightarrow> \<not> is_err r"
  by (cases r) auto

section \<open>Lists\<close>

text \<open>Splitting a list into the part after the last separator and the part before it.\<close>

definition after_last :: "'a \<Rightarrow> 'a list \<Rightarrow> 'a list" where
  "after_last s xs = rev (takeWhile (\<lambda>x. x \<noteq> s) (rev xs))"

definition before_last :: "'a \<Rightarrow> 'a list \<Rightarrow> 'a list" where
  "before_last s xs = rev (drop 1 (dropWhile (\<lambda>x. x \<noteq> s) (rev xs)))"

lemma after_last_notin [simp]: "s \<notin> set (after_last s xs)"
  by (auto simp: after_last_def dest: set_takeWhileD)

lemma takeWhile_notin: "s \<notin> set xs \<Longrightarrow> takeWhile (\<lambda>x. x \<noteq> s) xs = xs"
  by (induction xs) auto

lemma dropWhile_notin: "s \<notin> set xs \<Longrightarrow> dropWhile (\<lambda>x. x \<noteq> s) (xs @ ys) = dropWhile (\<lambda>x. x \<noteq> s) ys"
  by (induction xs) auto

lemma after_last_id [simp]: "s \<notin> set xs \<Longrightarrow> after_last s xs = xs"
  by (simp add: after_last_def takeWhile_notin)

lemma before_last_Nil [simp]: "s \<notin> set xs \<Longrightarrow> before_last s xs = []"
proof -
  assume "s \<notin> set xs"
  then have "dropWhile (\<lambda>x. x \<noteq> s) (rev xs) = []"
    by auto
  then show ?thesis by (simp add: before_last_def del: dropWhile_eq_Nil_conv)
qed

lemma last_sep_split: "s \<in> set xs \<Longrightarrow> xs = before_last s xs @ s # after_last s xs"
proof -
  assume s: "s \<in> set xs"
  let ?d = "dropWhile (\<lambda>x. x \<noteq> s) (rev xs)"
  from s have ne: "?d \<noteq> []" by (auto simp: dropWhile_eq_Nil_conv)
  from hd_dropWhile [OF ne] ne have "?d = s # drop 1 ?d" by (cases ?d) auto
  then have "rev xs = takeWhile (\<lambda>x. x \<noteq> s) (rev xs) @ s # drop 1 ?d"
    by (metis takeWhile_dropWhile_id)
  then have "rev (rev xs) = rev (takeWhile (\<lambda>x. x \<noteq> s) (rev xs) @ s # drop 1 ?d)"
    by simp
  then show ?thesis by (simp add: before_last_def after_last_def)
qed

lemma after_last_app [simp]: "s \<notin> set ys \<Longrightarrow> after_last s (xs @ s # ys) = ys"
  by (simp add: after_last_def takeWhile_tail takeWhile_notin)

lemma before_last_app [simp]: "s \<notin> set ys \<Longrightarrow> before_last s (xs @ s # ys) = xs"
  by (simp add: before_last_def dropWhile_notin)

lemma length_before_last: "xs \<noteq> [] \<Longrightarrow> length (before_last s xs) < length xs"
proof (cases "s \<in> set xs")
  case True
  from last_sep_split [OF True]
  have "length xs = length (before_last s xs @ s # after_last s xs)" by simp
  then show ?thesis by simp
qed simp

lemma after_last_subset: "set (after_last s xs) \<subseteq> set xs"
  by (auto simp: after_last_def dest: set_takeWhileD)

lemma before_last_subset: "set (before_last s xs) \<subseteq> set xs"
  by (auto simp: before_last_def dest!: in_set_dropD dest: set_dropWhileD)

text \<open>Splitting at every separator; \<open>n\<close> separators give \<open>n + 1\<close> fields.\<close>

fun split_on :: "'a \<Rightarrow> 'a list \<Rightarrow> 'a list list" where
  "split_on s [] = [[]]"
| "split_on s (x # xs) =
     (if x = s then [] # split_on s xs
      else (case split_on s xs of [] \<Rightarrow> [[x]] | f # fs \<Rightarrow> (x # f) # fs))"

lemma split_on_ne [simp]: "split_on s xs \<noteq> []"
  by (induction xs) (auto split: list.splits)

lemma split_on_notin [simp]: "s \<notin> set xs \<Longrightarrow> split_on s xs = [xs]"
  by (induction xs) auto

lemma split_on_app [simp]: "split_on s (xs @ s # ys) = split_on s xs @ split_on s ys"
proof (induction xs)
  case (Cons x xs)
  then show ?case by (cases "split_on s xs") auto
qed simp

text \<open>\<open>Iterator::collect::<Result<Vec<_>, _>>\<close>: the first error ends the iteration.\<close>

fun collect_res :: "('a, 'e) result list \<Rightarrow> ('a list, 'e) result" where
  "collect_res [] = Ok []"
| "collect_res (Err e # rs) = Err e"
| "collect_res (Ok a # rs) = try_res (collect_res rs) (\<lambda>as. Ok (a # as))"

lemma collect_res_Ok: "collect_res rs = Ok xs \<longleftrightarrow> rs = map Ok xs"
proof (induction rs arbitrary: xs rule: collect_res.induct)
  case (3 a rs)
  then show ?case by (cases xs) (auto simp: try_res_eq_Ok)
qed auto

end
