(* ===== verification/Format.thy ===== *)
theory Format
  imports Prelude
begin

text \<open>
  Integer formatting as the sources use it: \<open>to_string\<close> of an unsigned integer and \<open>%d\<close> of a
  C \<open>int\<close> (decimal), Rust's \<open>{:02X}\<close> of a byte, and the bytes of a 32-bit integer. The lemmas give what the callers rely on:
  the characters that can occur, the length, and that the text determines the number.
\<close>

section \<open>Digits\<close>

definition is_digit :: "char \<Rightarrow> bool" where
  "is_digit c \<longleftrightarrow> 48 \<le> (of_char c :: nat) \<and> (of_char c :: nat) \<le> 57"

definition digit :: "nat \<Rightarrow> char" where
  "digit d = char_of (48 + d)"

definition digit_val :: "char \<Rightarrow> nat" where
  "digit_val c = of_char c - 48"

lemma of_char_digit [simp]: "d < 10 \<Longrightarrow> (of_char (digit d) :: nat) = 48 + d"
  by (simp add: digit_def)

lemma is_digit_digit [simp]: "d < 10 \<Longrightarrow> is_digit (digit d)"
  by (simp add: is_digit_def)

lemma digit_val_digit [simp]: "d < 10 \<Longrightarrow> digit_val (digit d) = d"
  by (simp add: digit_val_def)

lemma digit_val_less [simp]: "is_digit c \<Longrightarrow> digit_val c < 10"
  by (auto simp: is_digit_def digit_val_def)

lemma digit_digit_val [simp]: "is_digit c \<Longrightarrow> digit (digit_val c) = c"
  by (simp add: is_digit_def digit_val_def digit_def)

lemma is_digit_literals [simp]:
  "\<not> is_digit (CHR ''_'')" "\<not> is_digit (CHR ''/'')" "\<not> is_digit (CHR 0x0A)" "\<not> is_digit (CHR '','')"
  "\<not> is_digit (CHR '':'')" "\<not> is_digit (CHR ''%'')" "\<not> is_digit (CHR 0x00)" "\<not> is_digit (CHR ''-'')"
  "\<not> is_digit (CHR ''='')"
  by (simp_all add: is_digit_def)

section \<open>Decimal\<close>

fun dec :: "nat \<Rightarrow> string" where
  "dec n = (if n < 10 then [digit n] else dec (n div 10) @ [digit (n mod 10)])"

declare dec.simps [simp del]

definition undec :: "string \<Rightarrow> nat" where
  "undec cs = foldl (\<lambda>a c. 10 * a + digit_val c) 0 cs"

lemma undec_snoc [simp]: "undec (cs @ [c]) = 10 * undec cs + digit_val c"
  by (simp add: undec_def)

lemma undec_Nil [simp]: "undec [] = 0"
  by (simp add: undec_def)

lemma dec_small: "n < 10 \<Longrightarrow> dec n = [digit n]"
  by (simp add: dec.simps)

lemma dec_large: "\<not> n < 10 \<Longrightarrow> dec n = dec (n div 10) @ [digit (n mod 10)]"
  by (simp add: dec.simps [of n])

lemma dec_ne [simp]: "dec n \<noteq> []"
  by (cases "n < 10") (simp_all add: dec_small dec_large)

lemma dec_digits: "c \<in> set (dec n) \<Longrightarrow> is_digit c"
proof (induction n rule: dec.induct)
  case (1 n)
  then show ?case by (cases "n < 10") (auto simp: dec_small dec_large)
qed

lemma dec_digits_all [simp]: "list_all is_digit (dec n)"
  by (simp add: list_all_iff dec_digits)

lemma undec_dec [simp]: "undec (dec n) = n"
proof (induction n rule: dec.induct)
  case (1 n)
  show ?case
  proof (cases "n < 10")
    case True
    then show ?thesis using undec_snoc [of "[]"] by (simp add: dec_small)
  next
    case False
    with 1 show ?thesis by (simp add: dec_large)
  qed
qed

lemma dec_inject [simp]: "dec m = dec n \<longleftrightarrow> m = n"
  by (metis undec_dec)

lemma length_dec_le: "n < 10 ^ k \<Longrightarrow> 0 < k \<Longrightarrow> length (dec n) \<le> k"
proof (induction k arbitrary: n)
  case (Suc k)
  show ?case
  proof (cases "n < 10")
    case False
    with Suc.prems have "n div 10 < 10 ^ k" "0 < k"
      by (auto simp: less_mult_imp_div_less intro: Nat.gr0I)
    with Suc.IH False show ?thesis by (simp add: dec_large)
  qed (simp add: dec_small)
qed simp

lemma length_dec_u32: "length (dec (unat (w :: u32))) \<le> 10"
proof -
  have "unat w < 2 ^ 32" using unsigned_less [of w] by simp
  then have "unat w < 10 ^ 10" by simp
  then show ?thesis by (rule length_dec_le) simp
qed

lemma length_dec_pos [simp]: "0 < length (dec n)"
  by simp

lemma notin_dec [simp]: "\<not> is_digit c \<Longrightarrow> c \<notin> set (dec n)"
  using dec_digits by blast

text \<open>\<open>%d\<close> of a C \<open>int\<close>.\<close>

definition dec_int :: "int \<Rightarrow> string" where
  "dec_int i = (if i < 0 then ''-'' @ dec (nat (- i)) else dec (nat i))"

lemma dec_int_nonneg [simp]: "0 \<le> i \<Longrightarrow> dec_int i = dec (nat i)"
  by (simp add: dec_int_def)

lemma dec_int_chars: "c \<in> set (dec_int i) \<Longrightarrow> is_digit c \<or> c = CHR ''-''"
  by (auto simp: dec_int_def dec_digits split: if_splits)

lemma dec_hd_digit: "is_digit (hd (dec n))"
  by (rule dec_digits) (rule hd_in_set, simp)

lemma dec_int_inject [simp]: "dec_int i = dec_int j \<longleftrightarrow> i = j"
proof -
  have "dec m \<noteq> CHR ''-'' # dec n" for m n
    using dec_hd_digit [of m] by (metis is_digit_literals(8) list.sel(1))
  then show ?thesis
    by (auto simp: dec_int_def) metis+
qed

section \<open>Hexadecimal\<close>

definition hex_digit :: "nat \<Rightarrow> char" where
  "hex_digit d = (if d < 10 then char_of (48 + d) else char_of (55 + d))"

definition hex_digit_val :: "char \<Rightarrow> nat" where
  "hex_digit_val c = (if of_char c < (58 :: nat) then of_char c - 48 else of_char c - 55)"

definition hex02 :: "u8 \<Rightarrow> string" where
  "hex02 b = [hex_digit (unat b div 16), hex_digit (unat b mod 16)]"

definition unhex02 :: "string \<Rightarrow> u8" where
  "unhex02 cs = of_nat (16 * hex_digit_val (cs ! 0) + hex_digit_val (cs ! 1))"

lemma hex_digit_val_hex_digit [simp]: "d < 16 \<Longrightarrow> hex_digit_val (hex_digit d) = d"
  by (auto simp: hex_digit_def hex_digit_val_def)

lemma unat_u8_bound: "unat (b :: u8) < 256"
  using unsigned_less [of b] by simp

lemma unhex02_hex02 [simp]: "unhex02 (hex02 b) = b"
proof -
  have "unat b div 16 < 16" using unat_u8_bound [of b] by (simp add: less_mult_imp_div_less)
  then show ?thesis by (simp add: unhex02_def hex02_def)
qed

lemma hex02_inject [simp]: "hex02 a = hex02 b \<longleftrightarrow> a = b"
  by (metis unhex02_hex02)

lemma length_hex02 [simp]: "length (hex02 b) = 2"
  by (simp add: hex02_def)

section \<open>The bytes of a 32-bit integer\<close>

text \<open>
  The representation of an \<open>int\<close> in memory, least significant byte first, and the network order, \<open>htonl\<close>
  in C and \<open>u32::from_be_bytes\<close> in Rust, most significant byte first.
\<close>

definition le_bytes :: "u32 \<Rightarrow> bytes" where
  "le_bytes v = (let n = unat v in
     [char_of n, char_of (n div 256), char_of (n div 65536), char_of (n div 16777216)])"

definition of_le :: "bytes \<Rightarrow> 32 word" where
  "of_le b = word_of_nat (foldr (\<lambda>c n. of_char c + 256 * n) b 0)"

lemma length_le_bytes [simp]: "length (le_bytes v) = 4"
  by (simp add: le_bytes_def Let_def)

lemma digits256:
  fixes n :: nat
  assumes "n < 4294967296"
  shows "n mod 256 + 256 * (n div 256 mod 256 + 256 * (n div 65536 mod 256 + 256 * (n div 16777216 mod 256))) = n"
proof -
  let ?a = "n div 256" let ?b = "?a div 256" let ?c = "?b div 256"
  have d: "n div 65536 = ?b" "n div 16777216 = ?c" by (simp_all flip: div_mult2_eq)
  have "?c < 256" using assms by (simp add: div_less_iff_less_mult flip: div_mult2_eq)
  moreover have "n = n mod 256 + 256 * ?a" "?a = ?a mod 256 + 256 * ?b" "?b = ?b mod 256 + 256 * ?c"
    by simp_all
  ultimately show ?thesis unfolding d by (metis mod_less)
qed

lemma le_bytes_nat: "foldr (\<lambda>c n. of_char c + 256 * n) (le_bytes v) 0 = unat v"
proof -
  have "unat v < 4294967296" using unsigned_less [of v, where ?'a = nat] by simp
  note digits256 [OF this]
  moreover have "unat v div 16777216 mod 256 = unat v div 16777216" using \<open>unat v < _\<close> by simp
  ultimately show ?thesis
    by (simp add: le_bytes_def Let_def of_char_of take_bit_eq_mod)
qed

lemma of_le_le_bytes [simp]: "of_le (le_bytes v) = v"
  by (simp add: of_le_def le_bytes_nat)

definition be_bytes :: "u32 \<Rightarrow> bytes" where
  "be_bytes v = rev (le_bytes v)"

definition of_be :: "bytes \<Rightarrow> u32" where
  "of_be b = of_le (rev b)"

lemma of_be_be_bytes [simp]: "of_be (be_bytes v) = v"
  by (simp add: of_be_def be_bytes_def)

lemma length_be_bytes [simp]: "length (be_bytes v) = 4"
  by (simp add: be_bytes_def)

lemmas fmt_eval = dec.simps digit_def hex02_def hex_digit_def char_of_eq_iff

end
