(* ===== verification/Utf8.thy ===== *)
theory Utf8
  imports Prelude
begin

text \<open>
  UTF-8 in the Rust standard library: validation (\<open>str::from_utf8\<close>, \<open>String::from_utf8\<close>,
  \<open>OsStr::to_str\<close>, \<open>OsString::into_string\<close>) and the lossy conversion
  \<open>OsStr::to_string_lossy\<close>. A Rust \<open>String\<close> is a byte string that satisfies \<open>utf8_valid\<close>.
\<close>

abbreviation ord :: "char \<Rightarrow> nat" where
  "ord c \<equiv> of_char c"

definition ascii :: "char \<Rightarrow> bool" where
  "ascii c \<longleftrightarrow> ord c < 128"

definition cont :: "char \<Rightarrow> bool" where
  "cont c \<longleftrightarrow> 128 \<le> ord c \<and> ord c < 192"

text \<open>The second byte of a sequence, restricted by the first (no overlong forms, no surrogates).\<close>

definition second_ok :: "char \<Rightarrow> char \<Rightarrow> bool" where
  "second_ok a b \<longleftrightarrow> cont b \<and>
     (ord a = 224 \<longrightarrow> 160 \<le> ord b) \<and> (ord a = 237 \<longrightarrow> ord b < 160) \<and>
     (ord a = 240 \<longrightarrow> 144 \<le> ord b) \<and> (ord a = 244 \<longrightarrow> ord b < 144)"

definition width :: "char \<Rightarrow> nat" where
  "width a = (if ord a < 128 then 1
     else if 194 \<le> ord a \<and> ord a < 224 then 2
     else if 224 \<le> ord a \<and> ord a < 240 then 3
     else if 240 \<le> ord a \<and> ord a < 245 then 4 else 0)"

text \<open>
  One step of the decoder: the length of the scalar value at the front, or of the longest
  prefix of a sequence there that cannot be completed.
\<close>

datatype utf8_item = Valid nat | Invalid nat

fun utf8_next :: "bytes \<Rightarrow> utf8_item" where
  "utf8_next [] = Invalid 1"
| "utf8_next (a # bs) =
     (if width a = 1 then Valid 1
      else if width a = 0 then Invalid 1
      else (case bs of [] \<Rightarrow> Invalid 1
        | b # cs \<Rightarrow>
          if \<not> second_ok a b then Invalid 1
          else if width a = 2 then Valid 2
          else (case cs of [] \<Rightarrow> Invalid 2
            | c # ds \<Rightarrow>
              if \<not> cont c then Invalid 2
              else if width a = 3 then Valid 3
              else (case ds of [] \<Rightarrow> Invalid 3
                | d # _ \<Rightarrow> if cont d then Valid 4 else Invalid 3))))"

lemma utf8_next_pos: "utf8_next bs = Valid n \<Longrightarrow> 0 < n"
  by (cases bs) (auto split: if_splits list.splits)

lemma utf8_next_inv_pos: "utf8_next bs = Invalid n \<Longrightarrow> 0 < n"
  by (cases bs) (auto split: if_splits list.splits)

lemma utf8_next_le: "utf8_next bs = Valid n \<Longrightarrow> n \<le> length bs"
  by (cases bs) (auto split: if_splits list.splits)

function utf8_valid :: "bytes \<Rightarrow> bool" where
  "utf8_valid bs = (if bs = [] then True
     else (case utf8_next bs of Valid n \<Rightarrow> utf8_valid (drop n bs) | Invalid _ \<Rightarrow> False))"
  by pat_completeness auto
termination
  by (relation "measure length") (auto dest: utf8_next_pos)

text \<open>\<open>to_string_lossy\<close>: each invalid chunk becomes U+FFFD.\<close>

definition replacement :: bytes where
  "replacement = [CHR 0xEF, CHR 0xBF, CHR 0xBD]"

function to_string_lossy :: "bytes \<Rightarrow> bytes" where
  "to_string_lossy bs = (if bs = [] then []
     else (case utf8_next bs of
        Valid n \<Rightarrow> take n bs @ to_string_lossy (drop n bs)
      | Invalid n \<Rightarrow> replacement @ to_string_lossy (drop n bs)))"
  by pat_completeness auto
termination
  by (relation "measure length") (auto dest: utf8_next_pos utf8_next_inv_pos)

declare utf8_valid.simps [simp del] to_string_lossy.simps [simp del]

definition to_str :: "bytes \<Rightarrow> bytes option" where
  "to_str bs = (if utf8_valid bs then Some bs else None)"

section \<open>Lemmas\<close>

lemma utf8_valid_Nil [simp]: "utf8_valid []"
  by (simp add: utf8_valid.simps)

lemma utf8_valid_unfold:
  "bs \<noteq> [] \<Longrightarrow> utf8_valid bs \<longleftrightarrow> (\<exists>n. utf8_next bs = Valid n \<and> utf8_valid (drop n bs))"
  by (subst utf8_valid.simps) (auto split: utf8_item.splits)

lemma utf8_next_append: "utf8_next xs = Valid n \<Longrightarrow> utf8_next (xs @ ys) = Valid n"
  by (cases xs) (auto split: if_splits list.splits)

lemma utf8_next_ascii: "ascii c \<Longrightarrow> utf8_next (c # bs) = Valid 1"
  by (simp add: ascii_def width_def)

lemma utf8_valid_append: "utf8_valid xs \<Longrightarrow> utf8_valid (xs @ ys) \<longleftrightarrow> utf8_valid ys"
proof (induction xs rule: utf8_valid.induct)
  case (1 xs)
  show ?case
  proof (cases "xs = []")
    case False
    with "1.prems" obtain n where n: "utf8_next xs = Valid n" "utf8_valid (drop n xs)"
      by (auto simp: utf8_valid_unfold)
    with "1.IH" False have "utf8_valid (drop n xs @ ys) \<longleftrightarrow> utf8_valid ys" by simp
    with n utf8_next_append [OF n(1)] utf8_next_le [OF n(1)] False show ?thesis
      by (simp add: utf8_valid_unfold)
  qed simp
qed

lemma utf8_valid_Cons_ascii [simp]: "ascii c \<Longrightarrow> utf8_valid (c # bs) \<longleftrightarrow> utf8_valid bs"
  by (simp add: utf8_valid_unfold utf8_next_ascii del: utf8_next.simps)

lemma utf8_valid_ascii: "list_all ascii bs \<Longrightarrow> utf8_valid bs"
  by (induction bs) auto

lemma ascii_not_cont: "ascii c \<Longrightarrow> \<not> cont c"
  by (simp add: ascii_def cont_def)

lemma ascii_not_second: "ascii c \<Longrightarrow> \<not> second_ok a c"
  by (simp add: ascii_not_cont second_ok_def)

text \<open>An ASCII byte never occurs inside a longer sequence, so it separates valid strings.\<close>

lemma utf8_next_before_ascii:
  assumes "ascii c" "xs \<noteq> []" "utf8_next (xs @ c # ys) = Valid n"
  shows "n \<le> length xs \<and> utf8_next xs = Valid n"
  using assms
  by (cases xs) (auto simp: ascii_not_cont ascii_not_second split: if_splits list.splits
      simp: append_eq_Cons_conv Cons_eq_append_conv)

lemma utf8_valid_split:
  assumes c: "ascii c"
  shows "utf8_valid (xs @ c # ys) \<longleftrightarrow> utf8_valid xs \<and> utf8_valid ys"
proof
  show "utf8_valid (xs @ c # ys) \<Longrightarrow> utf8_valid xs \<and> utf8_valid ys"
  proof (induction xs rule: utf8_valid.induct)
    case (1 xs)
    show ?case
    proof (cases "xs = []")
      case True
      with 1 c show ?thesis by simp
    next
      case False
      with "1.prems" obtain n where
        n: "utf8_next (xs @ c # ys) = Valid n" "utf8_valid (drop n (xs @ c # ys))"
        by (auto simp: utf8_valid_unfold)
      from utf8_next_before_ascii [OF c False n(1)]
      have m: "n \<le> length xs" "utf8_next xs = Valid n" by auto
      with n(2) have "utf8_valid (drop n xs @ c # ys)" by simp
      with "1.IH" [OF False m(2)] have "utf8_valid (drop n xs) \<and> utf8_valid ys" .
      with m False show ?thesis by (simp add: utf8_valid_unfold)
    qed
  qed
qed (simp add: utf8_valid_append c)

lemma utf8_valid_replacement [simp]: "utf8_valid (replacement @ bs) \<longleftrightarrow> utf8_valid bs"
proof -
  have "utf8_next replacement = Valid 3"
    by (simp add: replacement_def width_def second_ok_def cont_def)
  then have "utf8_valid replacement"
    by (simp add: utf8_valid_unfold replacement_def)
  then show ?thesis by (rule utf8_valid_append)
qed

lemma utf8_valid_take_next: "utf8_next bs = Valid n \<Longrightarrow> utf8_valid (take n bs @ cs) \<longleftrightarrow> utf8_valid cs"
proof -
  assume n: "utf8_next bs = Valid n"
  then have "utf8_next (take n bs) = Valid n"
    by (cases bs) (auto split: if_splits list.splits simp: take_Cons')
  moreover have "take n bs \<noteq> []" using utf8_next_pos [OF n] utf8_next_le [OF n] by auto
  ultimately have "utf8_valid (take n bs)" by (simp add: utf8_valid_unfold)
  then show ?thesis by (rule utf8_valid_append)
qed

lemma to_string_lossy_valid: "utf8_valid (to_string_lossy bs)"
proof (induction bs rule: to_string_lossy.induct)
  case (1 bs)
  then show ?case
    by (subst to_string_lossy.simps)
       (auto split: utf8_item.splits simp: utf8_valid_take_next)
qed

lemma to_string_lossy_id: "utf8_valid bs \<Longrightarrow> to_string_lossy bs = bs"
proof (induction bs rule: to_string_lossy.induct)
  case (1 bs)
  then show ?case
    by (subst to_string_lossy.simps)
       (auto simp: utf8_valid_unfold split: utf8_item.splits)
qed

lemma to_str_Some [simp]: "to_str bs = Some cs \<longleftrightarrow> utf8_valid bs \<and> cs = bs"
  by (auto simp: to_str_def)

lemma to_str_None [simp]: "to_str bs = None \<longleftrightarrow> \<not> utf8_valid bs"
  by (simp add: to_str_def)

end
