(* ===== verification/RPath.thy ===== *)
theory RPath
  imports Utf8
begin

text \<open>
  \<open>std::path\<close> on Unix, as far as the sources use it. A path is its byte string. The
  operations follow the standard library: \<open>Components\<close> walks the bytes from the back, skipping
  empty and \<open>.\<close> components, and \<open>file_name\<close>, \<open>parent\<close> and \<open>extension\<close> are defined by
  it; \<open>join\<close> is \<open>PathBuf::push\<close> on a copy. \<open>components_body\<close> is the reference
  definition (split at every slash, drop empty and \<open>.\<close> fields) the walk is proved equal to.
\<close>

type_synonym path = bytes

abbreviation slash :: char where
  "slash \<equiv> CHR ''/''"

definition has_root :: "path \<Rightarrow> bool" where
  "has_root p \<longleftrightarrow> (case p of [] \<Rightarrow> False | c # _ \<Rightarrow> c = slash)"

definition is_absolute :: "path \<Rightarrow> bool" where
  "is_absolute p \<longleftrightarrow> has_root p"

definition is_relative :: "path \<Rightarrow> bool" where
  "is_relative p \<longleftrightarrow> \<not> is_absolute p"

text \<open>\<open>PathBuf::push\<close>: an absolute argument replaces the path.\<close>

definition join :: "path \<Rightarrow> path \<Rightarrow> path" where
  "join p q = (if is_absolute q then q
     else if p = [] \<or> last p = slash then p @ q else p @ slash # q)"

text \<open>A leading \<open>.\<close> of a relative path is kept as a component of its own.\<close>

definition include_cur_dir :: "path \<Rightarrow> bool" where
  "include_cur_dir p \<longleftrightarrow> \<not> has_root p \<and>
     (case p of [] \<Rightarrow> False | [c] \<Rightarrow> c = CHR ''.'' | c # d # _ \<Rightarrow> c = CHR ''.'' \<and> d = slash)"

definition len_before_body :: "path \<Rightarrow> nat" where
  "len_before_body p = (if has_root p then 1 else 0) + (if include_cur_dir p then 1 else 0)"

definition skipped :: "bytes \<Rightarrow> bool" where
  "skipped c \<longleftrightarrow> c = [] \<or> c = ''.''"

text \<open>
  \<open>Components::next_back\<close> in its \<open>Body\<close> state: the last component and the bytes before it.
\<close>

function next_back_body :: "bytes \<Rightarrow> (bytes \<times> bytes) option" where
  "next_back_body b = (if b = [] then None
     else if skipped (after_last slash b) then next_back_body (before_last slash b)
     else Some (before_last slash b, after_last slash b))"
  by pat_completeness auto
termination
  by (relation "measure length") (auto simp: length_before_last)

text \<open>\<open>Components::trim_right\<close>: drop what lies behind the last component.\<close>

function trim_right :: "bytes \<Rightarrow> bytes" where
  "trim_right b = (if b = [] then []
     else if skipped (after_last slash b) then trim_right (before_last slash b) else b)"
  by pat_completeness auto
termination
  by (relation "measure length") (auto simp: length_before_last)

declare next_back_body.simps [simp del] trim_right.simps [simp del]

datatype component = RootDir | CurDir | ParentDir | Normal bytes

definition body :: "path \<Rightarrow> bytes" where
  "body p = drop (len_before_body p) p"

definition head :: "path \<Rightarrow> bytes" where
  "head p = take (len_before_body p) p"

definition component_of :: "bytes \<Rightarrow> component" where
  "component_of c = (if c = ''..'' then ParentDir else Normal c)"

text \<open>\<open>components().next_back()\<close> and the path that remains (\<open>as_path\<close>).\<close>

definition next_back :: "path \<Rightarrow> (path \<times> component) option" where
  "next_back p =
     (case next_back_body (body p) of
        Some (rest, c) \<Rightarrow> Some (head p @ trim_right rest, component_of c)
      | None \<Rightarrow> if has_root p then Some ([], RootDir)
                else if include_cur_dir p then Some ([], CurDir) else None)"

definition file_name :: "path \<Rightarrow> bytes option" where
  "file_name p = (case next_back p of Some (_, Normal c) \<Rightarrow> Some c | _ \<Rightarrow> None)"

definition parent :: "path \<Rightarrow> path option" where
  "parent p = (case next_back p of
      Some (_, RootDir) \<Rightarrow> None | Some (q, _) \<Rightarrow> Some q | None \<Rightarrow> None)"

text \<open>\<open>rsplit_file_at_dot\<close>: a name that starts with its only dot has no extension.\<close>

definition extension :: "path \<Rightarrow> bytes option" where
  "extension p = (case file_name p of None \<Rightarrow> None
     | Some f \<Rightarrow>
        if f = ''..'' \<or> CHR ''.'' \<notin> set f \<or> before_last (CHR ''.'') f = [] then None
        else Some (after_last (CHR ''.'') f))"

section \<open>The reference definition of the components\<close>

definition components_body :: "bytes \<Rightarrow> bytes list" where
  "components_body b = filter (\<lambda>c. \<not> skipped c) (split_on slash b)"

lemma split_on_last:
  "split_on s xs = (if s \<in> set xs then split_on s (before_last s xs) else []) @ [after_last s xs]"
proof (cases "s \<in> set xs")
  case True
  then have "split_on s xs = split_on s (before_last s xs @ s # after_last s xs)"
    using last_sep_split by fastforce
  with True show ?thesis by simp
qed simp

lemma components_body_Nil [simp]: "components_body [] = []"
  by (simp add: components_body_def skipped_def)

lemma components_body_step:
  "components_body b = components_body (before_last slash b) @
     (if skipped (after_last slash b) then [] else [after_last slash b])"
proof (cases "slash \<in> set b")
  case True
  then show ?thesis
    by (simp add: components_body_def split_on_last [of slash b])
next
  case False
  then show ?thesis by (simp add: components_body_def skipped_def)
qed

lemma next_back_body_components:
  "components_body b =
     (case next_back_body b of None \<Rightarrow> [] | Some (rest, c) \<Rightarrow> components_body rest @ [c])"
proof (induction b rule: next_back_body.induct)
  case (1 b)
  show ?case
  proof (cases "b = []")
    case False
    with 1 show ?thesis
      by (subst components_body_step, subst next_back_body.simps) auto
  qed (simp add: next_back_body.simps)
qed

lemma trim_right_components: "components_body (trim_right b) = components_body b"
proof (induction b rule: trim_right.induct)
  case (1 b)
  then show ?case
    by (subst trim_right.simps) (auto simp: components_body_step [of b] skipped_def)
qed

text \<open>A path whose last field is a plain name.\<close>

definition plain_name :: "bytes \<Rightarrow> bool" where
  "plain_name n \<longleftrightarrow> n \<noteq> [] \<and> n \<noteq> ''.'' \<and> n \<noteq> ''..'' \<and> slash \<notin> set n"

section \<open>Joining a plain name\<close>

lemma plain_name_relative [simp]: "plain_name n \<Longrightarrow> \<not> is_absolute n"
  by (auto simp: plain_name_def is_absolute_def has_root_def split: list.splits)

lemma after_last_suffix: "s \<notin> set n \<Longrightarrow> x = [] \<or> last x = s \<Longrightarrow> after_last s (x @ n) = n"
  by (cases x rule: rev_cases) auto

lemma before_last_suffix: "s \<notin> set n \<Longrightarrow> before_last s (x @ s # n) = x"
  by simp

lemma len_before_body_le: "len_before_body q \<le> 1"
  by (simp add: len_before_body_def include_cur_dir_def)

lemma len_before_body_plain: "plain_name n \<Longrightarrow> len_before_body n = 0"
  by (auto simp: plain_name_def len_before_body_def include_cur_dir_def has_root_def
      split: list.splits)

text \<open>Joining puts a separator before the name and leaves it outside the root prefix.\<close>

lemma body_join:
  assumes n: "plain_name n"
  obtains x where "body (join p n) = x @ n" "x = [] \<or> last x = slash"
proof -
  have "len_before_body (q @ n) \<le> length q" for q
  proof (cases q)
    case Nil
    with len_before_body_plain [OF n] show ?thesis by simp
  next
    case Cons
    with len_before_body_le [of "q @ n"] show ?thesis by simp
  qed
  then have *: "body (q @ n) = drop (len_before_body (q @ n)) q @ n" for q
    by (simp add: body_def)
  have **: "drop k q = [] \<or> last (drop k q) = slash" if "q = [] \<or> last q = slash" for k and q :: path
    using that by (cases "k < length q") auto
  show thesis
  proof (cases "p = [] \<or> last p = slash")
    case True
    with n have "join p n = p @ n" by (simp add: join_def)
    with True * [of p] ** [of p] that show thesis by metis
  next
    case False
    with n have "join p n = (p @ [slash]) @ n" by (simp add: join_def)
    with * [of "p @ [slash]"] ** [of "p @ [slash]"] that show thesis by (metis last_snoc)
  qed
qed

lemma next_back_body_plain:
  assumes "plain_name n" "x = [] \<or> last x = slash"
  shows "\<exists>r. next_back_body (x @ n) = Some (r, n)"
  using assms after_last_suffix [of slash n x]
  by (subst next_back_body.simps) (auto simp: plain_name_def skipped_def)

lemma file_name_join [path_simps]:
  assumes "plain_name n"
  shows "file_name (join p n) = Some n"
proof -
  obtain x where x: "body (join p n) = x @ n" "x = [] \<or> last x = slash"
    using body_join [OF assms] .
  with next_back_body_plain [OF assms x(2)] assms show ?thesis
    by (auto simp: file_name_def next_back_def component_of_def plain_name_def)
qed

text \<open>An absolute path that ends in a component is the parent of what is joined to it.\<close>

lemma parent_join:
  assumes n: "plain_name n" and b: "trim_right b = b" "b \<noteq> []" "last b \<noteq> slash"
  shows "parent (join (slash # b) n) = Some (slash # b)"
proof -
  have j: "join (slash # b) n = slash # (b @ slash # n)"
    using n b by (simp add: join_def)
  have bh: "body (slash # c) = c" "head (slash # c) = [slash]" for c
    by (simp_all add: body_def head_def len_before_body_def has_root_def include_cur_dir_def)
  have "slash \<notin> set n" "\<not> skipped n" using n by (simp_all add: plain_name_def skipped_def)
  then have "next_back_body (b @ slash # n) = Some (b, n)"
    by (subst next_back_body.simps) simp
  then show ?thesis
    using n b by (simp add: parent_def next_back_def j bh component_of_def plain_name_def)
qed

lemma is_absolute_join [simp]: "is_absolute p \<Longrightarrow> is_absolute (join p q)"
  by (auto simp: join_def is_absolute_def has_root_def split: list.splits)

lemma utf8_valid_join:
  assumes "utf8_valid p" "utf8_valid q"
  shows "utf8_valid (join p q)"
  using assms by (auto simp: join_def utf8_valid_append ascii_def)

lemma extension_join:
  assumes "plain_name (b @ CHR ''.'' # e)" "b \<noteq> []" "CHR ''.'' \<notin> set e"
  shows "extension (join p (b @ CHR ''.'' # e)) = Some e"
  using assms by (auto simp: extension_def file_name_join plain_name_def)

lemma extension_iff:
  assumes "plain_name n" "CHR ''.'' \<notin> set e"
  shows "extension (join p n) = Some e \<longleftrightarrow> (\<exists>b. b \<noteq> [] \<and> n = b @ CHR ''.'' # e)"
proof
  assume "extension (join p n) = Some e"
  then have "CHR ''.'' \<in> set n" "before_last (CHR ''.'') n \<noteq> []" "after_last (CHR ''.'') n = e"
    using assms by (auto simp: extension_def file_name_join split: if_splits)
  with last_sep_split [of "CHR ''.''" n] show "\<exists>b. b \<noteq> [] \<and> n = b @ CHR ''.'' # e" by metis
next
  assume "\<exists>b. b \<noteq> [] \<and> n = b @ CHR ''.'' # e"
  with assms show "extension (join p n) = Some e" by (auto simp: extension_join)
qed

lemmas path_eval = file_name_def parent_def extension_def next_back_def next_back_body.simps
  trim_right.simps body_def head_def len_before_body_def include_cur_dir_def has_root_def
  is_absolute_def is_relative_def component_of_def skipped_def after_last_def before_last_def join_def

end
