(* ===== verification/Sys.thy ===== *)
theory Sys
  imports Format RPath "HOL-Library.Multiset"
begin

text \<open>
  The operating system as the sources of \<open>start-vmm\<close> see it. The kernel, the C library's system
  call wrappers and the programs that are started are not part of the repository: they are the
  fields of the record \<open>os\<close>, arbitrary functions of a hidden world \<open>'w\<close>, and every
  definition that makes a request takes such a record as its argument \<open>K\<close>.

  The state of a process is the world it runs in, its \<open>errno\<close> and the log of the requests it
  has made with their results. A C call that fails returns -1 and sets \<open>errno\<close>; a call of the
  Rust standard library returns a \<open>Result\<close>.

  C's string functions are modelled here too. A pointer to characters is the buffer it points
  to; the string in it ends at the first NUL.
\<close>

section \<open>Errors\<close>

datatype error_kind = NotFound | BrokenPipe | UnexpectedEof | OtherKind

record io_error =
  err_kind :: error_kind
  err_code :: "errno option"

definition EPERM :: errno where "EPERM = 1"
definition ENOENT :: errno where "ENOENT = 2"
definition EINTR :: errno where "EINTR = 4"
definition EBADF :: errno where "EBADF = 9"
definition EAGAIN :: errno where "EAGAIN = 11"
definition EINVAL :: errno where "EINVAL = 22"
definition EPIPE :: errno where "EPIPE = 32"
definition ENAMETOOLONG :: errno where "ENAMETOOLONG = 36"
definition EPROTO :: errno where "EPROTO = 71"

lemmas errno_defs = EPERM_def ENOENT_def EINTR_def EBADF_def EAGAIN_def EINVAL_def EPIPE_def
  ENAMETOOLONG_def EPROTO_def

text \<open>\<open>io::Error::from_raw_os_error\<close>.\<close>

definition from_raw_os_error :: "errno \<Rightarrow> io_error" where
  "from_raw_os_error e = \<lparr>err_kind = (if e = ENOENT then NotFound
      else if e = EPIPE then BrokenPipe else OtherKind), err_code = Some e\<rparr>"

text \<open>The messages of \<open>start-vmm\<close>: one constructor per \<open>format!\<close> in its sources.\<close>

datatype vmm_error =
    Usage
  | CreatingApiSocket io_error
  | ClearingCloexec io_error
  | VmDirNotUtf8 path
  | VmNameColon bytes
  | ExaminingDirEntry io_error
  | IllegalComma bytes
  | ReadingDir path io_error
  | ProviderNotUtf8 bytes
  | NetSetupFailed io_error
  | DoubleFork io_error
  | FailedExec io_error
  | StartingChRemote io_error
  | WritingStdin io_error
  | WaitingChRemote io_error
  | ChRemoteExited int
  | ChRemoteKilled nat
  | FailedAddNet errno
  | NotifyingReadiness io_error
  | CreatingVm vmm_error
  | KillingCloudHypervisor io_error
  | FailedNotifyReadiness vmm_error

section \<open>Child processes\<close>

datatype stdio = Inherit | NullIO | Piped

record command =
  cmd_program :: bytes
  cmd_args :: "bytes list"
  cmd_stdin :: stdio
  cmd_stdout :: stdio

datatype exit_status = Exited int | Signaled nat

definition command_new :: "bytes \<Rightarrow> command" where
  "command_new p = \<lparr>cmd_program = p, cmd_args = [], cmd_stdin = Inherit, cmd_stdout = Inherit\<rparr>"

definition arg :: "bytes \<Rightarrow> command \<Rightarrow> command" where
  "arg a c = c\<lparr>cmd_args := cmd_args c @ [a]\<rparr>"

fun success :: "exit_status \<Rightarrow> bool" where
  "success (Exited c) = (c = 0)"
| "success (Signaled _) = False"

section \<open>The operating system\<close>

type_synonym ('w, 'r) req = "'w \<Rightarrow> 'r \<times> 'w"

datatype ioctl =
    SIOCSIFFLAGS bytes "16 word"
  | SIOCSIFNAME bytes bytes
  | SIOCBRADDBR bytes
  | SIOCBRDELBR bytes
  | SIOCBRADDIF bytes nat
  | SIOCBRDELIF bytes nat

record 'w os =
  os_socket :: "('w, (nat, errno) result) req"
  os_open :: "bytes \<Rightarrow> ('w, (nat, errno) result) req"
  os_close :: "int \<Rightarrow> ('w, (unit, errno) result) req"
  os_ioctl :: "nat \<Rightarrow> ioctl \<Rightarrow> ('w, (unit, errno) result) req"
  os_getifflags :: "nat \<Rightarrow> bytes \<Rightarrow> ('w, (16 word, errno) result) req"
  os_tunsetiff :: "nat \<Rightarrow> bytes \<Rightarrow> 16 word \<Rightarrow> ('w, (bytes, errno) result) req"
  os_if_nametoindex :: "bytes \<Rightarrow> ('w, (nat, errno) result) req"
  os_getpid :: "'w \<Rightarrow> nat"
  os_getppid :: "'w \<Rightarrow> nat"
  os_pipe :: "('w, (nat \<times> nat, errno) result) req"
  os_fork :: "('w, (nat, errno) result) req"
  os_read :: "nat \<Rightarrow> nat \<Rightarrow> ('w, (bytes, errno) result) req"
  os_write :: "nat \<Rightarrow> bytes \<Rightarrow> ('w, (nat, errno) result) req"
  os_kill :: "nat \<Rightarrow> nat \<Rightarrow> ('w, (unit, errno) result) req"
  os_waitpid :: "nat \<Rightarrow> ('w, (unit, errno) result) req"
  os_poll :: "nat \<Rightarrow> ('w, (16 word, errno) result) req"
  os_getfd :: "nat \<Rightarrow> ('w, (32 word, errno) result) req"
  os_setfd :: "nat \<Rightarrow> 32 word \<Rightarrow> ('w, (unit, errno) result) req"
  os_remove_file :: "path \<Rightarrow> ('w, (unit, io_error) result) req"
  os_bind :: "path \<Rightarrow> ('w, (nat, io_error) result) req"
  os_read_dir :: "path \<Rightarrow> ('w, ((bytes, io_error) result list, io_error) result) req"
  os_spawn :: "command \<Rightarrow> ('w, (nat, io_error) result) req"
  os_write_stdin :: "nat \<Rightarrow> bytes \<Rightarrow> ('w, (unit, io_error) result) req"
  os_wait :: "nat \<Rightarrow> ('w, (exit_status, io_error) result) req"
  os_write_file :: "nat \<Rightarrow> bytes \<Rightarrow> ('w, (unit, io_error) result) req"
  os_exec :: "command \<Rightarrow> ('w, (unit, io_error) result) req"

datatype event =
    EvSocket "(nat, errno) result"
  | EvOpen bytes "(nat, errno) result"
  | EvClose int "(unit, errno) result"
  | EvIoctl nat ioctl "(unit, errno) result"
  | EvGetIfFlags nat bytes "(16 word, errno) result"
  | EvTunSetIff nat bytes "16 word" "(bytes, errno) result"
  | EvNameToIndex bytes "(nat, errno) result"
  | EvPipe "(nat \<times> nat, errno) result"
  | EvFork "(nat, errno) result"
  | EvRead nat "(bytes, errno) result"
  | EvWrite nat bytes "(nat, errno) result"
  | EvKill nat nat "(unit, errno) result"
  | EvWaitpid nat "(unit, errno) result"
  | EvPoll nat "(16 word, errno) result"
  | EvGetFd nat "(32 word, errno) result"
  | EvSetFd nat "32 word" "(unit, errno) result"
  | EvRemoveFile path "(unit, io_error) result"
  | EvBind path "(nat, io_error) result"
  | EvReadDir path "((bytes, io_error) result list, io_error) result"
  | EvSpawn command "(nat, io_error) result"
  | EvWriteStdin nat bytes "(unit, io_error) result"
  | EvWait nat "(exit_status, io_error) result"
  | EvWriteFile nat bytes "(unit, io_error) result"
  | EvExec command "(unit, io_error) result"
  | EvWarn string
  | EvStderr "bytes option" vmm_error

record 'w ps =
  world :: 'w
  cerrno :: errno
  events :: "event list"

section \<open>Making a request\<close>

definition ask :: "('w, 'r) req \<Rightarrow> ('r \<Rightarrow> event) \<Rightarrow> 'w ps \<Rightarrow> 'r \<times> 'w ps" where
  "ask f ev s = (case f (world s) of (r, w) \<Rightarrow> (r, s\<lparr>world := w, events := events s @ [ev r]\<rparr>))"

text \<open>The C convention: -1 and \<open>errno\<close>, or a non-negative value.\<close>

definition c_ret :: "(nat, errno) result \<times> 'w ps \<Rightarrow> int \<times> 'w ps" where
  "c_ret rs = (case rs of (Ok n, s) \<Rightarrow> (int n, s) | (Err e, s) \<Rightarrow> (-1, s\<lparr>cerrno := e\<rparr>))"

definition c_unit :: "(unit, errno) result \<times> 'w ps \<Rightarrow> int \<times> 'w ps" where
  "c_unit rs = (case rs of (Ok _, s) \<Rightarrow> (0, s) | (Err e, s) \<Rightarrow> (-1, s\<lparr>cerrno := e\<rparr>))"

definition c_opt :: "('a, errno) result \<times> 'w ps \<Rightarrow> 'a option \<times> 'w ps" where
  "c_opt rs = (case rs of (Ok a, s) \<Rightarrow> (Some a, s) | (Err e, s) \<Rightarrow> (None, s\<lparr>cerrno := e\<rparr>))"

definition set_errno :: "errno \<Rightarrow> 'w ps \<Rightarrow> 'w ps" where
  "set_errno e s = s\<lparr>cerrno := e\<rparr>"

definition emit :: "event \<Rightarrow> 'w ps \<Rightarrow> 'w ps" where
  "emit ev s = s\<lparr>events := events s @ [ev]\<rparr>"

text \<open>\<open>warn(3)\<close> of err.h: a message on standard error; it saves and restores nothing the callers read.\<close>

definition c_warn :: "string \<Rightarrow> 'w ps \<Rightarrow> 'w ps" where
  "c_warn m s = emit (EvWarn m) s"

definition sys_socket :: "'w os \<Rightarrow> 'w ps \<Rightarrow> int \<times> 'w ps" where
  "sys_socket K s = c_ret (ask (os_socket K) EvSocket s)"

definition sys_open :: "'w os \<Rightarrow> bytes \<Rightarrow> 'w ps \<Rightarrow> int \<times> 'w ps" where
  "sys_open K p s = c_ret (ask (os_open K p) (EvOpen p) s)"

definition sys_close :: "'w os \<Rightarrow> int \<Rightarrow> 'w ps \<Rightarrow> int \<times> 'w ps" where
  "sys_close K fd s = c_unit (ask (os_close K fd) (EvClose fd) s)"

definition sys_ioctl :: "'w os \<Rightarrow> int \<Rightarrow> ioctl \<Rightarrow> 'w ps \<Rightarrow> int \<times> 'w ps" where
  "sys_ioctl K fd q s = c_unit (ask (os_ioctl K (nat fd) q) (EvIoctl (nat fd) q) s)"

definition sys_getifflags :: "'w os \<Rightarrow> int \<Rightarrow> bytes \<Rightarrow> 'w ps \<Rightarrow> 16 word option \<times> 'w ps" where
  "sys_getifflags K fd n s = c_opt (ask (os_getifflags K (nat fd) n) (EvGetIfFlags (nat fd) n) s)"

definition sys_tunsetiff :: "'w os \<Rightarrow> int \<Rightarrow> bytes \<Rightarrow> 16 word \<Rightarrow> 'w ps \<Rightarrow> bytes option \<times> 'w ps" where
  "sys_tunsetiff K fd n f s = c_opt (ask (os_tunsetiff K (nat fd) n f) (EvTunSetIff (nat fd) n f) s)"

text \<open>\<open>if_nametoindex\<close> returns 0 on failure.\<close>

definition sys_if_nametoindex :: "'w os \<Rightarrow> bytes \<Rightarrow> 'w ps \<Rightarrow> nat \<times> 'w ps" where
  "sys_if_nametoindex K n s =
     (case ask (os_if_nametoindex K n) (EvNameToIndex n) s of
        (Ok i, s) \<Rightarrow> (i, s) | (Err e, s) \<Rightarrow> (0, s\<lparr>cerrno := e\<rparr>))"

definition sys_pipe :: "'w os \<Rightarrow> 'w ps \<Rightarrow> (nat \<times> nat) option \<times> 'w ps" where
  "sys_pipe K s = c_opt (ask (os_pipe K) EvPipe s)"

definition sys_fork :: "'w os \<Rightarrow> 'w ps \<Rightarrow> int \<times> 'w ps" where
  "sys_fork K s = c_ret (ask (os_fork K) EvFork s)"

definition sys_getpid :: "'w os \<Rightarrow> 'w ps \<Rightarrow> nat" where
  "sys_getpid K s = os_getpid K (world s)"

definition last_os_error :: "'w ps \<Rightarrow> io_error" where
  "last_os_error s = from_raw_os_error (cerrno s)"

section \<open>Views of the log\<close>

text \<open>The programs started, what was written to their input, and the requests on interfaces the kernel carried out.\<close>

definition spawns :: "event list \<Rightarrow> command list" where
  "spawns evs = concat (map (\<lambda>e. case e of EvSpawn c _ \<Rightarrow> [c] | _ \<Rightarrow> []) evs)"

definition stdins :: "event list \<Rightarrow> bytes list" where
  "stdins evs = concat (map (\<lambda>e. case e of EvWriteStdin _ b _ \<Rightarrow> [b] | _ \<Rightarrow> []) evs)"

lemma spawns_simps [simp]:
  "spawns [] = []" "spawns (xs @ ys) = spawns xs @ spawns ys"
  "spawns (e # evs) = (case e of EvSpawn c _ \<Rightarrow> [c] | _ \<Rightarrow> []) @ spawns evs"
  by (simp_all add: spawns_def)

lemma stdins_simps [simp]:
  "stdins [] = []" "stdins (xs @ ys) = stdins xs @ stdins ys"
  "stdins (e # evs) = (case e of EvWriteStdin _ b _ \<Rightarrow> [b] | _ \<Rightarrow> []) @ stdins evs"
  by (simp_all add: stdins_def)

definition done_ioctls :: "event list \<Rightarrow> ioctl list" where
  "done_ioctls evs = concat (map (\<lambda>e. case e of EvIoctl _ q (Ok _) \<Rightarrow> [q] | _ \<Rightarrow> []) evs)"

lemma done_ioctls_simps [simp]:
  "done_ioctls [] = []" "done_ioctls (xs @ ys) = done_ioctls xs @ done_ioctls ys"
  "done_ioctls (e # evs) = (case e of EvIoctl _ q (Ok _) \<Rightarrow> [q] | _ \<Rightarrow> []) @ done_ioctls evs"
  by (simp_all add: done_ioctls_def)

section \<open>C strings\<close>

abbreviation NUL :: char where
  "NUL \<equiv> CHR 0x00"

definition IFNAMSIZ :: nat where
  "IFNAMSIZ = 16"

definition cstr :: "bytes \<Rightarrow> bytes" where
  "cstr b = takeWhile (\<lambda>c. c \<noteq> NUL) b"

definition strnlen :: "bytes \<Rightarrow> nat \<Rightarrow> nat" where
  "strnlen b n = min n (length (cstr b))"

definition strncpy :: "bytes \<Rightarrow> nat \<Rightarrow> bytes" where
  "strncpy b n = take n (cstr b) @ replicate (n - length (cstr b)) NUL"

definition strchr :: "bytes \<Rightarrow> char \<Rightarrow> bool" where
  "strchr b c \<longleftrightarrow> c \<in> set (cstr b)"

text \<open>
  \<open>snprintf\<close> of the text \<open>t\<close> into the first \<open>n\<close> bytes of a buffer: truncated, always
  terminated, the bytes behind the terminator untouched. It returns the untruncated length.
\<close>

definition snprintf :: "bytes \<Rightarrow> nat \<Rightarrow> bytes \<Rightarrow> int \<times> bytes" where
  "snprintf buf n t = (int (length t),
     if n = 0 then buf
     else take (n - 1) t @ NUL # drop (Suc (length (take (n - 1) t))) buf)"

lemma cstr_no_NUL: "NUL \<notin> set (cstr b)"
  by (auto simp: cstr_def dest: set_takeWhileD)

lemma cstr_id [simp]: "NUL \<notin> set b \<Longrightarrow> cstr b = b"
  by (simp add: cstr_def takeWhile_notin)

lemma cstr_NUL [simp]: "NUL \<notin> set b \<Longrightarrow> cstr (b @ NUL # c) = b"
  by (simp add: cstr_def takeWhile_tail takeWhile_notin)

lemma cstr_cstr [simp]: "cstr (cstr b) = cstr b"
  by (simp add: cstr_no_NUL)

lemma length_strncpy [simp]: "length (strncpy b n) = n"
  by (simp add: strncpy_def min_def)

lemma cstr_strncpy: "cstr (strncpy b n) = take n (cstr b)"
proof -
  have "NUL \<notin> set (take n (cstr b))" using cstr_no_NUL in_set_takeD by fast
  then show ?thesis
    by (cases "n - length (cstr b)") (simp_all add: strncpy_def)
qed

lemma cstr_snprintf: "NUL \<notin> set t \<Longrightarrow> 0 < n \<Longrightarrow> cstr (snd (snprintf buf n t)) = take (n - 1) t"
  by (simp add: snprintf_def) (meson cstr_NUL in_set_takeD)

lemma snprintf_no_error [simp]: "fst (snprintf buf n t) \<noteq> -1"
  by (simp add: snprintf_def)

lemma length_snprintf: "n \<le> length buf \<Longrightarrow> length (snd (snprintf buf n t)) = length buf"
  by (auto simp: snprintf_def min_def)

section \<open>An environment that refuses every request\<close>

text \<open>
  A starting point for concrete environments: every request fails with EPERM. Examples override
  the requests they grant.
\<close>

definition refusing_os :: "'w os" where
  "refusing_os = (let no = \<lambda>w. (Err EPERM, w); no_io = \<lambda>w. (Err (from_raw_os_error EPERM), w) in
     \<lparr>os_socket = no, os_open = \<lambda>_. no, os_close = \<lambda>_ w. (Err EPERM, w),
      os_ioctl = \<lambda>_ _ w. (Err EPERM, w), os_getifflags = \<lambda>_ _ w. (Err EPERM, w),
      os_tunsetiff = \<lambda>_ _ _ w. (Err EPERM, w), os_if_nametoindex = \<lambda>_. no,
      os_getpid = \<lambda>_. 1, os_getppid = \<lambda>_. 1, os_pipe = \<lambda>w. (Err EPERM, w), os_fork = no,
      os_read = \<lambda>_ _ w. (Err EPERM, w), os_write = \<lambda>_ _. no, os_kill = \<lambda>_ _ w. (Err EPERM, w),
      os_waitpid = \<lambda>_ w. (Err EPERM, w), os_poll = \<lambda>_ w. (Err EPERM, w),
      os_getfd = \<lambda>_ w. (Err EPERM, w), os_setfd = \<lambda>_ _ w. (Err EPERM, w),
      os_remove_file = \<lambda>_ w. (Err (from_raw_os_error EPERM), w), os_bind = \<lambda>_. no_io,
      os_read_dir = \<lambda>_ w. (Err (from_raw_os_error EPERM), w), os_spawn = \<lambda>_. no_io,
      os_write_stdin = \<lambda>_ _ w. (Err (from_raw_os_error EPERM), w),
      os_wait = \<lambda>_ w. (Err (from_raw_os_error EPERM), w),
      os_write_file = \<lambda>_ _ w. (Err (from_raw_os_error EPERM), w),
      os_exec = \<lambda>_ w. (Err (from_raw_os_error EPERM), w)\<rparr>)"

lemmas sys_eval = sys_socket_def sys_open_def sys_close_def sys_ioctl_def sys_getifflags_def
  sys_tunsetiff_def sys_if_nametoindex_def sys_pipe_def sys_fork_def sys_getpid_def ask_def c_ret_def c_unit_def c_opt_def
  set_errno_def emit_def c_warn_def

end
