(* ===== verification/Fds.thy ===== *)
theory Fds
  imports Sys
begin

text \<open>
  Descriptor accounting. \<open>held M evs\<close> is the multiset of descriptors a process holds after the
  requests \<open>evs\<close> when it held \<open>M\<close> before. The locale \<open>fd_op\<close> is the contract of an
  operation that consumes the descriptors \<open>pre\<close> and leaves one of the multisets \<open>gain r\<close>,
  which depend on its result, whatever the kernel answers. It is closed under sequencing, branching and
  framing; each component interprets it for its own operations.
\<close>

definition fd_opened :: "event \<Rightarrow> nat multiset" where
  "fd_opened e = (case e of
      EvSocket (Ok n) \<Rightarrow> {#n#} | EvOpen _ (Ok n) \<Rightarrow> {#n#} | EvBind _ (Ok n) \<Rightarrow> {#n#}
    | EvPipe (Ok (a, b)) \<Rightarrow> {#a, b#} | _ \<Rightarrow> {#})"

definition fdm :: "int \<Rightarrow> nat multiset" where
  "fdm i = (if i < 0 then {#} else {#nat i#})"

definition fd_closed :: "event \<Rightarrow> nat multiset" where
  "fd_closed e = (case e of EvClose i _ \<Rightarrow> fdm i | _ \<Rightarrow> {#})"

definition held :: "nat multiset \<Rightarrow> event list \<Rightarrow> nat multiset" where
  "held M evs = fold (\<lambda>e M. M - fd_closed e + fd_opened e) evs M"

lemma held_Nil [simp]: "held M [] = M"
  by (simp add: held_def)

lemma held_Cons [simp]: "held M (e # evs) = held (M - fd_closed e + fd_opened e) evs"
  by (simp add: held_def)

lemma held_append [simp]: "held M (xs @ ys) = held (held M xs) ys"
  by (simp add: held_def)

lemma fdm_simps [simp]: "fdm (- 1) = {#}" "fdm (int n) = {#n#}"
  by (simp_all add: fdm_def)

locale fd_op =
  fixes op :: "'w ps \<Rightarrow> 'a \<times> 'w ps"
    and pre :: "nat multiset"
    and gain :: "'a \<Rightarrow> nat multiset set"
  assumes contract: "\<exists>evs. events (snd (op s)) = events s @ evs \<and>
    (\<exists>D \<in> gain (fst (op s)). \<forall>M. held (M + pre) evs = M + D)"
begin

lemma log_grows: "\<exists>evs. events (snd (op s)) = events s @ evs"
  using contract [of s] by blast

lemma frame: "\<exists>evs. events (snd (op s)) = events s @ evs \<and>
    (\<exists>D \<in> (\<lambda>D. D + F) ` gain (fst (op s)). \<forall>M. held (M + (pre + F)) evs = M + D)"
proof -
  from contract [of s] obtain evs D where
    e: "events (snd (op s)) = events s @ evs" "D \<in> gain (fst (op s))"
      "\<And>M. held (M + pre) evs = M + D" by blast
  then have "held (M + (pre + F)) evs = M + (D + F)" for M
    using e(3) [of "M + F"] by (simp add: ac_simps)
  with e(1,2) show ?thesis by blast
qed

end

section \<open>Rules\<close>

lemma fd_op_frame: "fd_op f P G \<Longrightarrow> fd_op f (P + F) (\<lambda>a. (\<lambda>D. D + F) ` G a)"
  by (intro fd_op.intro) (rule fd_op.frame)

lemma fd_op_return: "P \<in> G a \<Longrightarrow> fd_op (\<lambda>s. (a, s)) P G"
  by (intro fd_op.intro) auto

lemma fd_op_bind:
  assumes f: "fd_op f P G" and g: "\<And>a D. D \<in> G a \<Longrightarrow> fd_op (g a) D H"
  shows "fd_op (\<lambda>s. case f s of (a, t) \<Rightarrow> g a t) P H"
proof
  fix s
  obtain a t where ft: "f s = (a, t)" by force
  from fd_op.contract [OF f, of s] ft obtain xs D where
    xs: "events t = events s @ xs" "D \<in> G a" "\<And>M. held (M + P) xs = M + D" by auto
  from fd_op.contract [OF g [OF xs(2)], of t] obtain ys E where
    ys: "events (snd (g a t)) = events t @ ys" "E \<in> H (fst (g a t))" "\<And>M. held (M + D) ys = M + E"
    by auto
  from xs ys ft show "\<exists>evs. events (snd (case f s of (a, t) \<Rightarrow> g a t)) = events s @ evs \<and>
      (\<exists>D \<in> H (fst (case f s of (a, t) \<Rightarrow> g a t)). \<forall>M. held (M + P) evs = M + D)"
    by (intro exI [of _ "xs @ ys"]) auto
qed

lemma fd_op_bind_framed:
  assumes "fd_op f P' G" and "P = P' + F" and "\<And>a D. D \<in> G a \<Longrightarrow> fd_op (g a) (D + F) H"
  shows "fd_op (\<lambda>s. case f s of (a, t) \<Rightarrow> g a t) P H"
  unfolding assms(2) by (rule fd_op_bind [OF fd_op_frame [OF assms(1)]]) (auto simp: assms(3))

lemma fd_op_if:
  "(b \<Longrightarrow> fd_op f P G) \<Longrightarrow> (\<not> b \<Longrightarrow> fd_op g P G) \<Longrightarrow> fd_op (\<lambda>s. if b then f s else g s) P G"
  by (cases b) auto

lemma fd_op_option:
  assumes "a = None \<Longrightarrow> fd_op h P G" "\<And>y. a = Some y \<Longrightarrow> fd_op (g y) P G"
  shows "fd_op (\<lambda>s. case a of None \<Rightarrow> h s | Some y \<Rightarrow> g y s) P G"
  using assms by (cases a) auto

lemma fd_op_outcome:
  assumes "\<And>y. a = Ret y \<Longrightarrow> fd_op (f y) P G" "a = Panic \<Longrightarrow> fd_op g P G"
    "\<And>n. a = Exit n \<Longrightarrow> fd_op (h n) P G" "a = Diverge \<Longrightarrow> fd_op k P G"
  shows "fd_op (\<lambda>s. case a of Ret y \<Rightarrow> f y s | Panic \<Rightarrow> g s | Exit n \<Rightarrow> h n s | Diverge \<Rightarrow> k s) P G"
  using assms by (cases a) auto

lemma fd_op_case_pair:
  "(\<And>x y. a = (x, y) \<Longrightarrow> fd_op (g x y) P G) \<Longrightarrow> fd_op (\<lambda>s. case a of (x, y) \<Rightarrow> g x y s) P G"
  by (cases a) auto

text \<open>An operation that holds nothing runs inside any frame.\<close>

lemma fd_op_then:
  assumes "fd_op f {#} (\<lambda>_. {{#}})" "\<And>a. fd_op (g a) P H"
  shows "fd_op (\<lambda>s. case f s of (a, t) \<Rightarrow> g a t) P H"
  using fd_op_bind_framed [OF assms(1), of P P g H] assms(2) by simp

text \<open>An operation that acquires descriptors while others are held.\<close>

lemma fd_op_acquire:
  assumes "fd_op f {#} G" "\<And>a D. D \<in> G a \<Longrightarrow> fd_op (g a) (D + P) H"
  shows "fd_op (\<lambda>s. case f s of (a, t) \<Rightarrow> g a t) P H"
  using fd_op_bind_framed [OF assms(1), of P P g H] assms(2) by simp

lemma fd_op_acquire1:
  assumes "fd_op f {#} (\<lambda>a. {G a})" "\<And>a. fd_op (g a) (G a + P) H"
  shows "fd_op (\<lambda>s. case f s of (a, t) \<Rightarrow> g a t) P H"
  by (rule fd_op_acquire [OF assms(1)]) (simp add: assms(2))

text \<open>An operation that gives its descriptors up.\<close>

lemma fd_op_release:
  assumes "fd_op f P' (\<lambda>_. {{#}})" "P = P' + F" "\<And>a. fd_op (g a) F H"
  shows "fd_op (\<lambda>s. case f s of (a, t) \<Rightarrow> g a t) P H"
  by (rule fd_op_bind_framed [OF assms(1,2)]) (simp add: assms(3))

lemma fd_op_pure:
  assumes "fd_op f P G" and "\<And>s. events (u s) = events s"
  shows "fd_op (\<lambda>s. f (u s)) P G"
  using assms by (metis fd_op.intro fd_op.contract)

lemma fd_op_set_errno: "fd_op f P G \<Longrightarrow> fd_op (\<lambda>s. f (set_errno e s)) P G"
  by (rule fd_op_pure) (simp_all add: set_errno_def)

lemma fd_op_emit:
  assumes "fd_op f P G" "fd_opened e = {#}" "fd_closed e = {#}"
  shows "fd_op (\<lambda>s. f (emit e s)) P G"
proof
  fix s
  from fd_op.contract [OF assms(1), of "emit e s"] obtain evs D where
    "events (snd (f (emit e s))) = events s @ e # evs" "D \<in> G (fst (f (emit e s)))"
    "\<And>M. held (M + P) evs = M + D" by (auto simp: emit_def)
  with assms(2,3) show "\<exists>evs. events (snd (f (emit e s))) = events s @ evs \<and>
      (\<exists>D \<in> G (fst (f (emit e s))). \<forall>M. held (M + P) evs = M + D)"
    by (intro exI [of _ "e # evs"]) auto
qed

lemma fd_op_warn: "fd_op f P G \<Longrightarrow> fd_op (\<lambda>s. f (c_warn m s)) P G"
  unfolding c_warn_def by (rule fd_op_emit) (simp_all add: fd_opened_def fd_closed_def)

lemma fd_op_warn_if: "fd_op f P G \<Longrightarrow> fd_op (\<lambda>s. f (if b then c_warn m s else s)) P G"
  using fd_op_warn [of f P G m] by (cases b) auto

lemma fd_op_ask:
  assumes "\<And>r. fd_opened (ev r) = G r" "\<And>r. fd_closed (ev r) = P"
  shows "fd_op (ask f ev) P (\<lambda>r. {G r})"
  by unfold_locales (auto simp: ask_def assms split: prod.splits)

lemma fd_op_ask_none:
  assumes "\<And>r. fd_opened (ev r) = {#}" "\<And>r. fd_closed (ev r) = {#}"
  shows "fd_op (ask f ev) {#} (\<lambda>_. {{#}})"
  by (rule fd_op_ask) (simp_all add: assms)

text \<open>Changing the result of an operation and \<open>errno\<close> with it.\<close>

lemma fd_op_map:
  assumes f: "fd_op f P G" and h: "\<And>r s. events (snd (h (r, s))) = events s"
    and G: "\<And>r s. G r \<subseteq> H (fst (h (r, s)))"
  shows "fd_op (\<lambda>s. h (f s)) P H"
proof
  fix s
  obtain r t where ft: "f s = (r, t)" by force
  from fd_op.contract [OF f, of s] ft obtain evs D where
    "events t = events s @ evs" "D \<in> G r" "\<And>M. held (M + P) evs = M + D" by auto
  with h [of r t] G [of r t] ft show "\<exists>evs. events (snd (h (f s))) = events s @ evs \<and>
      (\<exists>D \<in> H (fst (h (f s))). \<forall>M. held (M + P) evs = M + D)" by auto
qed

lemma fd_op_c_ret:
  assumes "fd_op f P G" "\<And>n. G (Ok n) \<subseteq> H (int n)" "\<And>e. G (Err e) \<subseteq> H (- 1)"
  shows "fd_op (\<lambda>s. c_ret (f s)) P H"
  by (rule fd_op_map [OF assms(1)]) (auto simp: c_ret_def assms(2,3) split: result.splits
      dest: subsetD [OF assms(2)] subsetD [OF assms(3)])

lemma fd_op_c_unit: "fd_op f P (\<lambda>_. G) \<Longrightarrow> fd_op (\<lambda>s. c_unit (f s)) P (\<lambda>_. G)"
  by (erule fd_op_map) (auto simp: c_unit_def split: result.splits)

lemma fd_op_c_opt:
  assumes "fd_op f P G" "\<And>a. G (Ok a) \<subseteq> H (Some a)" "\<And>e. G (Err e) \<subseteq> H None"
  shows "fd_op (\<lambda>s. c_opt (f s)) P H"
  by (rule fd_op_map [OF assms(1)]) (auto simp: c_opt_def split: result.splits
      dest: subsetD [OF assms(2)] subsetD [OF assms(3)])

lemma fd_op_bind_res:
  assumes "fd_op f P (\<lambda>r. {G r})" "\<And>a. fd_op (g a) (G (Ok a)) H" "\<And>e. fd_op (h e) (G (Err e)) H"
  shows "fd_op (\<lambda>s. case f s of (Ok a, t) \<Rightarrow> g a t | (Err e, t) \<Rightarrow> h e t) P H"
proof -
  have "fd_op (\<lambda>s. case f s of (r, t) \<Rightarrow> (case r of Ok a \<Rightarrow> g a | Err e \<Rightarrow> h e) t) P H"
    by (rule fd_op_bind [OF assms(1)]) (auto simp: assms(2,3) split: result.split)
  moreover have "(\<lambda>s. case f s of (r, t) \<Rightarrow> (case r of Ok a \<Rightarrow> g a | Err e \<Rightarrow> h e) t) =
      (\<lambda>s. case f s of (Ok a, t) \<Rightarrow> g a t | (Err e, t) \<Rightarrow> h e t)"
    by (auto split: prod.splits result.splits)
  ultimately show ?thesis by simp
qed

section \<open>Operations that may not return\<close>

text \<open>A panic or an exit leaves the process with whatever it holds.\<close>

definition ret_gain :: "('a \<Rightarrow> nat multiset set) \<Rightarrow> 'a outcome \<Rightarrow> nat multiset set" where
  "ret_gain G q = (case q of Ret a \<Rightarrow> G a | _ \<Rightarrow> UNIV)"

lemma ret_gain_simps [simp]:
  "ret_gain G (Ret a) = G a" "ret_gain G Panic = UNIV" "ret_gain G (Exit n) = UNIV" "ret_gain G Diverge = UNIV"
  by (simp_all add: ret_gain_def)

lemma held_quiet: "\<forall>e \<in> set evs. fd_opened e = {#} \<and> fd_closed e = {#} \<Longrightarrow> held M evs = M"
  by (induction evs) auto

section \<open>The primitive requests\<close>

definition res_fd :: "(nat, 'e) result \<Rightarrow> nat multiset" where
  "res_fd r = (case r of Ok n \<Rightarrow> {#n#} | Err _ \<Rightarrow> {#})"

interpretation sys_socket: fd_op "sys_socket K" "{#}" "\<lambda>i. {fdm i}" for K
  unfolding sys_socket_def
  by (rule fd_op_c_ret [OF fd_op_ask, where ?G1 = res_fd])
     (auto simp: fd_opened_def fd_closed_def res_fd_def split: result.splits)

interpretation sys_open: fd_op "sys_open K p" "{#}" "\<lambda>i. {fdm i}" for K p
  unfolding sys_open_def
  by (rule fd_op_c_ret [OF fd_op_ask, where ?G1 = res_fd])
     (auto simp: fd_opened_def fd_closed_def res_fd_def split: result.splits)

interpretation sys_close: fd_op "sys_close K fd" "fdm fd" "\<lambda>_. {{#}}" for K fd
  unfolding sys_close_def
  by (rule fd_op_c_unit [OF fd_op_ask]) (auto simp: fd_opened_def fd_closed_def)

interpretation sys_ioctl: fd_op "sys_ioctl K fd q" "{#}" "\<lambda>_. {{#}}" for K fd q
  unfolding sys_ioctl_def
  by (rule fd_op_c_unit [OF fd_op_ask]) (auto simp: fd_opened_def fd_closed_def)

interpretation sys_getifflags: fd_op "sys_getifflags K fd n" "{#}" "\<lambda>_. {{#}}" for K fd n
  unfolding sys_getifflags_def
  by (rule fd_op_c_opt [OF fd_op_ask_none]) (simp_all add: fd_opened_def fd_closed_def)

interpretation sys_tunsetiff: fd_op "sys_tunsetiff K fd n f" "{#}" "\<lambda>_. {{#}}" for K fd n f
  unfolding sys_tunsetiff_def
  by (rule fd_op_c_opt [OF fd_op_ask_none]) (simp_all add: fd_opened_def fd_closed_def)

interpretation sys_if_nametoindex: fd_op "sys_if_nametoindex K n" "{#}" "\<lambda>_. {{#}}" for K n
  by unfold_locales (auto simp: sys_if_nametoindex_def ask_def fd_opened_def fd_closed_def
      split: prod.splits result.splits)

interpretation sys_pipe: fd_op "sys_pipe K" "{#}"
    "\<lambda>r. {case r of None \<Rightarrow> {#} | Some (a, b) \<Rightarrow> {#a, b#}}" for K
  unfolding sys_pipe_def
  by (rule fd_op_c_opt [OF fd_op_ask,
        where ?G1 = "\<lambda>r. case r of Ok (a, b) \<Rightarrow> {#a, b#} | Err _ \<Rightarrow> {#}"])
     (auto simp: fd_opened_def fd_closed_def split: result.splits)

lemma fd_op_pipe:
  assumes "\<And>a b. fd_op (g (a, b)) {#a, b#} H" "fd_op h {#} H"
  shows "fd_op (\<lambda>s. case sys_pipe K s of (p, s) \<Rightarrow> (case p of None \<Rightarrow> h s | Some fd \<Rightarrow> g fd s)) {#} H"
proof (rule fd_op_acquire1 [OF sys_pipe.fd_op_axioms], rule fd_op_option)
  fix p fd
  assume p: "p = Some (fd :: nat \<times> nat)"
  show "fd_op (g fd) ((case p of None \<Rightarrow> {#} | Some (a, b) \<Rightarrow> {#a, b#}) + {#}) H"
    using assms(1) [of "fst fd" "snd fd"] p by (simp add: case_prod_beta)
qed (simp add: assms(2))

interpretation sys_fork: fd_op "sys_fork K" "{#}" "\<lambda>_. {{#}}" for K
  unfolding sys_fork_def
  by (rule fd_op_c_ret [OF fd_op_ask_none]) (simp_all add: fd_opened_def fd_closed_def)

end
