(* ===== verification/NetUtil.thy ===== *)
theory NetUtil
  imports Fds
begin

unbundle bit_operations_syntax

text \<open>
  \<open>host/start-vmm/net-util.c\<close>: bringing interfaces up and down, renaming them, bridges and tap
  devices. Each function opens a socket for the request and closes it; only \<open>tap_open\<close> returns
  a descriptor. The request structures live on the stack uninitialised; where a byte of one
  reaches the kernel without having been written, it is the parameter \<open>stk\<close>.
\<close>

definition IFF_UP :: "16 word" where "IFF_UP = 0x1"
definition IFF_TAP :: "16 word" where "IFF_TAP = 0x2"
definition IFF_NO_PI :: "16 word" where "IFF_NO_PI = 0x1000"
definition IFF_VNET_HDR :: "16 word" where "IFF_VNET_HDR = 0x4000"
definition IFF_TUN_EXCL :: "16 word" where "IFF_TUN_EXCL = 0x8000"

lemmas iff_defs = IFF_UP_def IFF_TAP_def IFF_NO_PI_def IFF_VNET_HDR_def IFF_TUN_EXCL_def

definition if_up :: "'w os \<Rightarrow> bytes \<Rightarrow> 'w ps \<Rightarrow> int \<times> 'w ps" where
  "if_up K name s =
     (case sys_socket K s of (fd, s) \<Rightarrow>
        if fd = -1 then (-1, s)
        else
          (case sys_getifflags K fd (strncpy name IFNAMSIZ) s of (fl, s) \<Rightarrow>
            (case fl of
               None \<Rightarrow> (case sys_close K fd s of (_, s) \<Rightarrow> (-1, s))
             | Some flags \<Rightarrow>
                (case sys_ioctl K fd (SIOCSIFFLAGS (strncpy name IFNAMSIZ) (flags OR IFF_UP)) s of (r, s) \<Rightarrow>
                   (case sys_close K fd s of (_, s) \<Rightarrow> (r, s))))))"

definition if_rename :: "'w os \<Rightarrow> bytes \<Rightarrow> bytes \<Rightarrow> 'w ps \<Rightarrow> int \<times> 'w ps" where
  "if_rename K name newname s =
     (let ifr_name = strncpy name IFNAMSIZ; ifr_newname = strncpy newname IFNAMSIZ in
      if ifr_newname ! (IFNAMSIZ - 1) \<noteq> NUL then (-1, set_errno ENAMETOOLONG s)
      else if strchr ifr_newname (CHR ''%'') then (-1, set_errno EINVAL s)
      else
        (case sys_socket K s of (fd, s) \<Rightarrow>
           if fd = -1 then (-1, s)
           else
             (case sys_ioctl K fd (SIOCSIFNAME ifr_name ifr_newname) s of (r, s) \<Rightarrow>
                (case sys_close K fd s of (_, s) \<Rightarrow> (r, s)))))"

definition if_down :: "'w os \<Rightarrow> bytes \<Rightarrow> 'w ps \<Rightarrow> int \<times> 'w ps" where
  "if_down K name s =
     (case sys_socket K s of (fd, s) \<Rightarrow>
        if fd = -1 then (-1, s)
        else
          (case sys_getifflags K fd (strncpy name IFNAMSIZ) s of (fl, s) \<Rightarrow>
            (case fl of
               None \<Rightarrow> (case sys_close K fd s of (_, s) \<Rightarrow> (-1, s))
             | Some flags \<Rightarrow>
                (case sys_ioctl K fd (SIOCSIFFLAGS (strncpy name IFNAMSIZ) (flags AND NOT IFF_UP)) s of (r, s) \<Rightarrow>
                   (case sys_close K fd s of (_, s) \<Rightarrow> (r, s))))))"

definition bridge_add :: "'w os \<Rightarrow> bytes \<Rightarrow> 'w ps \<Rightarrow> int \<times> 'w ps" where
  "bridge_add K name s =
     (if strnlen name IFNAMSIZ = IFNAMSIZ then (-1, set_errno ENAMETOOLONG s)
      else if strchr name (CHR ''%'') then (-1, set_errno EINVAL s)
      else
        (case sys_socket K s of (fd, s) \<Rightarrow>
           if fd = -1 then (-1, s)
           else
             (case sys_ioctl K fd (SIOCBRADDBR (cstr name)) s of (r, s) \<Rightarrow>
                (case sys_close K fd s of (_, s) \<Rightarrow> (r, s)))))"

definition bridge_add_if :: "'w os \<Rightarrow> bytes \<Rightarrow> bytes \<Rightarrow> 'w ps \<Rightarrow> int \<times> 'w ps" where
  "bridge_add_if K brname ifname s =
     (case sys_if_nametoindex K (cstr ifname) s of (i, s) \<Rightarrow>
        if i = 0 then (-1, s)
        else
          (case sys_socket K s of (fd, s) \<Rightarrow>
             if fd = -1 then (-1, s)
             else
               (case sys_ioctl K fd (SIOCBRADDIF (strncpy brname IFNAMSIZ) i) s of (r, s) \<Rightarrow>
                  (case sys_close K fd s of (_, s) \<Rightarrow> (r, s)))))"

definition bridge_remove_if :: "'w os \<Rightarrow> bytes \<Rightarrow> bytes \<Rightarrow> 'w ps \<Rightarrow> int \<times> 'w ps" where
  "bridge_remove_if K brname ifname s =
     (case sys_if_nametoindex K (cstr ifname) s of (i, s) \<Rightarrow>
        if i = 0 then (-1, s)
        else
          (case sys_socket K s of (fd, s) \<Rightarrow>
             if fd = -1 then (-1, s)
             else
               (case sys_ioctl K fd (SIOCBRDELIF (strncpy brname IFNAMSIZ) i) s of (r, s) \<Rightarrow>
                  (case sys_close K fd s of (_, s) \<Rightarrow> (r, s)))))"

definition bridge_delete :: "'w os \<Rightarrow> bytes \<Rightarrow> 'w ps \<Rightarrow> int \<times> 'w ps" where
  "bridge_delete K name s =
     (case if_down K name s of (d, s) \<Rightarrow>
        (case sys_socket K (if d = -1 then c_warn (''setting '' @ cstr name @ '' down'') s else s) of (fd, s) \<Rightarrow>
           if fd = -1 then (-1, s)
           else
             (case sys_ioctl K fd (SIOCBRDELBR (cstr name)) s of (r, s) \<Rightarrow>
                (case sys_close K fd s of (_, s) \<Rightarrow> (r, s)))))"

text \<open>\<open>tap_open\<close> returns the descriptor and the name buffer, which receives the name the kernel chose.\<close>

definition tap_open :: "'w os \<Rightarrow> char \<Rightarrow> bytes \<Rightarrow> 16 word \<Rightarrow> 'w ps \<Rightarrow> (int \<times> bytes) \<times> 'w ps" where
  "tap_open K stk name flags s =
     (if strnlen name IFNAMSIZ = IFNAMSIZ then ((-1, name), set_errno ENAMETOOLONG s)
      else
        (case sys_open K ''/dev/net/tun'' s of (fd, s) \<Rightarrow>
           if fd = -1 then ((-1, name), s)
           else
             (case sys_tunsetiff K fd (strncpy name (IFNAMSIZ - 1) @ [stk]) (IFF_TAP OR flags) s of (nm, s) \<Rightarrow>
                (case nm of
                   None \<Rightarrow> (case sys_close K fd s of (_, s) \<Rightarrow> ((-1, name), s))
                 | Some ifr_name \<Rightarrow> ((fd, strncpy ifr_name IFNAMSIZ), s)))))"

section \<open>Descriptors\<close>

lemmas net_util_rules = fd_op_acquire1 [OF sys_socket.fd_op_axioms] fd_op_acquire1 [OF sys_open.fd_op_axioms]
  fd_op_then [OF sys_getifflags.fd_op_axioms] fd_op_then [OF sys_ioctl.fd_op_axioms]
  fd_op_then [OF sys_tunsetiff.fd_op_axioms] fd_op_then [OF sys_if_nametoindex.fd_op_axioms]
  fd_op_release [OF sys_close.fd_op_axioms, where F = "{#}"] fd_op_if fd_op_option

interpretation if_up: fd_op "if_up K name" "{#}" "\<lambda>_. {{#}}" for K name
  unfolding if_up_def by (intro net_util_rules fd_op_return) auto

interpretation if_down: fd_op "if_down K name" "{#}" "\<lambda>_. {{#}}" for K name
  unfolding if_down_def by (intro net_util_rules fd_op_return) auto

interpretation if_rename: fd_op "if_rename K name newname" "{#}" "\<lambda>_. {{#}}" for K name newname
  unfolding if_rename_def Let_def
  by (intro net_util_rules fd_op_return fd_op_set_errno [OF fd_op_return]) auto

interpretation bridge_add: fd_op "bridge_add K name" "{#}" "\<lambda>_. {{#}}" for K name
  unfolding bridge_add_def
  by (intro net_util_rules fd_op_return fd_op_set_errno [OF fd_op_return]) auto

interpretation bridge_add_if: fd_op "bridge_add_if K b n" "{#}" "\<lambda>_. {{#}}" for K b n
  unfolding bridge_add_if_def by (intro net_util_rules fd_op_return) auto

interpretation bridge_remove_if: fd_op "bridge_remove_if K b n" "{#}" "\<lambda>_. {{#}}" for K b n
  unfolding bridge_remove_if_def by (intro net_util_rules fd_op_return) auto

interpretation tap_open: fd_op "tap_open K stk name flags" "{#}" "\<lambda>r. {fdm (fst r)}" for K stk name flags
  unfolding tap_open_def
  by (intro net_util_rules fd_op_return fd_op_set_errno [OF fd_op_return]) auto

lemma bridge_delete_fd_op: "fd_op (bridge_delete K name) {#} (\<lambda>_. {{#}})"
proof -
  let ?del = "\<lambda>s. case sys_socket K s of (fd, s) \<Rightarrow>
     if fd = -1 then (-1, s)
     else (case sys_ioctl K fd (SIOCBRDELBR (cstr name)) s of (r, s) \<Rightarrow>
        (case sys_close K fd s of (_, s) \<Rightarrow> (r, s)))"
  have "fd_op ?del {#} (\<lambda>_. {{#}})"
    by (intro net_util_rules fd_op_return) auto
  from fd_op_warn_if [OF this] show ?thesis
    unfolding bridge_delete_def by (rule fd_op_then [OF if_down.fd_op_axioms])
qed

interpretation bridge_delete: fd_op "bridge_delete K name" "{#}" "\<lambda>_. {{#}}" for K name
  by (rule bridge_delete_fd_op)

section \<open>One request or none\<close>

text \<open>
  The contract the functions that change one thing share: they return 0 after the kernel has
  carried out exactly one request, of the kind \<open>P\<close>, and -1 when it has carried out none.
\<close>

locale atomic_op =
  fixes op :: "'w ps \<Rightarrow> int \<times> 'w ps"
    and P :: "ioctl \<Rightarrow> bool"
  assumes atomic: "\<exists>evs. events (snd (op s)) = events s @ evs \<and> spawns evs = [] \<and>
    (fst (op s) = 0 \<and> (\<exists>q. P q \<and> done_ioctls evs = [q]) \<or> fst (op s) = -1 \<and> done_ioctls evs = [])"
begin

lemma result: "fst (op s) = 0 \<or> fst (op s) = -1"
  using atomic [of s] by blast

lemma ok: "op s = (r, t) \<Longrightarrow> r \<noteq> -1 \<Longrightarrow>
    \<exists>evs q. events t = events s @ evs \<and> P q \<and> done_ioctls evs = [q] \<and> spawns evs = []"
  using atomic [of s] by auto

lemma failed: "op s = (-1, t) \<Longrightarrow> \<exists>evs. events t = events s @ evs \<and> done_ioctls evs = [] \<and> spawns evs = []"
  using atomic [of s] by auto

end

lemmas atomic_simps = sys_eval

interpretation if_up_a: atomic_op "if_up K name"
    "\<lambda>q. \<exists>f. q = SIOCSIFFLAGS (strncpy name IFNAMSIZ) (f OR IFF_UP)" for K name
  by unfold_locales (auto simp: if_up_def atomic_simps split: prod.splits result.splits if_splits option.splits)

interpretation if_down_a: atomic_op "if_down K name"
    "\<lambda>q. \<exists>f. q = SIOCSIFFLAGS (strncpy name IFNAMSIZ) (f AND NOT IFF_UP)" for K name
  by unfold_locales (auto simp: if_down_def atomic_simps split: prod.splits result.splits if_splits option.splits)

interpretation if_rename_a: atomic_op "if_rename K name newname"
    "\<lambda>q. q = SIOCSIFNAME (strncpy name IFNAMSIZ) (strncpy newname IFNAMSIZ)" for K name newname
  by unfold_locales (auto simp: if_rename_def Let_def atomic_simps split: prod.splits result.splits if_splits)

interpretation bridge_add_a: atomic_op "bridge_add K name" "\<lambda>q. q = SIOCBRADDBR (cstr name)" for K name
  by unfold_locales (auto simp: bridge_add_def atomic_simps split: prod.splits result.splits if_splits)

interpretation bridge_add_if_a: atomic_op "bridge_add_if K b n"
    "\<lambda>q. \<exists>i > 0. q = SIOCBRADDIF (strncpy b IFNAMSIZ) i" for K b n
  by unfold_locales (auto simp: bridge_add_if_def atomic_simps split: prod.splits result.splits if_splits)

interpretation bridge_remove_if_a: atomic_op "bridge_remove_if K b n"
    "\<lambda>q. \<exists>i > 0. q = SIOCBRDELIF (strncpy b IFNAMSIZ) i" for K b n
  by unfold_locales (auto simp: bridge_remove_if_def atomic_simps split: prod.splits result.splits if_splits)

section \<open>Properties\<close>

definition keeps_fds :: "('w ps \<Rightarrow> 'a \<times> 'w ps) \<Rightarrow> bool" where
  "keeps_fds op \<longleftrightarrow> (\<forall>s. \<exists>evs. events (snd (op s)) = events s @ evs \<and> (\<forall>M. held M evs = M))"

lemma keeps_fdsI: "fd_op op {#} (\<lambda>_. {{#}}) \<Longrightarrow> keeps_fds op"
  using fd_op.contract [of op "{#}" "\<lambda>_. {{#}}"] by (auto simp: keeps_fds_def)

text \<open>
  No function of net-util.c leaks a descriptor or closes one it does not own, on any path
  and for any behaviour of the kernel: after each of them the process holds exactly the
  descriptors it held before, and after \<open>tap_open\<close> those and the one it returns, if it returns one.
\<close>

lemma net_util_descriptors:
  "keeps_fds (if_up K n) \<and> keeps_fds (if_down K n) \<and> keeps_fds (if_rename K n m) \<and>
   keeps_fds (bridge_add K n) \<and> keeps_fds (bridge_add_if K n m) \<and>
   keeps_fds (bridge_remove_if K n m) \<and> keeps_fds (bridge_delete K n) \<and>
   (\<exists>evs. events (snd (tap_open K stk n f s)) = events s @ evs \<and>
      (\<forall>M. held M evs = M + fdm (fst (fst (tap_open K stk n f s)))))"
  using tap_open.contract [of K stk n f s]
  by (simp add: keeps_fdsI if_up.fd_op_axioms if_down.fd_op_axioms if_rename.fd_op_axioms
      bridge_add.fd_op_axioms bridge_add_if.fd_op_axioms bridge_remove_if.fd_op_axioms
      bridge_delete.fd_op_axioms)

lemma strncpy_last: "strncpy n IFNAMSIZ ! (IFNAMSIZ - 1) \<noteq> NUL \<longleftrightarrow> IFNAMSIZ \<le> length (cstr n)"
proof (cases "IFNAMSIZ \<le> length (cstr n)")
  case True
  then have "strncpy n IFNAMSIZ ! (IFNAMSIZ - 1) = cstr n ! (IFNAMSIZ - 1)"
    by (simp add: strncpy_def IFNAMSIZ_def)
  moreover have "cstr n ! (IFNAMSIZ - 1) \<in> set (cstr n)" using True by (simp add: IFNAMSIZ_def)
  ultimately show ?thesis using True cstr_no_NUL [of n] by metis
next
  case False
  then have "strncpy n IFNAMSIZ = cstr n @ replicate (IFNAMSIZ - length (cstr n)) NUL"
    by (simp add: strncpy_def)
  with False show ?thesis by (simp add: nth_append IFNAMSIZ_def)
qed

text \<open>
  Interface names are checked before any request is made. A name of 16 bytes or more is
  refused with ENAMETOOLONG by \<open>bridge_add\<close>, by \<open>if_rename\<close> (as the new name) and by
  \<open>tap_open\<close>; a shorter name with a percent sign, which the kernel would expand, is refused
  with EINVAL by the first two. No request is logged and nothing else of the state changes.
\<close>

lemma ifname_validation:
  "(IFNAMSIZ \<le> length (cstr n) \<longrightarrow>
      bridge_add K n s = (-1, s\<lparr>cerrno := ENAMETOOLONG\<rparr>) \<and>
      if_rename K m n s = (-1, s\<lparr>cerrno := ENAMETOOLONG\<rparr>) \<and>
      tap_open K stk n f s = ((-1, n), s\<lparr>cerrno := ENAMETOOLONG\<rparr>)) \<and>
   (length (cstr n) < IFNAMSIZ \<and> CHR ''%'' \<in> set (cstr n) \<longrightarrow>
      bridge_add K n s = (-1, s\<lparr>cerrno := EINVAL\<rparr>) \<and>
      if_rename K m n s = (-1, s\<lparr>cerrno := EINVAL\<rparr>))"
  using strncpy_last [of n]
  by (auto simp: bridge_add_def if_rename_def tap_open_def Let_def strnlen_def strchr_def
      set_errno_def cstr_strncpy min_def)

lemma ifname_validation_example:
  "bridge_add refusing_os (replicate 16 (CHR ''a'')) \<lparr>world = (), cerrno = 0, events = []\<rparr> =
     (-1, \<lparr>world = (), cerrno = ENAMETOOLONG, events = []\<rparr>) \<and>
   bridge_add refusing_os ''br%d'' \<lparr>world = (), cerrno = 0, events = []\<rparr> =
     (-1, \<lparr>world = (), cerrno = EINVAL, events = []\<rparr>)"
proof -
  have "cstr (replicate 16 (CHR ''a'')) = replicate 16 (CHR ''a'')" "cstr ''br%d'' = ''br%d''" by simp_all
  then show ?thesis
    using ifname_validation [of "replicate 16 (CHR ''a'')" refusing_os "\<lparr>world = (), cerrno = 0, events = []\<rparr>"]
      ifname_validation [of "''br%d''" refusing_os "\<lparr>world = (), cerrno = 0, events = []\<rparr>"]
    by (simp add: IFNAMSIZ_def)
qed

text \<open>
  What netdevice(7) documents of the flags of an interface: \<open>view\<close> reads the flags of every
  interface off the state of the kernel; SIOCGIFFLAGS reports them and SIOCSIFFLAGS, when it
  succeeds, replaces those of the named interface and no other.
\<close>

definition netdev :: "'w os \<Rightarrow> ('w \<Rightarrow> bytes \<rightharpoonup> 16 word) \<Rightarrow> bool" where
  "netdev K view \<longleftrightarrow>
     (\<forall>w. view (snd (os_socket K w)) = view w) \<and>
     (\<forall>fd w. view (snd (os_close K fd w)) = view w) \<and>
     (\<forall>fd n w. view (snd (os_getifflags K fd n w)) = view w \<and>
        (\<forall>f. fst (os_getifflags K fd n w) = Ok f \<longrightarrow> view w n = Some f)) \<and>
     (\<forall>fd n f w. view (snd (os_ioctl K fd (SIOCSIFFLAGS n f) w)) =
        (if is_err (fst (os_ioctl K fd (SIOCSIFFLAGS n f) w)) then view w else (view w)(n \<mapsto> f)))"

text \<open>The flags of an interface, changed by \<open>g\<close>, everything else as it was.\<close>

definition flags_updated :: "(bytes \<rightharpoonup> 16 word) \<Rightarrow> bytes \<Rightarrow> (16 word \<Rightarrow> 16 word) \<Rightarrow> (bytes \<rightharpoonup> 16 word) \<Rightarrow> bool" where
  "flags_updated v n g v' \<longleftrightarrow> (\<exists>f. v n = Some f \<and> v' = v(n \<mapsto> g f))"

lemma netdev_sys:
  assumes "netdev K view"
  shows "view (world (snd (sys_socket K s))) = view (world s)"
    and "view (world (snd (sys_close K fd s))) = view (world s)"
    and "view (world (snd (sys_getifflags K fd n s))) = view (world s)"
    and "fst (sys_getifflags K fd n s) = Some f \<Longrightarrow> view (world s) n = Some f"
    and "view (world (snd (sys_ioctl K fd (SIOCSIFFLAGS n g) s))) =
      (if fst (sys_ioctl K fd (SIOCSIFFLAGS n g) s) = -1 then view (world s) else (view (world s))(n \<mapsto> g))"
  using assms unfolding netdev_def sys_eval
  by (auto split: prod.splits result.splits if_splits) (metis fst_conv snd_conv is_err.simps)+

lemma set_flags_effect:
  assumes nd: "netdev K view"
    and eq: "(case sys_socket K s of (fd, s) \<Rightarrow>
        if fd = -1 then (-1, s)
        else
          (case sys_getifflags K fd n s of (fl, s) \<Rightarrow>
            (case fl of
               None \<Rightarrow> (case sys_close K fd s of (_, s) \<Rightarrow> (-1, s))
             | Some flags \<Rightarrow>
                (case sys_ioctl K fd (SIOCSIFFLAGS n (g flags)) s of (r, s) \<Rightarrow>
                   (case sys_close K fd s of (_, s) \<Rightarrow> (r, s)))))) = (r, t)"
  shows "if r = -1 then view (world t) = view (world s)
         else flags_updated (view (world s)) n g (view (world t))"
proof -
  obtain fd s1 where 1: "sys_socket K s = (fd, s1)" by force
  obtain fl s2 where 2: "sys_getifflags K fd n s1 = (fl, s2)" by force
  note v = netdev_sys [OF nd]
  have v1: "view (world s1) = view (world s)" using v(1) [of s] 1 by simp
  have v2: "view (world s2) = view (world s1)" using v(3) [of fd n s1] 2 by simp
  show ?thesis
  proof (cases "fd = -1")
    case True
    with eq 1 v1 show ?thesis by simp
  next
    case fd: False
    show ?thesis
    proof (cases fl)
      case None
      obtain c s3 where 3: "sys_close K fd s2 = (c, s3)" by force
      have "view (world s3) = view (world s2)" using v(2) [of fd s2] 3 by simp
      with eq 1 2 3 None fd v1 v2 show ?thesis by simp
    next
      case (Some f)
      obtain q s3 where 3: "sys_ioctl K fd (SIOCSIFFLAGS n (g f)) s2 = (q, s3)" by force
      obtain c s4 where 4: "sys_close K fd s3 = (c, s4)" by force
      have v3: "view (world s3) = (if q = -1 then view (world s2) else (view (world s2))(n \<mapsto> g f))"
        using v(5) [of fd n "g f" s2] 3 by simp
      have v4: "view (world s4) = view (world s3)" using v(2) [of fd s3] 4 by simp
      have "view (world s1) n = Some f" using v(4) [of fd n s1 f] 2 Some by simp
      with eq 1 2 3 4 Some fd v1 v2 v3 v4 show ?thesis by (auto simp: flags_updated_def)
    qed
  qed
qed

text \<open>
  On a kernel that behaves as netdevice(7) documents, \<open>if_up\<close> and \<open>if_down\<close> change the
  flag IFF_UP of the named interface, keep its other flags and every other interface, and change
  nothing when they return -1.
\<close>

lemma if_up_down_flags:
  assumes "netdev K view"
  shows "(case if_up K name s of (r, t) \<Rightarrow>
      if r = -1 then view (world t) = view (world s)
      else flags_updated (view (world s)) (strncpy name IFNAMSIZ) (\<lambda>f. f OR IFF_UP) (view (world t))) \<and>
    (case if_down K name s of (r, t) \<Rightarrow>
      if r = -1 then view (world t) = view (world s)
      else flags_updated (view (world s)) (strncpy name IFNAMSIZ) (\<lambda>f. f AND NOT IFF_UP) (view (world t)))"
proof -
  obtain r t r' t' where "if_up K name s = (r, t)" "if_down K name s = (r', t')" by (meson surj_pair)
  with set_flags_effect [OF assms, where s = s and n = "strncpy name IFNAMSIZ" and g = "\<lambda>f. f OR IFF_UP" and r = r and t = t]
    set_flags_effect [OF assms, where s = s and n = "strncpy name IFNAMSIZ" and g = "\<lambda>f. f AND NOT IFF_UP" and r = r' and t = t']
  show ?thesis by (simp add: if_up_def if_down_def)
qed

definition flags_os :: "(bytes \<rightharpoonup> 16 word) os" where
  "flags_os = refusing_os\<lparr>os_socket := \<lambda>w. (Ok 3, w), os_close := \<lambda>_ w. (Ok (), w),
     os_getifflags := \<lambda>_ n w. (case w n of None \<Rightarrow> Err EINVAL | Some f \<Rightarrow> Ok f, w),
     os_ioctl := \<lambda>_ q w. (case q of SIOCSIFFLAGS n f \<Rightarrow> (Ok (), w(n \<mapsto> f)) | _ \<Rightarrow> (Err EINVAL, w))\<rparr>"

lemma netdev_flags_os: "netdev flags_os (\<lambda>w. w)"
  by (auto simp: netdev_def flags_os_def split: option.splits)

lemma if_up_down_flags_example:
  "netdev flags_os (\<lambda>w. w) \<and>
   fst (if_up flags_os ''tap0'' \<lparr>world = [strncpy ''tap0'' IFNAMSIZ \<mapsto> 0x1002], cerrno = 0, events = []\<rparr>) = 0 \<and>
   flags_updated [strncpy ''tap0'' IFNAMSIZ \<mapsto> 0x1002] (strncpy ''tap0'' IFNAMSIZ) (\<lambda>f. f OR IFF_UP)
     (world (snd (if_up flags_os ''tap0''
        \<lparr>world = [strncpy ''tap0'' IFNAMSIZ \<mapsto> 0x1002], cerrno = 0, events = []\<rparr>)))"
proof -
  let ?s = "\<lparr>world = [strncpy ''tap0'' IFNAMSIZ \<mapsto> 0x1002 :: 16 word], cerrno = 0, events = []\<rparr>"
  have "fst (if_up flags_os ''tap0'' ?s) = 0"
    by (simp add: if_up_def flags_os_def sys_eval)
  with if_up_down_flags [OF netdev_flags_os, where name = "''tap0''" and s = ?s] netdev_flags_os show ?thesis
    by (auto split: prod.splits)
qed

section \<open>Logs of the other functions\<close>

lemma tap_open_log: "\<exists>evs. events (snd (tap_open K stk n f s)) = events s @ evs \<and>
    done_ioctls evs = [] \<and> spawns evs = []"
  by (auto simp: tap_open_def atomic_simps split: prod.splits result.splits if_splits option.splits)

text \<open>When a socket can be had, \<open>bridge_delete\<close> asks the kernel to delete the bridge, last of all.\<close>

definition grants_sockets :: "'w os \<Rightarrow> bool" where
  "grants_sockets K \<longleftrightarrow> (\<forall>w. \<not> is_err (fst (os_socket K w)))"

lemma sys_socket_granted: "grants_sockets K \<Longrightarrow> sys_socket K s = (fd, t) \<Longrightarrow> fd \<noteq> -1"
  by (auto simp: grants_sockets_def sys_eval split: prod.splits result.splits)
     (metis fst_conv is_err.simps(2))

lemma bridge_delete_log:
  assumes "grants_sockets K"
  shows "\<exists>pre fd r post. events (snd (bridge_delete K n s)) =
      events s @ pre @ EvIoctl fd (SIOCBRDELBR (cstr n)) r # post \<and>
    done_ioctls post = [] \<and> spawns pre = [] \<and> spawns post = []"
proof -
  obtain d s1 where 1: "if_down K n s = (d, s1)" by force
  from if_down_a.atomic [of K n s] 1 obtain e1 where e1: "events s1 = events s @ e1" "spawns e1 = []" by auto
  let ?s1 = "if d = -1 then c_warn (''setting '' @ cstr n @ '' down'') s1 else s1"
  obtain e1' where e1': "events ?s1 = events s1 @ e1'" "spawns e1' = []"
    by (cases "d = -1") (auto simp: c_warn_def emit_def)
  obtain fd s2 where 2: "sys_socket K ?s1 = (fd, s2)" by force
  have "fd \<noteq> -1" using sys_socket_granted [OF assms 2] .
  moreover obtain r2 where e2: "events s2 = events ?s1 @ [EvSocket r2]"
    using 2 by (auto simp: sys_eval split: prod.splits result.splits)
  obtain r s3 where 3: "sys_ioctl K fd (SIOCBRDELBR (cstr n)) s2 = (r, s3)" by force
  moreover obtain r3 where e3: "events s3 = events s2 @ [EvIoctl (nat fd) (SIOCBRDELBR (cstr n)) r3]"
    using 3 by (auto simp: sys_eval split: prod.splits result.splits)
  obtain c s4 where 4: "sys_close K fd s3 = (c, s4)" by force
  moreover obtain r4 where e4: "events s4 = events s3 @ [EvClose fd r4]"
    using 4 by (auto simp: sys_eval split: prod.splits result.splits)
  ultimately have "snd (bridge_delete K n s) = s4"
    using 1 2 by (simp add: bridge_delete_def)
  with e1 e1' e2 e3 e4 show ?thesis
    by (intro exI [of _ "e1 @ e1' @ [EvSocket r2]"] exI [of _ "nat fd"] exI [of _ r3]
        exI [of _ "[EvClose fd r4]"]) simp
qed

end
