(* ===== verification/Mac.thy ===== *)
theory Mac
  imports Format
begin

text \<open>
  \<open>host/start-vmm/net.rs\<close>: MAC addresses and how they are written. The text is the one
  \<open>ch-remote add-net\<close> receives and the one serialised into the VM configuration.
\<close>

datatype mac_address = MacAddress u8 u8 u8 u8 u8 u8

fun octets :: "mac_address \<Rightarrow> u8 list" where
  "octets (MacAddress a b c d e f) = [a, b, c, d, e, f]"

definition mac_new :: "u8 \<Rightarrow> u8 \<Rightarrow> u8 \<Rightarrow> u8 \<Rightarrow> u8 \<Rightarrow> u8 \<Rightarrow> mac_address" where
  "mac_new a b c d e f = MacAddress a b c d e f"

text \<open>\<open>impl Display for MacAddress\<close>: \<open>{:02X}:{:02X}:{:02X}:{:02X}:{:02X}:{:02X}\<close>.\<close>

fun mac_to_string :: "mac_address \<Rightarrow> string" where
  "mac_to_string (MacAddress a b c d e f) =
     hex02 a @ '':'' @ hex02 b @ '':'' @ hex02 c @ '':'' @ hex02 d @ '':'' @ hex02 e @ '':'' @ hex02 f"

text \<open>\<open>impl Serialize for MacAddress\<close>: a string fragment.\<close>

datatype fragment = FragmentStr string

definition mac_begin :: "mac_address \<Rightarrow> fragment" where
  "mac_begin m = FragmentStr (mac_to_string m)"

section \<open>Reading an address back\<close>

definition hex_char :: "char \<Rightarrow> bool" where
  "hex_char c \<longleftrightarrow> is_digit c \<or> 65 \<le> (of_char c :: nat) \<and> (of_char c :: nat) \<le> 70"

lemma hex_char_hex02: "c \<in> set (hex02 b) \<Longrightarrow> hex_char c"
proof -
  have "hex_char (hex_digit d)" if "d < 16" for d
    using that by (auto simp: hex_char_def hex_digit_def is_digit_def)
  moreover have "unat b div 16 < 16" using unat_u8_bound [of b] by (simp add: less_mult_imp_div_less)
  ultimately show "c \<in> set (hex02 b) \<Longrightarrow> hex_char c" by (auto simp: hex02_def)
qed

lemma hex_char_literals [simp]:
  "\<not> hex_char (CHR '':'')" "\<not> hex_char (CHR '','')" "\<not> hex_char (CHR ''='')"
  by (simp_all add: hex_char_def is_digit_def)

lemma notin_hex02 [simp]: "\<not> hex_char c \<Longrightarrow> c \<notin> set (hex02 b)"
  using hex_char_hex02 by blast

lemma mac_fields: "split_on (CHR '':'') (mac_to_string m) = map hex02 (octets m)"
  by (cases m) simp

lemma mac_no_comma [simp]: "CHR '','' \<notin> set (mac_to_string m)"
  by (cases m) simp

text \<open>
  The text of a MAC address has 17 characters, and splitting it at the colons and reading
  each field as two hexadecimal digits gives back the six octets, so the text determines the
  address.
\<close>

lemma mac_roundtrip:
  "length (mac_to_string m) = 17 \<and>
   map unhex02 (split_on (CHR '':'') (mac_to_string m)) = octets m"
proof -
  have "map unhex02 (map hex02 (octets m)) = octets m"
    by (simp add: comp_def)
  moreover have "length (mac_to_string m) = 17" by (cases m) simp
  ultimately show ?thesis by (simp only: mac_fields)
qed

lemma octets_inject: "octets a = octets b \<longleftrightarrow> a = b"
  by (cases a; cases b) simp

lemma mac_to_string_inject [simp]: "mac_to_string a = mac_to_string b \<longleftrightarrow> a = b"
proof
  assume "mac_to_string a = mac_to_string b"
  then have "map hex02 (octets a) = map hex02 (octets b)" by (metis mac_fields)
  then have "octets a = octets b" by (rule map_injective) (auto intro: injI)
  then show "a = b" by (simp add: octets_inject)
qed simp

text \<open>The unit tests of the source.\<close>

lemma mac_to_string_all_zero: "mac_to_string (MacAddress 0 0 0 0 0 0) = ''00:00:00:00:00:00''"
  by (simp add: fmt_eval)

lemma mac_to_string_hex:
  "mac_to_string (MacAddress 0xFE 0xDC 0xBA 0x98 0x76 0x54) = ''FE:DC:BA:98:76:54''"
  by (simp add: fmt_eval)

end
