(* ===== verification/Ch.thy ===== *)
theory Ch
  imports Fds Mac
begin

text \<open>
  \<open>host/start-vmm/ch.rs\<close>: the configuration of a Cloud Hypervisor VM and the \<open>ch-remote\<close>
  commands that create the VM and add and remove its devices. The serialiser (miniserde) is the
  parameter \<open>to_json\<close>; \<open>ch-remote\<close> itself is behind the requests of \<open>os\<close>.
\<close>

section \<open>Configuration\<close>

record console_config =
  console_mode :: bytes
  console_file :: "bytes option"

record disk_config =
  disk_path :: bytes
  disk_readonly :: bool

record fs_config =
  fs_socket :: bytes
  fs_tag :: bytes

record gpu_config =
  gpu_socket :: bytes

record net_config =
  net_fd :: int
  net_id :: bytes
  net_mac :: mac_address

record memory_config =
  mem_size :: "64 word"
  mem_shared :: bool

record payload_config =
  payload_kernel :: bytes
  payload_cmdline :: bytes

record vsock_config =
  vsock_cid :: u32
  vsock_socket :: bytes

record vm_config =
  cfg_console :: console_config
  cfg_disks :: "disk_config list"
  cfg_fs :: fs_config
  cfg_gpu :: "gpu_config list"
  cfg_memory :: memory_config
  cfg_net :: "net_config list"
  cfg_payload :: payload_config
  cfg_serial :: console_config
  cfg_vsock :: vsock_config

text \<open>\<open>NetConfigC\<close>, the form shared with \<open>net.c\<close>: the id is a NUL-padded array of 16 bytes.\<close>

record net_config_c =
  netc_fd :: int
  netc_id :: bytes
  netc_mac :: mac_address

section \<open>Commands\<close>

definition ch_command :: "path \<Rightarrow> bytes \<Rightarrow> command" where
  "ch_command vm_dir s =
     arg s (arg (join vm_dir ''vmm'') (arg ''--api-socket''
       ((command_new ''ch-remote'')\<lparr>cmd_stdin := NullIO\<rparr>)))"

definition create_command :: "path \<Rightarrow> command" where
  "create_command vm_dir = (arg ''-'' (arg ''--'' (ch_command vm_dir ''create'')))\<lparr>cmd_stdin := Piped\<rparr>"

definition add_net_arg :: "net_config \<Rightarrow> bytes" where
  "add_net_arg net = ''fd='' @ dec_int (net_fd net) @ '',id='' @ net_id net @
     '',mac='' @ mac_to_string (net_mac net)"

definition add_net_command :: "path \<Rightarrow> net_config \<Rightarrow> command" where
  "add_net_command vm_dir net = (arg (add_net_arg net) (ch_command vm_dir ''add-net''))\<lparr>cmd_stdout := Piped\<rparr>"

definition remove_device_command :: "path \<Rightarrow> bytes \<Rightarrow> command" where
  "remove_device_command vm_dir device_id = arg device_id (ch_command vm_dir ''remove-device'')"

definition spawn :: "'w os \<Rightarrow> command \<Rightarrow> 'w ps \<Rightarrow> (nat, io_error) result \<times> 'w ps" where
  "spawn K c s = ask (os_spawn K c) (EvSpawn c) s"

definition wait :: "'w os \<Rightarrow> nat \<Rightarrow> 'w ps \<Rightarrow> (exit_status, io_error) result \<times> 'w ps" where
  "wait K child s = ask (os_wait K child) (EvWait child) s"

definition write_stdin :: "'w os \<Rightarrow> nat \<Rightarrow> bytes \<Rightarrow> 'w ps \<Rightarrow> (unit, io_error) result \<times> 'w ps" where
  "write_stdin K child b s = ask (os_write_stdin K child b) (EvWriteStdin child b) s"

definition add_net :: "'w os \<Rightarrow> path \<Rightarrow> net_config \<Rightarrow> 'w ps \<Rightarrow> (unit, errno) result \<times> 'w ps" where
  "add_net K vm_dir net s =
     (case spawn K (add_net_command vm_dir net) s of
        (Err _, s) \<Rightarrow> (Err EPERM, s)
      | (Ok ch_remote, s) \<Rightarrow>
         (case wait K ch_remote s of
            (Ok status, s) \<Rightarrow> if success status then (Ok (), s) else (Err EPROTO, s)
          | (Err _, s) \<Rightarrow> (Err EPROTO, s)))"

text \<open>\<open>Command::status\<close> spawns the child and waits for it.\<close>

definition remove_device :: "'w os \<Rightarrow> path \<Rightarrow> bytes \<Rightarrow> 'w ps \<Rightarrow> (unit, errno) result \<times> 'w ps" where
  "remove_device K vm_dir device_id s =
     (case spawn K (remove_device_command vm_dir device_id) s of
        (Err _, s) \<Rightarrow> (Err EPERM, s)
      | (Ok ch_remote, s) \<Rightarrow>
         (case wait K ch_remote s of
            (Ok status, s) \<Rightarrow> if success status then (Ok (), s) else (Err EPROTO, s)
          | (Err _, s) \<Rightarrow> (Err EPERM, s)))"

text \<open>The loop over the network devices at the end of \<open>create_vm\<close>.\<close>

fun add_nets :: "'w os \<Rightarrow> path \<Rightarrow> net_config list \<Rightarrow> 'w ps \<Rightarrow> (unit, vmm_error) result \<times> 'w ps" where
  "add_nets K vm_dir [] s = (Ok (), s)"
| "add_nets K vm_dir (net # nets) s =
     (case add_net K vm_dir net s of
        (Err e, s) \<Rightarrow> (Err (FailedAddNet e), s)
      | (Ok _, s) \<Rightarrow> add_nets K vm_dir nets s)"

definition status_error :: "exit_status \<Rightarrow> vmm_error" where
  "status_error st = (case st of Exited code \<Rightarrow> ChRemoteExited code | Signaled sig \<Rightarrow> ChRemoteKilled sig)"

definition ch_create_vm ::
    "'w os \<Rightarrow> (vm_config \<Rightarrow> bytes) \<Rightarrow> path \<Rightarrow> vm_config \<Rightarrow> 'w ps \<Rightarrow> (unit, vmm_error) result \<times> 'w ps" where
  "ch_create_vm K to_json vm_dir config s =
     (let nets = cfg_net config; config = config\<lparr>cfg_net := []\<rparr> in
      case spawn K (create_command vm_dir) s of
        (Err e, s) \<Rightarrow> (Err (StartingChRemote e), s)
      | (Ok ch_remote, s) \<Rightarrow>
         (case write_stdin K ch_remote (to_json config) s of
            (Err e, s) \<Rightarrow> (Err (WritingStdin e), s)
          | (Ok _, s) \<Rightarrow>
             (case wait K ch_remote s of
                (Err e, s) \<Rightarrow> (Err (WaitingChRemote e), s)
              | (Ok status, s) \<Rightarrow>
                  if \<not> success status then (Err (status_error status), s)
                  else add_nets K vm_dir nets s)))"

section \<open>The C interface\<close>

definition try_from :: "net_config_c \<Rightarrow> (net_config, bytes) result" where
  "try_from c =
     (let id = takeWhile (\<lambda>x. x \<noteq> NUL) (netc_id c) in
      if utf8_valid id then Ok \<lparr>net_fd = netc_fd c, net_id = id, net_mac = netc_mac c\<rparr> else Err id)"

definition add_net_c :: "'w os \<Rightarrow> path \<Rightarrow> net_config_c \<Rightarrow> 'w ps \<Rightarrow> nat outcome \<times> 'w ps" where
  "add_net_c K vm_dir net s =
     (case try_from net of
        Err _ \<Rightarrow> (Panic, s)
      | Ok net \<Rightarrow>
         (case add_net K vm_dir net s of (Err e, s) \<Rightarrow> (Ret e, s) | (Ok _, s) \<Rightarrow> (Ret 0, s)))"

definition remove_device_c :: "'w os \<Rightarrow> path \<Rightarrow> bytes \<Rightarrow> 'w ps \<Rightarrow> nat \<times> 'w ps" where
  "remove_device_c K vm_dir device_id s =
     (case remove_device K vm_dir (cstr device_id) s of (Err e, s) \<Rightarrow> (e, s) | (Ok _, s) \<Rightarrow> (0, s))"

text \<open>\<open>device_free\<close>: the boxed string at the address is freed; NULL frees nothing.\<close>

definition device_free :: "'addr option \<Rightarrow> ('addr \<rightharpoonup> bytes) \<Rightarrow> ('addr \<rightharpoonup> bytes)" where
  "device_free p heap = (case p of None \<Rightarrow> heap | Some a \<Rightarrow> heap(a := None))"

section \<open>Descriptors\<close>

interpretation spawn: fd_op "spawn K c" "{#}" "\<lambda>_. {{#}}" for K c
  unfolding spawn_def by (rule fd_op_ask_none) (simp_all add: fd_opened_def fd_closed_def)

interpretation wait: fd_op "wait K c" "{#}" "\<lambda>_. {{#}}" for K c
  unfolding wait_def by (rule fd_op_ask_none) (simp_all add: fd_opened_def fd_closed_def)

interpretation write_stdin: fd_op "write_stdin K c b" "{#}" "\<lambda>_. {{#}}" for K c b
  unfolding write_stdin_def by (rule fd_op_ask_none) (simp_all add: fd_opened_def fd_closed_def)

interpretation add_net: fd_op "add_net K vm_dir net" "{#}" "\<lambda>_. {{#}}" for K vm_dir net
  unfolding add_net_def
  by (intro fd_op_bind_res [OF spawn.fd_op_axioms] fd_op_bind_res [OF wait.fd_op_axioms]
      fd_op_if fd_op_return insertI1)

interpretation remove_device: fd_op "remove_device K vm_dir d" "{#}" "\<lambda>_. {{#}}" for K vm_dir d
  unfolding remove_device_def
  by (intro fd_op_bind_res [OF spawn.fd_op_axioms] fd_op_bind_res [OF wait.fd_op_axioms]
      fd_op_if fd_op_return insertI1)

interpretation remove_device_c: fd_op "remove_device_c K vm_dir d" "{#}" "\<lambda>_. {{#}}" for K vm_dir d
  unfolding remove_device_c_def
  by (intro fd_op_bind_res [OF remove_device.fd_op_axioms] fd_op_return insertI1)

lemma add_net_c_fd_op: "fd_op (add_net_c K vm_dir net) {#} (\<lambda>_. {{#}})"
proof (cases "try_from net")
  case (Ok n)
  then show ?thesis
    unfolding add_net_c_def
    by simp (intro fd_op_bind_res [OF add_net.fd_op_axioms] fd_op_return insertI1)
next
  case (Err e)
  then show ?thesis unfolding add_net_c_def by (simp add: fd_op_return)
qed

interpretation add_net_c: fd_op "add_net_c K vm_dir net" "{#}" "\<lambda>_. {{#}}" for K vm_dir net
  by (rule add_net_c_fd_op)

section \<open>What is started, and in which order\<close>

lemmas ch_sys = spawn_def wait_def write_stdin_def ask_def

lemma add_net_log:
  "\<exists>evs. events (snd (add_net K vm_dir net s)) = events s @ evs \<and>
     spawns evs = [add_net_command vm_dir net] \<and> stdins evs = []"
  by (auto simp: add_net_def ch_sys split: prod.splits result.splits)

lemma add_net_errno: "fst (add_net K vm_dir net s) = Err e \<Longrightarrow> e = EPERM \<or> e = EPROTO"
  by (auto simp: add_net_def split: prod.splits result.splits if_splits)

lemma add_nets_log:
  "\<exists>k evs. events (snd (add_nets K vm_dir nets s)) = events s @ evs \<and>
     spawns evs = map (add_net_command vm_dir) (take k nets) \<and> stdins evs = [] \<and>
     (fst (add_nets K vm_dir nets s) = Ok () \<longrightarrow> length nets \<le> k)"
proof (induction nets arbitrary: s)
  case (Cons net nets)
  obtain r t where rt: "add_net K vm_dir net s = (r, t)" by force
  from add_net_log [of K vm_dir net s] rt obtain evs where
    evs: "events t = events s @ evs" "spawns evs = [add_net_command vm_dir net]" "stdins evs = []"
    by auto
  show ?case
  proof (cases r)
    case (Ok u)
    from Cons.IH [of t] obtain k evs' where
      "events (snd (add_nets K vm_dir nets t)) = events t @ evs'"
      "spawns evs' = map (add_net_command vm_dir) (take k nets)" "stdins evs' = []"
      "fst (add_nets K vm_dir nets t) = Ok () \<longrightarrow> length nets \<le> k" by blast
    with evs rt Ok show ?thesis
      by (intro exI [of _ "Suc k"] exI [of _ "evs @ evs'"]) simp
  next
    case (Err e)
    with evs rt show ?thesis
      by (intro exI [of _ 1] exI [of _ evs]) simp
  qed
qed simp

text \<open>
  C30. Whatever ch-remote and the kernel do, \<open>ch::create_vm\<close> starts at most the following
  commands, in this order: \<open>create\<close>, then one \<open>add-net\<close> per network device of the
  configuration, without skipping one; the configuration it writes to \<open>create\<close> has no network
  devices (they cannot be created from descriptors); and when it returns \<open>Ok\<close> the configuration
  was written and every device was added.
\<close>

theorem create_vm_commands:
  "\<exists>k evs. events (snd (ch_create_vm K to_json vm_dir config s)) = events s @ evs \<and>
     spawns evs = take k (create_command vm_dir # map (add_net_command vm_dir) (cfg_net config)) \<and>
     set (stdins evs) \<subseteq> {to_json (config\<lparr>cfg_net := []\<rparr>)} \<and>
     (fst (ch_create_vm K to_json vm_dir config s) = Ok () \<longrightarrow>
        length (cfg_net config) < k \<and> stdins evs = [to_json (config\<lparr>cfg_net := []\<rparr>)])"
proof -
  let ?c = "create_command vm_dir" and ?j = "to_json (config\<lparr>cfg_net := []\<rparr>)"
  obtain r1 s1 where 1: "spawn K ?c s = (r1, s1)" by force
  have e1: "events s1 = events s @ [EvSpawn ?c r1]" using 1 by (auto simp: ch_sys split: prod.splits)
  show ?thesis
  proof (cases r1)
    case (Err e)
    with 1 e1 show ?thesis
      by (intro exI [of _ 1] exI [of _ "[EvSpawn ?c r1]"]) (simp add: ch_create_vm_def)
  next
    case (Ok ch)
    obtain r2 s2 where 2: "write_stdin K ch ?j s1 = (r2, s2)" by force
    have e2: "events s2 = events s1 @ [EvWriteStdin ch ?j r2]"
      using 2 by (auto simp: ch_sys split: prod.splits)
    obtain r3 s3 where 3: "wait K ch s2 = (r3, s3)" by force
    have e3: "events s3 = events s2 @ [EvWait ch r3]"
      using 3 by (auto simp: ch_sys split: prod.splits)
    from add_nets_log [of K vm_dir "cfg_net config" s3] obtain k evs where
      n: "events (snd (add_nets K vm_dir (cfg_net config) s3)) = events s3 @ evs"
      "spawns evs = map (add_net_command vm_dir) (take k (cfg_net config))" "stdins evs = []"
      "fst (add_nets K vm_dir (cfg_net config) s3) = Ok () \<longrightarrow> length (cfg_net config) \<le> k" by blast
    show ?thesis
    proof (cases "\<exists>st. r2 = Ok () \<and> r3 = Ok st \<and> success st")
      case True
      with Ok 1 2 3 have "ch_create_vm K to_json vm_dir config s = add_nets K vm_dir (cfg_net config) s3"
        by (auto simp: ch_create_vm_def)
      with n e1 e2 e3 show ?thesis
        by (intro exI [of _ "Suc k"]
            exI [of _ "EvSpawn ?c r1 # EvWriteStdin ch ?j r2 # EvWait ch r3 # evs"])
           (auto simp: take_map)
    next
      case False
      with Ok 1 2 3 e1 e2 e3 show ?thesis
        by (cases r2; cases r3)
           (auto simp: ch_create_vm_def intro!: exI [of _ 1])
    qed
  qed
qed

text \<open>A \<open>ch-remote\<close> that carries out every command, and a VM with one network device.\<close>

definition remote_os :: "unit os" where
  "remote_os = refusing_os\<lparr>os_spawn := \<lambda>_ w. (Ok 1, w), os_write_stdin := \<lambda>_ _ w. (Ok (), w),
     os_wait := \<lambda>_ w. (Ok (Exited 0), w)\<rparr>"

definition net0 :: net_config where
  "net0 = \<lparr>net_fd = 7, net_id = ''client42'', net_mac = MacAddress 0x0A 0xB3 0xEC 0 0 42\<rparr>"

definition config0 :: vm_config where
  "config0 = \<lparr>cfg_console = \<lparr>console_mode = ''Pty'', console_file = None\<rparr>, cfg_disks = [],
     cfg_fs = \<lparr>fs_socket = [], fs_tag = []\<rparr>, cfg_gpu = [], cfg_memory = \<lparr>mem_size = 0, mem_shared = True\<rparr>,
     cfg_net = [net0], cfg_payload = \<lparr>payload_kernel = [], payload_cmdline = []\<rparr>,
     cfg_serial = \<lparr>console_mode = ''File'', console_file = None\<rparr>, cfg_vsock = \<lparr>vsock_cid = 3, vsock_socket = []\<rparr>\<rparr>"

theorem create_vm_commands_witness:
  "fst (ch_create_vm remote_os (\<lambda>_. ''{}'') ''/vm'' config0 \<lparr>world = (), cerrno = 0, events = []\<rparr>) = Ok () \<and>
   spawns (events (snd (ch_create_vm remote_os (\<lambda>_. ''{}'') ''/vm'' config0 \<lparr>world = (), cerrno = 0, events = []\<rparr>))) =
     [create_command ''/vm'', add_net_command ''/vm'' net0]"
proof -
  let ?s = "\<lparr>world = (), cerrno = 0, events = []\<rparr> :: unit ps"
  have ok: "fst (ch_create_vm remote_os (\<lambda>_. ''{}'') ''/vm'' config0 ?s) = Ok ()"
    by (simp add: ch_create_vm_def add_net_def ch_sys remote_os_def config0_def)
  have "cfg_net config0 = [net0]" by (simp add: config0_def)
  with create_vm_commands [of remote_os "\<lambda>_. ''{}''" "''/vm''" config0 ?s] ok show ?thesis
    by (auto simp: Suc_le_eq)
qed

text \<open>
  The argument of \<open>ch-remote add-net\<close> cannot be confused: when the device id has no comma,
  splitting the argument at the commas gives exactly the fields \<open>fd=\<close>, \<open>id=\<close> and \<open>mac=\<close>
  with the values of the device.
\<close>

lemma add_net_arg_fields:
  assumes "CHR '','' \<notin> set (net_id net)"
  shows "split_on (CHR '','') (add_net_arg net) =
    [''fd='' @ dec_int (net_fd net), ''id='' @ net_id net, ''mac='' @ mac_to_string (net_mac net)]"
proof -
  have c: "CHR '','' \<notin> set (''fd='' @ dec_int (net_fd net))"
    using dec_int_chars [of "CHR '',''" "net_fd net"] by auto
  have "split_on (CHR '','') ((''fd='' @ dec_int (net_fd net)) @ CHR '','' # (''id='' @ net_id net) @
      CHR '','' # ''mac='' @ mac_to_string (net_mac net)) =
    [''fd='' @ dec_int (net_fd net), ''id='' @ net_id net, ''mac='' @ mac_to_string (net_mac net)]"
    using assms c by (simp only: split_on_app) simp
  then show ?thesis by (simp add: add_net_arg_def)
qed

lemma add_net_arg_fields_example:
  "split_on (CHR '','') (add_net_arg \<lparr>net_fd = 7, net_id = ''router42'',
      net_mac = MacAddress 0x0A 0xB3 0xEC 0x80 0 42\<rparr>) =
   [''fd=7'', ''id=router42'', ''mac=0A:B3:EC:80:00:2A'']"
  using add_net_arg_fields [of "\<lparr>net_fd = 7, net_id = ''router42'',
      net_mac = MacAddress 0x0A 0xB3 0xEC 0x80 0 42\<rparr>"]
  by (simp add: fmt_eval)

end
