(* ===== verification/Net.thy ===== *)
theory Net
  imports NetUtil Ch
begin

text \<open>
  \<open>host/start-vmm/net.c\<close>: the network between a VM and the VM that provides its network. A
  bridge named after the process joins two taps, one for the client VM and one that is hot-plugged
  into the router VM; a forked process waits for this one to die and takes both down again.

  Arrays that C leaves uninitialised are the fields of \<open>stack\<close>. A function that forks is
  modelled from the point of view of one process: the answer of the kernel to \<open>fork\<close> says which.
\<close>

record stack =
  stk_ifr :: char
  stk_bridge :: bytes
  stk_id :: bytes
  stk_name :: bytes
  stk_newname :: bytes
  stk_brname :: bytes

definition tap_flags :: "16 word" where
  "tap_flags = IFF_NO_PI OR IFF_VNET_HDR OR IFF_TUN_EXCL"

definition setup_tap ::
    "'w os \<Rightarrow> stack \<Rightarrow> bytes \<Rightarrow> bytes \<Rightarrow> bytes \<Rightarrow> 'w ps \<Rightarrow> (int \<times> bytes) \<times> 'w ps" where
  "setup_tap K stk bridge_name tap_prefix tap_name s =
     (if fst (snprintf tap_name IFNAMSIZ (tap_prefix @ dec (sys_getpid K s))) = -1 then ((-1, tap_name), s)
      else
        (case tap_open K (stk_ifr stk)
            (snd (snprintf tap_name IFNAMSIZ (tap_prefix @ dec (sys_getpid K s)))) tap_flags s of (ft, s) \<Rightarrow>
          (case ft of (fd, tap_name) \<Rightarrow>
             if fd = -1 then ((-1, tap_name), s)
             else
               (case bridge_add_if K bridge_name tap_name s of (r, s) \<Rightarrow>
                  if r = -1 then (case sys_close K fd s of (_, s) \<Rightarrow> ((-1, tap_name), s))
                  else
                    (case if_up K tap_name s of (r, s) \<Rightarrow>
                       if r = -1 then (case sys_close K fd s of (_, s) \<Rightarrow> ((-1, tap_name), s))
                       else ((fd, tap_name), s))))))"

definition client_net_setup ::
    "'w os \<Rightarrow> stack \<Rightarrow> bytes \<Rightarrow> bytes \<Rightarrow> 'w ps \<Rightarrow> (int \<times> bytes) \<times> 'w ps" where
  "client_net_setup K stk bridge_name tap_name s = setup_tap K stk bridge_name ''client'' tap_name s"

text \<open>\<open>strcpy\<close> of a string into a buffer.\<close>

definition strcpy :: "bytes \<Rightarrow> bytes \<Rightarrow> bytes" where
  "strcpy dst src = cstr src @ NUL # drop (Suc (length (cstr src))) dst"

definition router_net_setup ::
    "'w os \<Rightarrow> stack \<Rightarrow> bytes \<Rightarrow> path \<Rightarrow> mac_address \<Rightarrow> bytes \<Rightarrow> 'w ps \<Rightarrow> (int \<times> bytes) outcome \<times> 'w ps" where
  "router_net_setup K stk bridge_name router_vm_dir mac device_id_out s =
     (case setup_tap K stk bridge_name ''router'' (stk_id stk) s of (ft, s) \<Rightarrow>
       (case ft of (fd, ident) \<Rightarrow>
          if fd = -1 then (Ret (-1, device_id_out), s)
          else
            (case add_net_c K router_vm_dir \<lparr>netc_fd = fd, netc_id = ident, netc_mac = mac\<rparr> s of (e, s) \<Rightarrow>
              (case e of
                 Ret e \<Rightarrow>
                   (case sys_close K fd s of (_, s) \<Rightarrow>
                      if e = 0 then (Ret (0, strcpy device_id_out ident), s)
                      else (Ret (-1, device_id_out), set_errno e s))
               | Panic \<Rightarrow> (Panic, s) | Exit n \<Rightarrow> (Exit n, s) | Diverge \<Rightarrow> (Diverge, s)))))"

text \<open>\<open>snprintf (buf, sizeof buf, "...%d", pid)\<close>.\<close>

definition name_pid :: "bytes \<Rightarrow> bytes \<Rightarrow> nat \<Rightarrow> bytes" where
  "name_pid buf prefix pid = snd (snprintf buf IFNAMSIZ (prefix @ dec pid))"

definition router_net_cleanup ::
    "'w os \<Rightarrow> stack \<Rightarrow> nat \<Rightarrow> path \<Rightarrow> bytes \<Rightarrow> 'w ps \<Rightarrow> int \<times> 'w ps" where
  "router_net_cleanup K stk pid vm_dir device_id s =
     (case remove_device_c K vm_dir device_id s of (e, s) \<Rightarrow>
        if e \<noteq> 0 then (-1, set_errno e s)
        else
          (let name = name_pid (stk_name stk) ''router'' pid;
               newname = name_pid (stk_newname stk) ''_dead'' pid;
               brname = name_pid (stk_brname stk) ''br'' pid in
           case bridge_remove_if K brname name s of (r, s) \<Rightarrow>
             (case if_down K name
                 (if r = -1 then c_warn (''removing '' @ cstr name @ '' from '' @ cstr brname) s else s) of (d, s) \<Rightarrow>
                if d = -1 then (-1, s) else if_rename K name newname s)))"

definition bridge_cleanup :: "'w os \<Rightarrow> stack \<Rightarrow> nat \<Rightarrow> 'w ps \<Rightarrow> int \<times> 'w ps" where
  "bridge_cleanup K stk pid s = bridge_delete K (name_pid (stk_name stk) ''br'' pid) s"

text \<open>
  Waiting for the other end of the pipe to be closed. The loop has no bound: it returns
  \<open>None\<close> if \<open>poll\<close> is interrupted forever.
\<close>

partial_function (option) poll_loop ::
    "'w os \<Rightarrow> nat \<Rightarrow> 'w ps \<Rightarrow> ((16 word, errno) result \<times> 'w ps) option" where
  "poll_loop K fd s =
     (case ask (os_poll K fd) (EvPoll fd) s of (r, s) \<Rightarrow>
       (case r of
          Ok revents \<Rightarrow> Some (Ok revents, s)
        | Err e \<Rightarrow>
            if e = EINTR \<or> e = EAGAIN then poll_loop K fd (set_errno e s)
            else Some (Err e, set_errno e s)))"

definition POLLERR :: "16 word" where "POLLERR = 0x8"

definition exit_listener_main ::
    "'w os \<Rightarrow> stack \<Rightarrow> nat \<Rightarrow> nat \<Rightarrow> path \<Rightarrow> bytes \<Rightarrow> 'w ps \<Rightarrow> 'a outcome \<times> 'w ps" where
  "exit_listener_main K stk fd pid router_vm_dir router_device_id s =
     (case poll_loop K fd s of
        None \<Rightarrow> (Diverge, s)
      | Some (Err e, s) \<Rightarrow> (Exit 1, c_warn ''poll'' s)
      | Some (Ok revents, s) \<Rightarrow>
          if revents \<noteq> POLLERR then (Panic, s)
          else
            (case router_net_cleanup K stk pid router_vm_dir router_device_id s of (r1, s) \<Rightarrow>
              (case bridge_cleanup K stk pid
                  (if r1 = -1 then c_warn ''cleaning up router tap'' s else s) of (r2, s) \<Rightarrow>
                (Exit (if r1 = -1 \<or> r2 = -1 then 1 else 0),
                 if r2 = -1 then c_warn ''cleaning up bridge'' s else s))))"

definition exit_listener_setup ::
    "'w os \<Rightarrow> stack \<Rightarrow> path \<Rightarrow> bytes \<Rightarrow> 'w ps \<Rightarrow> int outcome \<times> 'w ps" where
  "exit_listener_setup K stk router_vm_dir router_device_id s =
     (let pid = sys_getpid K s in
      case sys_pipe K s of (p, s) \<Rightarrow>
       (case p of
          None \<Rightarrow> (Ret (-1), s)
        | Some fd \<Rightarrow>
           (case sys_fork K s of (f, s) \<Rightarrow>
              if f = -1 then
                (case sys_close K (int (fst fd)) s of (_, s) \<Rightarrow>
                  (case sys_close K (int (snd fd)) s of (_, s) \<Rightarrow> (Ret (-1), s)))
              else if f = 0 then
                (case sys_close K (int (fst fd)) s of (_, s) \<Rightarrow>
                   exit_listener_main K stk (snd fd) pid router_vm_dir router_device_id s)
              else
                (case sys_close K (int (snd fd)) s of (_, s) \<Rightarrow> (Ret 0, s)))))"

definition router_mac :: "nat \<Rightarrow> mac_address" where
  "router_mac pid = MacAddress 0x0A 0xB3 0xEC 0x80 (word_of_nat (pid div 256)) (word_of_nat pid)"

definition client_mac :: "nat \<Rightarrow> mac_address" where
  "client_mac pid = MacAddress 0x0A 0xB3 0xEC 0x00 (word_of_nat (pid div 256)) (word_of_nat pid)"

text \<open>The label \<open>fail_bridge\<close> of \<open>net_setup\<close>.\<close>

definition fail_bridge ::
    "'w os \<Rightarrow> bytes \<Rightarrow> net_config_c \<Rightarrow> 'w ps \<Rightarrow> net_config_c outcome \<times> 'w ps" where
  "fail_bridge K bridge_name r s =
     (case bridge_delete K bridge_name s of (_, s) \<Rightarrow>
       (case sys_close K (netc_fd r) s of (_, s) \<Rightarrow> (Ret (r\<lparr>netc_fd := -1\<rparr>), s)))"

definition net_setup :: "'w os \<Rightarrow> stack \<Rightarrow> path \<Rightarrow> 'w ps \<Rightarrow> net_config_c outcome \<times> 'w ps" where
  "net_setup K stk router_vm_dir s =
     (let pid = sys_getpid K s;
          r = \<lparr>netc_fd = -1, netc_id = replicate IFNAMSIZ NUL, netc_mac = client_mac pid\<rparr>;
          bridge_name = name_pid (stk_bridge stk) ''br'' pid;
          zeros = replicate IFNAMSIZ NUL in
      if fst (snprintf (stk_bridge stk) IFNAMSIZ (''br'' @ dec pid)) = -1 then (Ret r, s)
      else
        (case bridge_add K bridge_name s of (a, s) \<Rightarrow>
           if a = -1 then (Ret r, s)
           else
             (case if_up K bridge_name s of (u, s) \<Rightarrow>
                if u = -1 then fail_bridge K bridge_name r s
                else
                  (case client_net_setup K stk bridge_name (netc_id r) s of (ft, s) \<Rightarrow>
                    (case ft of (fd, ident) \<Rightarrow>
                       let r = r\<lparr>netc_fd := fd, netc_id := ident\<rparr> in
                       if fd = -1 then fail_bridge K bridge_name r s
                       else
                         (case router_net_setup K stk bridge_name router_vm_dir (router_mac pid) zeros s of (q, s) \<Rightarrow>
                           (case q of
                              Ret q \<Rightarrow>
                                (if fst q = -1 then fail_bridge K bridge_name r s
                                 else
                                   (case exit_listener_setup K stk router_vm_dir (snd q) s of (l, s) \<Rightarrow>
                                     (case l of
                                        Ret l \<Rightarrow> if l = -1 then fail_bridge K bridge_name r s else (Ret r, s)
                                      | Panic \<Rightarrow> (Panic, s) | Exit n \<Rightarrow> (Exit n, s) | Diverge \<Rightarrow> (Diverge, s))))
                            | Panic \<Rightarrow> (Panic, s) | Exit n \<Rightarrow> (Exit n, s) | Diverge \<Rightarrow> (Diverge, s))))))))"

section \<open>Descriptors\<close>

lemma poll_loop_log:
  assumes ret: "poll_loop K fd s = Some (r, t)"
  shows "\<exists>evs. events t = events s @ evs \<and> (\<forall>M. held M evs = M) \<and> done_ioctls evs = [] \<and> spawns evs = [] \<and>
    set evs \<subseteq> range (EvPoll fd)"
proof -
  let ?P = "\<lambda>K fd s x. \<exists>evs. events (snd x) = events s @ evs \<and> (\<forall>M. held M evs = M) \<and>
      done_ioctls evs = [] \<and> spawns evs = [] \<and> set evs \<subseteq> range (EvPoll fd)"
  have "?P K fd s (r, t)"
  proof (rule poll_loop.raw_induct [where P = ?P, OF _ ret])
    fix f K fd s x
    assume IH: "\<And>K fd s y. f K fd s = Some y \<Longrightarrow> ?P K fd s y"
      and eq: "(case ask (os_poll K fd) (EvPoll fd) s of (r, s) \<Rightarrow>
         (case r of Ok revents \<Rightarrow> Some (Ok revents, s)
          | Err e \<Rightarrow> if e = EINTR \<or> e = EAGAIN then f K fd (set_errno e s)
                     else Some (Err e, set_errno e s))) = Some x"
    obtain q u where qu: "ask (os_poll K fd) (EvPoll fd) s = (q, u)" by force
    then have ev: "events u = events s @ [EvPoll fd q]" by (auto simp: ask_def split: prod.splits)
    show "?P K fd s x"
    proof (cases "\<exists>e. q = Err e \<and> (e = EINTR \<or> e = EAGAIN)")
      case True
      then obtain e where "f K fd (set_errno e u) = Some x" using eq qu by auto
      from IH [OF this] ev show ?thesis
        by (auto simp: set_errno_def fd_opened_def fd_closed_def)
    next
      case False
      with eq qu ev show ?thesis
        by (cases q) (auto simp: set_errno_def fd_opened_def fd_closed_def split: if_splits)
    qed
  qed
  then show ?thesis by simp
qed

interpretation setup_tap: fd_op "setup_tap K stk b p n" "{#}" "\<lambda>r. {fdm (fst r)}" for K stk b p n
proof
  fix s
  let ?tail = "\<lambda>pid s. if fst (snprintf n IFNAMSIZ (p @ dec pid)) = -1 then ((-1, n), s)
      else
        (case tap_open K (stk_ifr stk) (snd (snprintf n IFNAMSIZ (p @ dec pid))) tap_flags s of (ft, s) \<Rightarrow>
          (case ft of (fd, tap_name) \<Rightarrow>
             if fd = -1 then ((-1, tap_name), s)
             else
               (case bridge_add_if K b tap_name s of (r, s) \<Rightarrow>
                  if r = -1 then (case sys_close K fd s of (_, s) \<Rightarrow> ((-1, tap_name), s))
                  else
                    (case if_up K tap_name s of (r, s) \<Rightarrow>
                       if r = -1 then (case sys_close K fd s of (_, s) \<Rightarrow> ((-1, tap_name), s))
                       else ((fd, tap_name), s)))))"
  have "fd_op (?tail pid) {#} (\<lambda>r. {fdm (fst r)})" for pid
    by (intro fd_op_if fd_op_return fd_op_acquire1 [OF tap_open.fd_op_axioms] fd_op_case_pair
        fd_op_then [OF bridge_add_if.fd_op_axioms] fd_op_then [OF if_up.fd_op_axioms]
        fd_op_release [OF sys_close.fd_op_axioms, where F = "{#}"]) auto
  from fd_op.contract [OF this, of "sys_getpid K s" s]
  show "\<exists>evs. events (snd (setup_tap K stk b p n s)) = events s @ evs \<and>
      (\<exists>D\<in>{fdm (fst (fst (setup_tap K stk b p n s)))}. \<forall>M. held (M + {#}) evs = M + D)"
    by (simp only: setup_tap_def)
qed

interpretation router_net_setup: fd_op "router_net_setup K stk b d m i" "{#}" "ret_gain (\<lambda>_. {{#}})"
  for K stk b d m i
  unfolding router_net_setup_def
  by (intro fd_op_if fd_op_return fd_op_acquire1 [OF setup_tap.fd_op_axioms] fd_op_case_pair
      fd_op_then [OF add_net_c.fd_op_axioms] fd_op_outcome fd_op_set_errno [OF fd_op_return]
      fd_op_release [OF sys_close.fd_op_axioms, where F = "{#}"]) auto

interpretation router_net_cleanup: fd_op "router_net_cleanup K stk pid d i" "{#}" "\<lambda>_. {{#}}"
  for K stk pid d i
proof -
  have "fd_op (\<lambda>s. case if_down K n s of (d, s) \<Rightarrow> if d = -1 then (-1, s) else if_rename K n m s) {#} (\<lambda>_. {{#}})"
    for n m
    by (intro fd_op_then [OF if_down.fd_op_axioms] fd_op_if fd_op_return if_rename.fd_op_axioms) auto
  then show "fd_op (router_net_cleanup K stk pid d i) {#} (\<lambda>_. {{#}})"
    unfolding router_net_cleanup_def Let_def
    by (intro fd_op_then [OF remove_device_c.fd_op_axioms] fd_op_if fd_op_set_errno [OF fd_op_return]
        fd_op_then [OF bridge_remove_if.fd_op_axioms] fd_op_warn_if) auto
qed

interpretation bridge_cleanup: fd_op "bridge_cleanup K stk pid" "{#}" "\<lambda>_. {{#}}" for K stk pid
  unfolding bridge_cleanup_def by (rule bridge_delete.fd_op_axioms)

lemma exit_listener_main_grows:
  fixes K :: "'w os"
  shows "\<exists>evs. events (snd (exit_listener_main K stk fd pid d i s :: 'a outcome \<times> 'w ps)) = events s @ evs \<and>
    (\<forall>M. held M evs = M)"
proof (cases "poll_loop K fd s")
  case None
  then show ?thesis by (simp add: exit_listener_main_def)
next
  case (Some x)
  obtain q t where x: "x = (q, t)" by force
  from poll_loop_log [of K fd s q t] Some x obtain evs where
    evs: "events t = events s @ evs" "\<forall>M. held M evs = M" by auto
  let ?c = "\<lambda>s :: 'w ps. case router_net_cleanup K stk pid d i s of (r1, s) \<Rightarrow>
     (case bridge_cleanup K stk pid (if r1 = -1 then c_warn ''cleaning up router tap'' s else s) of (r2, s) \<Rightarrow>
        (\<lambda>s. (Exit (if r1 = -1 \<or> r2 = -1 then 1 else 0) :: 'a outcome, s))
           (if r2 = -1 then c_warn ''cleaning up bridge'' s else s))"
  have "fd_op (\<lambda>s. case bridge_cleanup K stk pid s of (r2, s) \<Rightarrow>
        (\<lambda>s. (Exit (if r1 = -1 \<or> r2 = -1 then 1 else 0) :: 'a outcome, s))
           (if r2 = -1 then c_warn ''cleaning up bridge'' s else s)) {#} (\<lambda>_. {{#}})" for r1 :: int
    by (intro fd_op_then [OF bridge_cleanup.fd_op_axioms] fd_op_warn_if [OF fd_op_return]) auto
  then have "fd_op ?c {#} (\<lambda>_. {{#}})"
    by (intro fd_op_then [OF router_net_cleanup.fd_op_axioms] fd_op_warn_if)
  from fd_op.contract [OF this, of t] obtain evs' where
    e': "events (snd (?c t)) = events t @ evs'" "\<forall>M. held M evs' = M" by auto
  show ?thesis
  proof (cases q)
    case (Err e)
    with Some x evs show ?thesis
      by (auto simp: exit_listener_main_def c_warn_def emit_def fd_opened_def fd_closed_def)
  next
    case (Ok rev)
    with Some x evs e' show ?thesis
      by (auto simp: exit_listener_main_def intro!: exI [of _ "evs @ evs'"])
  qed
qed

interpretation exit_listener_main: fd_op "exit_listener_main K stk fd pid d i" "{#}" "\<lambda>_. {{#}}"
  for K stk fd pid d i
  using exit_listener_main_grows [of K stk fd pid d i] by unfold_locales auto

lemma exit_listener_main_noreturn: "fst (exit_listener_main K stk fd pid d i s) \<noteq> Ret a"
  by (auto simp: exit_listener_main_def split: option.splits prod.splits result.splits if_splits)

interpretation exit_listener_setup: fd_op "exit_listener_setup K stk d i" "{#}"
    "ret_gain (\<lambda>r. if r = -1 then {{#}} else range (\<lambda>p. {#p#}))" for K stk d i
proof
  fix s
  let ?G = "ret_gain (\<lambda>r :: int. if r = -1 then {{#}} else range (\<lambda>p. {#p#}))"
  let ?m = "\<lambda>pid s. case sys_pipe K s of (p, s) \<Rightarrow>
       (case p of
          None \<Rightarrow> (Ret (-1), s)
        | Some fd \<Rightarrow>
           (case sys_fork K s of (f, s) \<Rightarrow>
              if f = -1 then
                (case sys_close K (int (fst fd)) s of (_, s) \<Rightarrow>
                  (case sys_close K (int (snd fd)) s of (_, s) \<Rightarrow> (Ret (-1), s)))
              else if f = 0 then
                (case sys_close K (int (fst fd)) s of (_, s) \<Rightarrow>
                   exit_listener_main K stk (snd fd) pid d i s)
              else
                (case sys_close K (int (snd fd)) s of (_, s) \<Rightarrow> (Ret 0, s))))"
  have main: "fd_op (exit_listener_main K stk fd pid d i) P ?G" for fd pid P
  proof
    fix s
    obtain evs where "events (snd (exit_listener_main K stk fd pid d i s :: int outcome \<times> _)) = events s @ evs"
      "\<forall>M. held M evs = M" using exit_listener_main_grows by blast
    moreover have "P \<in> ?G (fst (exit_listener_main K stk fd pid d i s))"
      by (cases "fst (exit_listener_main K stk fd pid d i s) :: int outcome")
         (auto simp: exit_listener_main_noreturn)
    ultimately show "\<exists>evs. events (snd (exit_listener_main K stk fd pid d i s :: int outcome \<times> _)) = events s @ evs \<and>
      (\<exists>D \<in> ?G (fst (exit_listener_main K stk fd pid d i s)). \<forall>M. held (M + P) evs = M + D)"
      by (intro exI [of _ evs] conjI bexI [of _ P]) auto
  qed
  have "fd_op (?m pid) {#} ?G" for pid
  proof (rule fd_op_acquire1 [OF sys_pipe.fd_op_axioms], rule fd_op_option)
    fix p :: "(nat \<times> nat) option" and fd :: "nat \<times> nat"
    assume "p = Some fd"
    obtain a b where fd: "fd = (a, b)" by force
    show "fd_op (\<lambda>s. case sys_fork K s of (f, s) \<Rightarrow>
              if f = -1 then
                (case sys_close K (int (fst fd)) s of (_, s) \<Rightarrow>
                  (case sys_close K (int (snd fd)) s of (_, s) \<Rightarrow> (Ret (-1), s)))
              else if f = 0 then
                (case sys_close K (int (fst fd)) s of (_, s) \<Rightarrow>
                   exit_listener_main K stk (snd fd) pid d i s)
              else
                (case sys_close K (int (snd fd)) s of (_, s) \<Rightarrow> (Ret 0, s)))
       ((case p of None \<Rightarrow> {#} | Some (a, b) \<Rightarrow> {#a, b#}) + {#}) ?G"
      using \<open>p = Some fd\<close> fd
      by (intro fd_op_then [OF sys_fork.fd_op_axioms] fd_op_if
          fd_op_release [OF sys_close.fd_op_axioms [of K "int (fst fd)"], where F = "{#b#}"]
          fd_op_release [OF sys_close.fd_op_axioms [of K "int (snd fd)"], where F = "{#}"]
          fd_op_release [OF sys_close.fd_op_axioms [of K "int (snd fd)"], where F = "{#a#}"]
          fd_op_return main) auto
  qed (auto intro: fd_op_return)
  from fd_op.contract [OF this, of "sys_getpid K s" s]
  show "\<exists>evs. events (snd (exit_listener_setup K stk d i s)) = events s @ evs \<and>
      (\<exists>D \<in> ?G (fst (exit_listener_setup K stk d i s)). \<forall>M. held (M + {#}) evs = M + D)"
    by (simp only: exit_listener_setup_def Let_def)
qed

lemma fail_bridge_fd_op: "fd_op (fail_bridge K b r) (fdm (netc_fd r)) (ret_gain (\<lambda>_. {{#}}))"
  unfolding fail_bridge_def
  by (intro fd_op_then [OF bridge_delete.fd_op_axioms] fd_op_return
      fd_op_release [OF sys_close.fd_op_axioms, where F = "{#}"]) auto

lemma fail_bridge_ret: "fst (fail_bridge K b r s) = Ret (r\<lparr>netc_fd := -1\<rparr>)"
  by (auto simp: fail_bridge_def split: prod.splits)

definition net_gain :: "net_config_c \<Rightarrow> nat multiset set" where
  "net_gain r = (if netc_fd r = -1 then {{#}} else range (\<lambda>p. fdm (netc_fd r) + {#p#}))"

lemma fail_bridge_net_gain:
  "P = fdm (netc_fd r) \<Longrightarrow> fd_op (fail_bridge K b r) P (ret_gain net_gain)"
  unfolding fail_bridge_def
  by (intro fd_op_then [OF bridge_delete.fd_op_axioms] fd_op_return
      fd_op_release [OF sys_close.fd_op_axioms, where F = "{#}"]) (auto simp: net_gain_def)

lemma ret_gain_add:
  assumes "D \<in> ret_gain (\<lambda>r :: int. if r = -1 then {{#}} else range (\<lambda>p. {#p#})) (Ret l)"
  shows "if l = -1 then D = {#} else \<exists>p. D = {#p#}"
  using assms by (auto split: if_splits)

interpretation net_setup: fd_op "net_setup K stk d" "{#}" "ret_gain net_gain" for K stk d
proof
  fix s
  define pid where "pid = sys_getpid K s"
  let ?z = "replicate IFNAMSIZ NUL"
  let ?r = "\<lparr>netc_fd = -1, netc_id = ?z, netc_mac = client_mac pid\<rparr>"
  let ?b = "name_pid (stk_bridge stk) ''br'' pid"
  have ex: "fd_op (\<lambda>s. case exit_listener_setup K stk d i s of (l, s) \<Rightarrow>
       (case l of
          Ret l \<Rightarrow> if l = -1 then fail_bridge K ?b r s else (Ret r, s)
        | Panic \<Rightarrow> (Panic, s) | Exit n \<Rightarrow> (Exit n, s) | Diverge \<Rightarrow> (Diverge, s)))
      P (ret_gain net_gain)" if "netc_fd r \<noteq> -1" "P = fdm (netc_fd r)" for i r P
    using that
    by (intro fd_op_acquire [OF exit_listener_setup.fd_op_axioms] fd_op_outcome fd_op_if
        fail_bridge_net_gain fd_op_return)
       (auto simp: net_gain_def ac_simps)
  have "fd_op (\<lambda>s. if fst (snprintf (stk_bridge stk) IFNAMSIZ (''br'' @ dec pid)) = -1 then (Ret ?r, s)
      else
        (case bridge_add K ?b s of (a, s) \<Rightarrow>
           if a = -1 then (Ret ?r, s)
           else
             (case if_up K ?b s of (u, s) \<Rightarrow>
                if u = -1 then fail_bridge K ?b ?r s
                else
                  (case client_net_setup K stk ?b (netc_id ?r) s of (ft, s) \<Rightarrow>
                    (case ft of (fd, ident) \<Rightarrow>
                       if fd = -1 then fail_bridge K ?b (?r\<lparr>netc_fd := fd, netc_id := ident\<rparr>) s
                       else
                         (case router_net_setup K stk ?b d (router_mac pid) ?z s of (q, s) \<Rightarrow>
                           (case q of
                              Ret q \<Rightarrow>
                                (if fst q = -1 then fail_bridge K ?b (?r\<lparr>netc_fd := fd, netc_id := ident\<rparr>) s
                                 else
                                   (case exit_listener_setup K stk d (snd q) s of (l, s) \<Rightarrow>
                                     (case l of
                                        Ret l \<Rightarrow> if l = -1 then fail_bridge K ?b (?r\<lparr>netc_fd := fd, netc_id := ident\<rparr>) s
                                          else (Ret (?r\<lparr>netc_fd := fd, netc_id := ident\<rparr>), s)
                                      | Panic \<Rightarrow> (Panic, s) | Exit n \<Rightarrow> (Exit n, s) | Diverge \<Rightarrow> (Diverge, s))))
                            | Panic \<Rightarrow> (Panic, s) | Exit n \<Rightarrow> (Exit n, s) | Diverge \<Rightarrow> (Diverge, s)))))))) {#} (ret_gain net_gain)"
    unfolding client_net_setup_def
    by (intro fd_op_if fd_op_return fd_op_then [OF bridge_add.fd_op_axioms] fd_op_then [OF if_up.fd_op_axioms]
        fail_bridge_net_gain fd_op_acquire1 [OF setup_tap.fd_op_axioms] fd_op_case_pair
        fd_op_acquire [OF router_net_setup.fd_op_axioms] fd_op_outcome)
      (auto simp: net_gain_def intro: ex)
  from fd_op.contract [OF this, of s]
  show "\<exists>evs. events (snd (net_setup K stk d s)) = events s @ evs \<and>
      (\<exists>D \<in> ret_gain net_gain (fst (net_setup K stk d s)). \<forall>M. held (M + {#}) evs = M + D)"
    by (simp only: net_setup_def Let_def pid_def)
qed

section \<open>What is done to the network\<close>

lemma sys_close_log: "sys_close K fd s = (c, t) \<Longrightarrow> \<exists>r. events t = events s @ [EvClose fd r]"
  by (auto simp: sys_eval split: prod.splits result.splits)

lemma setup_tap_log:
  assumes eq: "setup_tap K stk b p n s = ((fd, nm), t)"
  shows "\<exists>evs. events t = events s @ evs \<and> spawns evs = [] \<and>
    (fd \<noteq> -1 \<longrightarrow> (\<exists>i > 0. \<exists>f. done_ioctls evs =
       [SIOCBRADDIF (strncpy b IFNAMSIZ) i, SIOCSIFFLAGS (strncpy nm IFNAMSIZ) (f OR IFF_UP)]))"
proof -
  let ?n = "snd (snprintf n IFNAMSIZ (p @ dec (sys_getpid K s)))"
  have sn: "fst (snprintf n IFNAMSIZ (p @ dec (sys_getpid K s))) \<noteq> -1" by (rule snprintf_no_error)
  obtain fd' nm' s1 where 1: "tap_open K (stk_ifr stk) ?n tap_flags s = ((fd', nm'), s1)"
    by (metis surj_pair)
  from tap_open_log [of K "stk_ifr stk" ?n tap_flags s] 1 obtain e1 where
    e1: "events s1 = events s @ e1" "done_ioctls e1 = []" "spawns e1 = []" by auto
  obtain r2 s2 where 2: "bridge_add_if K b nm' s1 = (r2, s2)" by force
  from bridge_add_if_a.atomic [of K b nm' s1] 2 obtain e2 where
    e2: "events s2 = events s1 @ e2" "spawns e2 = []"
      "r2 \<noteq> -1 \<longrightarrow> (\<exists>i > 0. done_ioctls e2 = [SIOCBRADDIF (strncpy b IFNAMSIZ) i])" by auto
  obtain r3 s3 where 3: "if_up K nm' s2 = (r3, s3)" by force
  from if_up_a.atomic [of K nm' s2] 3 obtain e3 where
    e3: "events s3 = events s2 @ e3" "spawns e3 = []"
      "r3 \<noteq> -1 \<longrightarrow> (\<exists>f. done_ioctls e3 = [SIOCSIFFLAGS (strncpy nm' IFNAMSIZ) (f OR IFF_UP)])" by auto
  obtain c2 s2' where 4: "sys_close K fd' s2 = (c2, s2')" by force
  obtain c3 s3' where 5: "sys_close K fd' s3 = (c3, s3')" by force
  from sys_close_log [OF 4] sys_close_log [OF 5] obtain q2 q3 where
    e4: "events s2' = events s2 @ [EvClose fd' q2]" "events s3' = events s3 @ [EvClose fd' q3]" by auto
  consider "fd' = -1" | "fd' \<noteq> -1" "r2 = -1" | "fd' \<noteq> -1" "r2 \<noteq> -1" "r3 = -1"
    | "fd' \<noteq> -1" "r2 \<noteq> -1" "r3 \<noteq> -1" by blast
  then show ?thesis
    using eq 1 2 3 4 5 e1 e2 e3 e4 sn by cases (auto simp: setup_tap_def)
qed

lemma add_net_c_ok:
  assumes "add_net_c K d c s = (Ret e, t)"
  obtains net evs where "try_from c = Ok net" "events t = events s @ evs" "done_ioctls evs = []"
    "spawns evs = [add_net_command d net]"
  using assms
  by (auto simp: add_net_c_def add_net_def ch_sys split: prod.splits result.splits if_splits)

lemma router_net_setup_log:
  assumes eq: "router_net_setup K stk b d m z s = (Ret (r, dev), t)" "r \<noteq> -1"
  shows "\<exists>evs i f net. events t = events s @ evs \<and> 0 < i \<and> net_mac net = m \<and>
    done_ioctls evs = [SIOCBRADDIF (strncpy b IFNAMSIZ) i,
      SIOCSIFFLAGS (strncpy (net_id net) IFNAMSIZ) (f OR IFF_UP)] \<and>
    spawns evs = [add_net_command d net]"
proof -
  obtain fd nm s1 where 1: "setup_tap K stk b ''router'' (stk_id stk) s = ((fd, nm), s1)"
    by (metis surj_pair)
  with eq have fd: "fd \<noteq> -1" by (auto simp: router_net_setup_def)
  obtain q s2 where 2: "add_net_c K d \<lparr>netc_fd = fd, netc_id = nm, netc_mac = m\<rparr> s1 = (q, s2)" by force
  from eq 1 2 fd obtain e where q: "q = Ret e" by (cases q) (auto simp: router_net_setup_def)
  obtain c s3 where 3: "sys_close K fd s2 = (c, s3)" by force
  from setup_tap_log [OF 1] fd obtain e1 i f where
    e1: "events s1 = events s @ e1" "spawns e1 = []" "0 < i" "done_ioctls e1 =
       [SIOCBRADDIF (strncpy b IFNAMSIZ) i, SIOCSIFFLAGS (strncpy nm IFNAMSIZ) (f OR IFF_UP)]" by auto
  from 2 q obtain net e2 where
    e2: "try_from \<lparr>netc_fd = fd, netc_id = nm, netc_mac = m\<rparr> = Ok net" "events s2 = events s1 @ e2"
      "done_ioctls e2 = []" "spawns e2 = [add_net_command d net]"
    by (auto elim: add_net_c_ok)
  from sys_close_log [OF 3] obtain q3 where e3: "events s3 = events s2 @ [EvClose fd q3]" ..
  have net: "net_mac net = m" "net_id net = cstr nm"
    using e2(1) by (auto simp: try_from_def cstr_def Let_def split: if_splits)
  then have nm: "strncpy (net_id net) IFNAMSIZ = strncpy nm IFNAMSIZ" by (simp add: strncpy_def)
  have "t = s3"
    using eq 1 2 3 fd q by (auto simp: router_net_setup_def split: if_splits)
  with e1 e2 e3 net(1) nm show ?thesis
    by (intro exI [of _ "e1 @ e2 @ [EvClose fd q3]"] exI [of _ i] exI [of _ f] exI [of _ net]) simp
qed

lemma exit_listener_setup_log:
  assumes "exit_listener_setup K stk d i s = (Ret l, t)"
  shows "\<exists>evs. events t = events s @ evs \<and> done_ioctls evs = [] \<and> spawns evs = []"
  using assms
  by (auto simp: exit_listener_setup_def Let_def sys_eval exit_listener_main_noreturn
      split: prod.splits option.splits result.splits if_splits
      dest!: arg_cong [where f = fst])

section \<open>Properties of \<open>net_setup\<close>\<close>

text \<open>
  C28. \<open>net_setup\<close> leaks no descriptor, whatever the kernel and ch-remote do: when it returns a
  failure the process holds what it held before, although up to six descriptors were opened on
  the way; when it returns success it holds in addition the client's tap, which it returns, and
  one more, the end of the pipe by which the exit listener notices that the process has died.
\<close>

theorem net_setup_descriptors:
  assumes "net_setup K stk d s = (Ret r, t)"
  shows "\<exists>evs. events t = events s @ evs \<and>
    (if netc_fd r = -1 then \<forall>M. held M evs = M
     else \<exists>p. \<forall>M. held M evs = M + fdm (netc_fd r) + {#p#})"
  using net_setup.contract [of K stk d s] assms
  by (auto simp: net_gain_def ac_simps split: if_splits)

lemma net_setup_steps:
  assumes "net_setup K stk d s = (Ret r, t)" "netc_fd r \<noteq> -1"
  defines "br \<equiv> name_pid (stk_bridge stk) ''br'' (sys_getpid K s)"
    and "z \<equiv> replicate IFNAMSIZ NUL"
  obtains a s1 u s2 s3 q dev s4 l where
    "bridge_add K br s = (a, s1)" "a \<noteq> -1" "if_up K br s1 = (u, s2)" "u \<noteq> -1"
    "setup_tap K stk br ''client'' z s2 = ((netc_fd r, netc_id r), s3)"
    "router_net_setup K stk br d (router_mac (sys_getpid K s)) z s3 = (Ret (q, dev), s4)" "q \<noteq> -1"
    "exit_listener_setup K stk d dev s4 = (Ret l, t)" "l \<noteq> -1"
    "netc_mac r = client_mac (sys_getpid K s)"
proof -
  note [simp] = br_def [symmetric] z_def [symmetric]
  note def = assms(1) [unfolded net_setup_def Let_def client_net_setup_def, folded br_def z_def]
  have failed: "netc_fd r = -1" if "fail_bridge K br x y = (Ret r, t)" for x y
    using fail_bridge_ret [of K br x y] that by simp
  obtain a s1 where 1: "bridge_add K br s = (a, s1)" by force
  obtain u s2 where 2: "if_up K br s1 = (u, s2)" by force
  obtain fd nm s3 where 3: "setup_tap K stk br ''client'' z s2 = ((fd, nm), s3)" by (metis surj_pair)
  obtain q s4 where 4: "router_net_setup K stk br d (router_mac (sys_getpid K s)) z s3 = (q, s4)" by force
  have a: "a \<noteq> -1" using def 1 assms(2) by (auto split: if_splits)
  have u: "u \<noteq> -1" using def 1 2 a assms(2) failed by (auto split: if_splits)
  have fd: "fd \<noteq> -1" using def 1 2 3 a u assms(2) failed by (auto split: if_splits)
  from def 1 2 3 4 a u fd assms(2) obtain q' dev where q: "q = Ret (q', dev)"
    by (cases q) (auto split: if_splits)
  have q': "q' \<noteq> -1" using def 1 2 3 4 a u fd q assms(2) failed by (auto split: if_splits)
  obtain l s5 where 5: "exit_listener_setup K stk d dev s4 = (l, s5)" by force
  from def 1 2 3 4 5 a u fd q q' assms(2) obtain l' where l: "l = Ret l'"
    by (cases l) (auto split: if_splits)
  have l': "l' \<noteq> -1" using def 1 2 3 4 5 a u fd q q' l assms(2) failed by (auto split: if_splits)
  have "r = \<lparr>netc_fd = fd, netc_id = nm, netc_mac = client_mac (sys_getpid K s)\<rparr>" "t = s5"
    using def 1 2 3 4 5 a u fd q q' l l' by (auto split: if_splits)
  with 1 2 3 4 5 a u q q' l l' that show thesis by simp
qed

text \<open>What a successful \<open>net_setup\<close> has done.\<close>

lemma net_setup_log:
  assumes "net_setup K stk d s = (Ret r, t)" and "netc_fd r \<noteq> -1"
  defines "pid \<equiv> sys_getpid K s"
  defines "br \<equiv> name_pid (stk_bridge stk) ''br'' pid"
  shows "\<exists>evs i j f g h net. events t = events s @ evs \<and> 0 < i \<and> 0 < j \<and>
    done_ioctls evs =
      [SIOCBRADDBR (cstr br), SIOCSIFFLAGS (strncpy br IFNAMSIZ) (f OR IFF_UP),
       SIOCBRADDIF (strncpy br IFNAMSIZ) i, SIOCSIFFLAGS (strncpy (netc_id r) IFNAMSIZ) (g OR IFF_UP),
       SIOCBRADDIF (strncpy br IFNAMSIZ) j, SIOCSIFFLAGS (strncpy (net_id net) IFNAMSIZ) (h OR IFF_UP)] \<and>
    spawns evs = [add_net_command d net] \<and> net_mac net = router_mac pid \<and> netc_mac r = client_mac pid"
proof -
  from net_setup_steps [OF assms(1,2)] obtain a s1 u s2 s3 q dev s4 l where
    st: "bridge_add K br s = (a, s1)" "a \<noteq> -1" "if_up K br s1 = (u, s2)" "u \<noteq> -1"
    "setup_tap K stk br ''client'' (replicate IFNAMSIZ NUL) s2 = ((netc_fd r, netc_id r), s3)"
    "router_net_setup K stk br d (router_mac pid) (replicate IFNAMSIZ NUL) s3 = (Ret (q, dev), s4)" "q \<noteq> -1"
    "exit_listener_setup K stk d dev s4 = (Ret l, t)" and mac: "netc_mac r = client_mac pid"
    unfolding br_def pid_def by metis
  from bridge_add_a.ok [OF st(1,2)] obtain e1 where
    e1: "events s1 = events s @ e1" "done_ioctls e1 = [SIOCBRADDBR (cstr br)]" "spawns e1 = []" by auto
  from if_up_a.ok [OF st(3,4)] obtain e2 f where
    e2: "events s2 = events s1 @ e2" "done_ioctls e2 = [SIOCSIFFLAGS (strncpy br IFNAMSIZ) (f OR IFF_UP)]"
      "spawns e2 = []" by auto
  from setup_tap_log [OF st(5)] assms(2) obtain e3 i g where
    e3: "events s3 = events s2 @ e3" "0 < i" "spawns e3 = []" "done_ioctls e3 =
      [SIOCBRADDIF (strncpy br IFNAMSIZ) i, SIOCSIFFLAGS (strncpy (netc_id r) IFNAMSIZ) (g OR IFF_UP)]" by auto
  from router_net_setup_log [OF st(6,7)] obtain e4 j h net where
    e4: "events s4 = events s3 @ e4" "0 < j" "net_mac net = router_mac pid"
      "done_ioctls e4 = [SIOCBRADDIF (strncpy br IFNAMSIZ) j,
         SIOCSIFFLAGS (strncpy (net_id net) IFNAMSIZ) (h OR IFF_UP)]"
      "spawns e4 = [add_net_command d net]" by blast
  from exit_listener_setup_log [OF st(8)] obtain e5 where
    e5: "events t = events s4 @ e5" "done_ioctls e5 = []" "spawns e5 = []" by blast
  show ?thesis
    using e1 e2 e3 e4 e5 mac
    by (intro exI [of _ "e1 @ e2 @ e3 @ e4 @ e5"] exI [of _ i] exI [of _ j] exI [of _ f] exI [of _ g]
        exI [of _ h] exI [of _ net]) simp
qed

text \<open>
  C31. When \<open>net_setup\<close> succeeds, exactly this has happened to the network, in this order: the
  bridge named after the process was created and brought up, the client's tap was added to it and
  brought up, the router's tap was added to it and brought up; and the only program started is one
  \<open>ch-remote add-net\<close> on the router VM, for the router's tap and the router's MAC address.
  The client receives the client's MAC address.
\<close>

theorem net_setup_effects:
  assumes "net_setup K stk d s = (Ret r, t)" and "netc_fd r \<noteq> -1"
  defines "pid \<equiv> sys_getpid K s"
  defines "br \<equiv> name_pid (stk_bridge stk) ''br'' pid"
  shows "\<exists>evs i j f g h net. events t = events s @ evs \<and> 0 < i \<and> 0 < j \<and>
    done_ioctls evs =
      [SIOCBRADDBR (cstr br), SIOCSIFFLAGS (strncpy br IFNAMSIZ) (f OR IFF_UP),
       SIOCBRADDIF (strncpy br IFNAMSIZ) i, SIOCSIFFLAGS (strncpy (netc_id r) IFNAMSIZ) (g OR IFF_UP),
       SIOCBRADDIF (strncpy br IFNAMSIZ) j, SIOCSIFFLAGS (strncpy (net_id net) IFNAMSIZ) (h OR IFF_UP)] \<and>
    spawns evs = [add_net_command d net] \<and> net_mac net = router_mac pid \<and> netc_mac r = client_mac pid"
  using net_setup_log [OF assms(1,2)] unfolding pid_def br_def .

lemma net_setup_fails:
  assumes "net_setup K stk d s = (Ret r, t)" "netc_fd r = -1"
  defines "br \<equiv> name_pid (stk_bridge stk) ''br'' (sys_getpid K s)"
  shows "bridge_add K br s = (-1, t) \<or>
    (\<exists>x y evs. events y = events s @ evs \<and> fail_bridge K br x y = (Ret r, t))"
proof -
  define z where "z = replicate IFNAMSIZ NUL"
  note def = assms(1) [unfolded net_setup_def Let_def client_net_setup_def, folded br_def z_def]
  obtain a s1 where 1: "bridge_add K br s = (a, s1)" by force
  obtain u s2 where 2: "if_up K br s1 = (u, s2)" by force
  obtain fd nm s3 where 3: "setup_tap K stk br ''client'' z s2 = ((fd, nm), s3)" by (metis surj_pair)
  obtain q s4 where 4: "router_net_setup K stk br d (router_mac (sys_getpid K s)) z s3 = (q, s4)" by force
  have g1: "\<exists>evs. events s1 = events s @ evs" using bridge_add.log_grows [of K br s] 1 by simp
  have g2: "\<exists>evs. events s2 = events s @ evs" using if_up.log_grows [of K br s1] 2 g1 by auto
  have g3: "\<exists>evs. events s3 = events s @ evs" using setup_tap.log_grows [of K stk br _ z s2] 3 g2
    by (metis append.assoc snd_conv)
  have g4: "\<exists>evs. events s4 = events s @ evs" using router_net_setup.log_grows 4 g3
    by (metis append.assoc snd_conv)
  show ?thesis
  proof (cases "a = -1 \<or> u = -1 \<or> fd = -1")
    case True
    then show ?thesis using def 1 2 3 g1 g2 g3 by (auto split: if_splits)
  next
    case False
    with def 1 2 3 4 obtain q' dev where q: "q = Ret (q', dev)" by (cases q) auto
    obtain l s5 where 5: "exit_listener_setup K stk d dev s4 = (l, s5)" by force
    have g5: "\<exists>evs. events s5 = events s @ evs" using exit_listener_setup.log_grows 5 g4
      by (metis append.assoc snd_conv)
    show ?thesis
    proof (cases "q' = -1")
      case True
      with False def 1 2 3 4 q g4 show ?thesis by auto
    next
      case q': False
      with False def 1 2 3 4 5 q obtain l' where l: "l = Ret l'" by (cases l) auto
      with False q' def 1 2 3 4 5 q g5 assms(2) show ?thesis by (cases "l' = -1") auto
    qed
  qed
qed


lemma fail_bridge_errno:
  assumes "\<And>w. fst (os_close K (-1) w) = Err EBADF" and "netc_fd r = -1"
  shows "cerrno (snd (fail_bridge K b r s)) = EBADF"
  using assms
  by (auto simp: fail_bridge_def sys_eval split: prod.splits result.splits)
     (metis fst_conv result.inject(2) result.distinct(1))+

text \<open>
  C40. When the bridge cannot be brought up, or the client's tap cannot be set up, \<open>net_setup\<close>
  closes the descriptor -1 before it returns. On a kernel where that fails with EBADF, as close(2)
  documents, EBADF is the error that is left for the caller to report, whatever the cause was.
\<close>

theorem net_setup_errno_lost:
  assumes "\<And>w. fst (os_close K (-1) w) = Err EBADF"
    and "bridge_add K br s = (0, s1)" and "if_up K br s1 = (u, s2)"
    and "u = -1 \<or> fst (fst (client_net_setup K stk br (replicate IFNAMSIZ NUL) s2)) = -1"
    and "br = name_pid (stk_bridge stk) ''br'' (sys_getpid K s)"
  shows "case net_setup K stk d s of (q, t) \<Rightarrow> (\<exists>r. q = Ret r \<and> netc_fd r = -1) \<and> cerrno t = EBADF"
proof -
  obtain fd nm s3 where 3: "client_net_setup K stk br (replicate IFNAMSIZ NUL) s2 = ((fd, nm), s3)"
    by (metis surj_pair)
  let ?r = "\<lparr>netc_fd = -1, netc_id = replicate IFNAMSIZ NUL, netc_mac = client_mac (sys_getpid K s)\<rparr>"
  have "net_setup K stk d s = (if u = -1 then fail_bridge K br ?r s2
      else fail_bridge K br (?r\<lparr>netc_id := nm\<rparr>) s3)"
    using assms(2-5) 3 by (auto simp: net_setup_def Let_def)
  then show ?thesis
    using fail_bridge_errno [OF assms(1), of ?r br s2] fail_bridge_errno [OF assms(1), of "?r\<lparr>netc_id := nm\<rparr>" br s3]
      fail_bridge_ret [of K br ?r s2] fail_bridge_ret [of K br "?r\<lparr>netc_id := nm\<rparr>" s3]
    by (auto split: prod.splits if_splits)
qed

section \<open>A run\<close>

text \<open>An environment that grants everything, and stack contents.\<close>

definition lan_os :: "unit os" where
  "lan_os = refusing_os\<lparr>os_socket := \<lambda>w. (Ok 3, w), os_open := \<lambda>_ w. (Ok 4, w),
     os_close := \<lambda>fd w. (if fd < 0 then Err EBADF else Ok (), w), os_ioctl := \<lambda>_ _ w. (Ok (), w),
     os_getifflags := \<lambda>_ _ w. (Ok 0, w), os_tunsetiff := \<lambda>_ n _ w. (Ok n, w),
     os_if_nametoindex := \<lambda>_ w. (Ok 5, w), os_getpid := \<lambda>_. 42, os_pipe := \<lambda>w. (Ok (6, 7), w),
     os_fork := \<lambda>w. (Ok 99, w), os_spawn := \<lambda>_ w. (Ok 1, w), os_wait := \<lambda>_ w. (Ok (Exited 0), w),
     os_poll := \<lambda>_ w. (Ok 0x8, w)\<rparr>"

definition stack0 :: stack where
  "stack0 = \<lparr>stk_ifr = CHR ''?'', stk_bridge = replicate 16 (CHR ''?''), stk_id = replicate 16 (CHR ''?''),
     stk_name = replicate 16 (CHR ''?''), stk_newname = replicate 16 (CHR ''?''),
     stk_brname = replicate 16 (CHR ''?'')\<rparr>"

definition ps0 :: "unit ps" where
  "ps0 = \<lparr>world = (), cerrno = 0, events = []\<rparr>"

lemma lan_os_simps:
  "os_socket lan_os w = (Ok 3, w)" "os_open lan_os p w = (Ok 4, w)"
  "os_close lan_os fd w = (if fd < 0 then Err EBADF else Ok (), w)" "os_ioctl lan_os n q w = (Ok (), w)"
  "os_getifflags lan_os n b w = (Ok 0, w)" "os_tunsetiff lan_os n b f w = (Ok b, w)"
  "os_if_nametoindex lan_os b w = (Ok 5, w)" "os_getpid lan_os w = 42" "os_pipe lan_os w = (Ok (6, 7), w)"
  "os_fork lan_os w = (Ok 99, w)" "os_spawn lan_os c w = (Ok 1, w)" "os_wait lan_os n w = (Ok (Exited 0), w)"
  by (simp_all add: lan_os_def)

lemma if_up_lan: "\<exists>t. if_up lan_os n s = (0, t)"
  by (simp add: if_up_def sys_eval lan_os_simps)

lemma bridge_add_if_lan: "\<exists>t. bridge_add_if lan_os b n s = (0, t)"
  by (simp add: bridge_add_if_def sys_eval lan_os_simps)

lemma bridge_add_lan:
  "length (cstr n) < IFNAMSIZ \<Longrightarrow> CHR ''%'' \<notin> set (cstr n) \<Longrightarrow> \<exists>t. bridge_add lan_os n s = (0, t)"
  by (simp add: bridge_add_def sys_eval lan_os_simps strnlen_def strchr_def)

lemma cstr_tap_name:
  assumes "length (cstr n) < IFNAMSIZ - 1"
  shows "cstr (strncpy (strncpy n (IFNAMSIZ - 1) @ [c]) IFNAMSIZ) = cstr n"
proof -
  have "strncpy n (IFNAMSIZ - 1) = cstr n @ NUL # replicate (IFNAMSIZ - 2 - length (cstr n)) NUL"
    using assms by (simp add: strncpy_def IFNAMSIZ_def flip: replicate_Suc)
  then have "cstr (strncpy n (IFNAMSIZ - 1) @ [c]) = cstr n" by (simp add: cstr_no_NUL)
  then show ?thesis using assms by (simp add: cstr_strncpy IFNAMSIZ_def)
qed

lemma cstr_name_pid:
  assumes "NUL \<notin> set p" "length (p @ dec pid) < IFNAMSIZ"
  shows "cstr (name_pid buf p pid) = p @ dec pid"
proof -
  have "NUL \<notin> set (p @ dec pid)" using assms(1) by simp
  then have "cstr (name_pid buf p pid) = take (IFNAMSIZ - 1) (p @ dec pid)"
    unfolding name_pid_def by (rule cstr_snprintf) (simp add: IFNAMSIZ_def)
  with assms(2) show ?thesis by simp
qed

lemma setup_tap_lan:
  assumes "NUL \<notin> set p" "length (p @ dec 42) < IFNAMSIZ - 1"
  shows "\<exists>nm t. setup_tap lan_os stk b p n s = ((4, nm), t) \<and> cstr nm = p @ dec 42"
proof -
  have c: "cstr (snd (snprintf n IFNAMSIZ (p @ dec 42))) = p @ dec 42"
    using cstr_name_pid [of p 42 n] assms by (simp add: name_pid_def)
  let ?m = "snd (snprintf n IFNAMSIZ (p @ dec 42))"
  let ?nm = "strncpy (strncpy ?m (IFNAMSIZ - 1) @ [stk_ifr stk]) IFNAMSIZ"
  have "cstr ?nm = p @ dec 42" using cstr_tap_name [of ?m] c assms(2) by simp
  moreover have "strnlen ?m IFNAMSIZ \<noteq> IFNAMSIZ" using c assms(2) by (simp add: strnlen_def)
  then have "\<exists>t. tap_open lan_os (stk_ifr stk) ?m tap_flags s = ((4, ?nm), t)"
    by (simp add: tap_open_def sys_eval lan_os_simps)
  then obtain t1 where "tap_open lan_os (stk_ifr stk) ?m tap_flags s = ((4, ?nm), t1)" by blast
  moreover obtain t2 where "bridge_add_if lan_os b ?nm t1 = (0, t2)" using bridge_add_if_lan by blast
  moreover obtain t3 where "if_up lan_os ?nm t2 = (0, t3)" using if_up_lan by blast
  ultimately show ?thesis by (simp add: setup_tap_def sys_getpid_def lan_os_simps)
qed

lemma router_net_setup_lan: "\<exists>i t. router_net_setup lan_os stk b d m z s = (Ret (0, i), t)"
proof -
  have d: "length (''router'' @ dec 42) < IFNAMSIZ - 1" by (simp add: fmt_eval IFNAMSIZ_def)
  obtain nm t1 where 1: "setup_tap lan_os stk b ''router'' (stk_id stk) s = ((4, nm), t1)"
    "cstr nm = ''router'' @ dec 42" using setup_tap_lan [OF _ d] by fastforce
  have "list_all ascii (''router'' @ dec 42)" by (simp add: fmt_eval ascii_def)
  then have "utf8_valid (takeWhile (\<lambda>x. x \<noteq> NUL) nm)"
    using 1(2) by (simp add: cstr_def utf8_valid_ascii)
  with 1(1) show ?thesis
    by (simp add: router_net_setup_def add_net_c_def try_from_def add_net_def ch_sys sys_close_def
        ask_def c_unit_def lan_os_simps Let_def)
qed

lemma exit_listener_setup_lan: "\<exists>t. exit_listener_setup lan_os stk d i s = (Ret 0, t)"
  by (simp add: exit_listener_setup_def sys_eval lan_os_simps Let_def)

lemma net_setup_lan_os:
  "\<exists>r t. net_setup lan_os stack0 ''/run/vm/net'' ps0 = (Ret r, t) \<and> netc_fd r = 4"
proof -
  let ?br = "name_pid (stk_bridge stack0) ''br'' 42" and ?z = "replicate IFNAMSIZ NUL"
  have c: "cstr ?br = ''br'' @ dec 42" by (rule cstr_name_pid) (simp_all add: fmt_eval IFNAMSIZ_def)
  have "length (cstr ?br) < IFNAMSIZ" unfolding c by (simp add: fmt_eval IFNAMSIZ_def)
  moreover have "CHR ''%'' \<notin> set (cstr ?br)" unfolding c by (simp add: is_digit_def)
  ultimately obtain t1 where 1: "bridge_add lan_os ?br ps0 = (0, t1)" using bridge_add_lan by blast
  obtain t2 where 2: "if_up lan_os ?br t1 = (0, t2)" using if_up_lan by blast
  have d: "length (''client'' @ dec 42) < IFNAMSIZ - 1" by (simp add: fmt_eval IFNAMSIZ_def)
  obtain nm t3 where 3: "setup_tap lan_os stack0 ?br ''client'' ?z t2 = ((4, nm), t3)"
    using setup_tap_lan [OF _ d] by fastforce
  obtain i t4 where 4: "router_net_setup lan_os stack0 ?br ''/run/vm/net'' (router_mac 42) ?z t3 = (Ret (0, i), t4)"
    using router_net_setup_lan by blast
  obtain t5 where 5: "exit_listener_setup lan_os stack0 ''/run/vm/net'' i t4 = (Ret 0, t5)"
    using exit_listener_setup_lan by blast
  have pid: "sys_getpid lan_os ps0 = 42" by (simp add: sys_getpid_def lan_os_simps)
  show ?thesis
    unfolding net_setup_def Let_def client_net_setup_def pid by (simp add: 1 2 3 4 5)
qed

theorem net_setup_descriptors_witness:
  "\<exists>r t p. net_setup lan_os stack0 ''/run/vm/net'' ps0 = (Ret r, t) \<and> held {#} (events t) = {#4, p#}"
proof -
  obtain r t where rt: "net_setup lan_os stack0 ''/run/vm/net'' ps0 = (Ret r, t)" "netc_fd r = 4"
    using net_setup_lan_os by blast
  from net_setup_descriptors [OF rt(1)] rt(2) obtain p where "held {#} (events t) = {#} + fdm 4 + {#p#}"
    by (auto simp: ps0_def)
  then have "held {#} (events t) = {#4, p#}" by (simp add: fdm_def add_mset_commute)
  with rt(1) show ?thesis by blast
qed

theorem net_setup_effects_witness:
  "\<exists>r t net. net_setup lan_os stack0 ''/run/vm/net'' ps0 = (Ret r, t) \<and>
     hd (done_ioctls (events t)) = SIOCBRADDBR (cstr (name_pid (stk_bridge stack0) ''br'' 42)) \<and>
     spawns (events t) = [add_net_command ''/run/vm/net'' net]"
proof -
  obtain r t where rt: "net_setup lan_os stack0 ''/run/vm/net'' ps0 = (Ret r, t)" "netc_fd r = 4"
    using net_setup_lan_os by blast
  from net_setup_effects [OF rt(1)] rt obtain net where
    "hd (done_ioctls (events t)) = SIOCBRADDBR (cstr (name_pid (stk_bridge stack0) ''br'' 42))"
    "spawns (events t) = [add_net_command ''/run/vm/net'' net]"
    by (auto simp: ps0_def sys_getpid_def lan_os_simps)
  with rt(1) show ?thesis by blast
qed

text \<open>The same environment, but an interface cannot be brought up.\<close>

definition no_up_os :: "unit os" where
  "no_up_os = lan_os\<lparr>os_getifflags := \<lambda>_ _ w. (Err EPERM, w)\<rparr>"

lemma net_setup_no_up:
  "\<exists>t1 t2. bridge_add no_up_os (name_pid (stk_bridge stack0) ''br'' 42) ps0 = (0, t1) \<and>
     if_up no_up_os (name_pid (stk_bridge stack0) ''br'' 42) t1 = (-1, t2)"
proof -
  let ?br = "name_pid (stk_bridge stack0) ''br'' 42"
  have c: "cstr ?br = ''br'' @ dec 42" by (rule cstr_name_pid) (simp_all add: fmt_eval IFNAMSIZ_def)
  have "length (cstr ?br) < IFNAMSIZ" unfolding c by (simp add: fmt_eval IFNAMSIZ_def)
  moreover have "CHR ''%'' \<notin> set (cstr ?br)" unfolding c by (simp add: is_digit_def)
  ultimately have "\<exists>t. bridge_add no_up_os ?br ps0 = (0, t)"
    by (simp add: bridge_add_def sys_eval lan_os_simps strnlen_def strchr_def no_up_os_def)
  moreover have "\<exists>t'. if_up no_up_os ?br t = (-1, t')" for t
    by (simp add: if_up_def sys_eval lan_os_simps no_up_os_def)
  ultimately show ?thesis by blast
qed

theorem net_setup_errno_lost_witness:
  "cerrno (snd (net_setup no_up_os stack0 ''/run/vm/net'' ps0)) = EBADF"
proof -
  obtain t1 t2 where t: "bridge_add no_up_os (name_pid (stk_bridge stack0) ''br'' 42) ps0 = (0, t1)"
    "if_up no_up_os (name_pid (stk_bridge stack0) ''br'' 42) t1 = (-1, t2)"
    using net_setup_no_up by blast
  have close: "fst (os_close no_up_os (-1) w) = Err EBADF" for w by (simp add: no_up_os_def lan_os_simps)
  have br: "name_pid (stk_bridge stack0) ''br'' 42 = name_pid (stk_bridge stack0) ''br'' (sys_getpid no_up_os ps0)"
    by (simp add: sys_getpid_def no_up_os_def lan_os_simps)
  from net_setup_errno_lost [OF close t disjI1 [OF refl] br, of "''/run/vm/net''"] show ?thesis
    by (cases "net_setup no_up_os stack0 ''/run/vm/net'' ps0") simp
qed


end
