(* ===== verification/NetNames.thy ===== *)
theory NetNames
  imports Net
begin

text \<open>
  \<open>host/start-vmm/net.c\<close>, continued: the interface names and MAC addresses derived from the
  process id, and what the exit listener does when the process it watches has died.
\<close>

section \<open>Names and addresses\<close>

lemma word_of_nat_u8_eq: "(word_of_nat a :: u8) = word_of_nat b \<longleftrightarrow> a mod 256 = b mod 256"
  by (simp add: word_of_nat_eq_iff take_bit_eq_mod)

text \<open>
  The MAC addresses of two processes are equal exactly when the process ids agree in their low
  16 bits, so they are distinct for the 16-bit process ids the code assumes; the router's and the
  client's addresses never coincide; and both are unicast and locally administered.
\<close>

lemma mac_addresses:
  "(router_mac p = router_mac q \<longleftrightarrow> p mod 65536 = q mod 65536) \<and>
   (client_mac p = client_mac q \<longleftrightarrow> p mod 65536 = q mod 65536) \<and>
   router_mac p \<noteq> client_mac q \<and>
   list_all (\<lambda>m. \<not> bit (hd (octets m)) 0 \<and> bit (hd (octets m)) 1) [router_mac p, client_mac p]"
proof -
  have split: "n mod 65536 = 256 * (n div 256 mod 256) + n mod 256" for n :: nat
    using mod_mult2_eq [of n 256 256] by simp
  have "x = x' \<and> y = y' \<longleftrightarrow> 256 * x + y = 256 * x' + y'" if "y < 256" "y' < 256" for x x' y y' :: nat
  proof -
    have "(256 * x + y) div 256 = x" "(256 * x' + y') div 256 = x'" using that by simp_all
    moreover have "(256 * x + y) mod 256 = y" "(256 * x' + y') mod 256 = y'" using that by simp_all
    ultimately show ?thesis by metis
  qed
  then have iff: "p div 256 mod 256 = q div 256 mod 256 \<and> p mod 256 = q mod 256 \<longleftrightarrow>
      p mod 65536 = q mod 65536"
    unfolding split [of p] split [of q] by simp
  show ?thesis
    unfolding iff [symmetric]
    by (auto simp: router_mac_def client_mac_def word_of_nat_u8_eq bit_word_iff_drop_bit_and)
qed

text \<open>
  For process ids below ten to the ninth, which covers every process id of Linux, the names of
  the bridge, the taps and the retired tap are the prefix followed by the process id: they are not
  truncated, do not depend on what the buffer held before, are accepted by the checks of
  net-util.c, and contain no comma, so they are safe in the argument of \<open>ch-remote add-net\<close>.
\<close>

lemma interface_names:
  assumes "pid < 10 ^ 9" and "prefix \<in> {''br'', ''client'', ''router'', ''_dead''}"
  shows "cstr (name_pid buf prefix pid) = prefix @ dec pid \<and>
    length (prefix @ dec pid) < IFNAMSIZ \<and> CHR ''%'' \<notin> set (prefix @ dec pid) \<and>
    CHR '','' \<notin> set (prefix @ dec pid)"
proof -
  have len: "length (dec pid) \<le> 9" using assms(1) by (intro length_dec_le) auto
  with assms(2) have l: "length (prefix @ dec pid) < IFNAMSIZ" by (auto simp: IFNAMSIZ_def)
  have "NUL \<notin> set prefix" using assms(2) by auto
  from cstr_name_pid [OF this l] l assms(2) show ?thesis by auto
qed

lemma interface_names_example:
  "cstr (name_pid (replicate 16 (CHR ''x'')) ''router'' 4194303) = ''router4194303''"
  using interface_names [of 4194303 "''router''" "replicate 16 (CHR ''x'')"]
  by (simp add: fmt_eval)

section \<open>The exit listener\<close>

definition interrupted :: "(16 word, errno) result \<Rightarrow> bool" where
  "interrupted r \<longleftrightarrow> r = Err EINTR \<or> r = Err EAGAIN"

text \<open>
  The exit listener's wait ends as soon as \<open>poll\<close> answers anything but an interruption: if
  the answers are interruptions \<open>n\<close> times and then something else, the loop returns that.
\<close>

lemma poll_loop_returns:
  assumes "\<And>k. w (Suc k) = snd (os_poll K fd (w k))" and "w 0 = world s"
    and "\<And>k. k < n \<Longrightarrow> interrupted (fst (os_poll K fd (w k)))"
    and "\<not> interrupted (fst (os_poll K fd (w n)))"
  shows "\<exists>t. poll_loop K fd s = Some (fst (os_poll K fd (w n)), t)"
  using assms
proof (induction n arbitrary: w s)
  case 0
  then show ?case
    by (subst poll_loop.simps)
       (auto simp: ask_def interrupted_def split: prod.splits result.splits)
next
  case (Suc n)
  obtain e where e: "fst (os_poll K fd (w 0)) = Err e" "e = EINTR \<or> e = EAGAIN"
    using Suc.prems(3) [of 0] by (auto simp: interrupted_def)
  let ?s = "set_errno e (snd (ask (os_poll K fd) (EvPoll fd) s))"
  have "world ?s = w 1"
    using Suc.prems(1) [of 0] Suc.prems(2) by (simp add: ask_def set_errno_def split: prod.splits)
  then have "\<exists>t. poll_loop K fd ?s = Some (fst (os_poll K fd (w (Suc n))), t)"
  proof (intro Suc.IH [of "\<lambda>k. w (Suc k)"])
    show "w (Suc (Suc k)) = snd (os_poll K fd (w (Suc k)))" for k by (rule Suc.prems(1))
    show "interrupted (fst (os_poll K fd (w (Suc k))))" if "k < n" for k
      using that by (intro Suc.prems(3)) simp
    show "\<not> interrupted (fst (os_poll K fd (w (Suc n))))" by (rule Suc.prems(4))
  qed simp
  moreover have "poll_loop K fd s = poll_loop K fd ?s"
    using e Suc.prems(2)
    by (subst poll_loop.simps) (auto simp: ask_def split: prod.splits)
  ultimately show ?case by simp
qed

lemma poll_loop_returns_example:
  "\<exists>t. poll_loop (refusing_os\<lparr>os_poll := \<lambda>_ w. (if w < (2 :: nat) then Err EINTR else Ok POLLERR, Suc w)\<rparr>) 5
     \<lparr>world = 0, cerrno = 0, events = []\<rparr> = Some (Ok POLLERR, t)"
  using poll_loop_returns [of "\<lambda>k. k"
      "refusing_os\<lparr>os_poll := \<lambda>_ w. (if w < (2 :: nat) then Err EINTR else Ok POLLERR, Suc w)\<rparr>" 5
      "\<lparr>world = 0, cerrno = 0, events = []\<rparr>" 2]
  by (simp add: interrupted_def)

lemma sys_close_ioctl_log:
  "sys_ioctl K fd q s = (r, t) \<Longrightarrow> \<exists>x. events t = events s @ [EvIoctl (nat fd) q x] \<and> (r = -1 \<or> x = Ok ())"
  by (auto simp: sys_eval split: prod.splits result.splits)

lemma bridge_delete_done:
  assumes "bridge_delete K n s = (r, t)" "r \<noteq> -1"
  shows "\<exists>evs. events t = events s @ evs \<and> SIOCBRDELBR (cstr n) \<in> set (done_ioctls evs)"
proof -
  obtain d s1 where 1: "if_down K n s = (d, s1)" by force
  from if_down.log_grows [of K n s] 1 obtain e1 where e1: "events s1 = events s @ e1" by auto
  let ?s1 = "if d = -1 then c_warn (''setting '' @ cstr n @ '' down'') s1 else s1"
  obtain e1' where e1': "events ?s1 = events s1 @ e1'"
    by (cases "d = -1") (auto simp: c_warn_def emit_def)
  obtain fd s2 where 2: "sys_socket K ?s1 = (fd, s2)" by force
  from sys_socket.log_grows [of K ?s1] 2 obtain e2 where e2: "events s2 = events ?s1 @ e2" by auto
  obtain r' s3 where 3: "sys_ioctl K fd (SIOCBRDELBR (cstr n)) s2 = (r', s3)" by force
  obtain c s4 where 4: "sys_close K fd s3 = (c, s4)" by force
  have eq: "fd \<noteq> -1" "r' = r" "t = s4"
    using assms 1 2 3 4 by (auto simp: bridge_delete_def split: if_splits)
  from sys_close_ioctl_log [OF 3] eq assms(2) have
    "events s3 = events s2 @ [EvIoctl (nat fd) (SIOCBRDELBR (cstr n)) (Ok ())]" by auto
  with e1 e1' e2 sys_close_log [OF 4] eq show ?thesis by auto
qed

lemma remove_device_c_log:
  "\<exists>evs. events (snd (remove_device_c K d i s)) = events s @ evs \<and>
     spawns evs = [remove_device_command d (cstr i)]"
  by (auto simp: remove_device_c_def remove_device_def ch_sys split: prod.splits result.splits if_splits)

lemma router_net_cleanup_log:
  "\<exists>evs. events (snd (router_net_cleanup K stk pid d i s)) = events s @ evs \<and>
     spawns evs = [remove_device_command d (cstr i)] \<and>
     (fst (router_net_cleanup K stk pid d i s) \<noteq> -1 \<longrightarrow>
        SIOCSIFNAME (strncpy (name_pid (stk_name stk) ''router'' pid) IFNAMSIZ)
          (strncpy (name_pid (stk_newname stk) ''_dead'' pid) IFNAMSIZ) \<in> set (done_ioctls evs))"
proof -
  let ?n = "name_pid (stk_name stk) ''router'' pid" and ?m = "name_pid (stk_newname stk) ''_dead'' pid"
    and ?b = "name_pid (stk_brname stk) ''br'' pid"
  obtain e s1 where 1: "remove_device_c K d i s = (e, s1)" by force
  from remove_device_c_log [of K d i s] 1 obtain e1 where
    e1: "events s1 = events s @ e1" "spawns e1 = [remove_device_command d (cstr i)]" by auto
  obtain r s2 where 2: "bridge_remove_if K ?b ?n s1 = (r, s2)" by force
  from bridge_remove_if_a.atomic [of K ?b ?n s1] 2 obtain e2 where
    e2: "events s2 = events s1 @ e2" "spawns e2 = []" by auto
  let ?s2 = "if r = -1 then c_warn (''removing '' @ cstr ?n @ '' from '' @ cstr ?b) s2 else s2"
  obtain e2' where e2': "events ?s2 = events s2 @ e2'" "spawns e2' = []"
    by (cases "r = -1") (auto simp: c_warn_def emit_def)
  obtain dn s3 where 3: "if_down K ?n ?s2 = (dn, s3)" by force
  from if_down_a.atomic [of K ?n ?s2] 3 obtain e3 where
    e3: "events s3 = events ?s2 @ e3" "spawns e3 = []" by auto
  obtain rn s4 where 4: "if_rename K ?n ?m s3 = (rn, s4)" by force
  from if_rename_a.atomic [of K ?n ?m s3] 4 obtain e4 where
    e4: "events s4 = events s3 @ e4" "spawns e4 = []"
      "rn \<noteq> -1 \<longrightarrow> done_ioctls e4 = [SIOCSIFNAME (strncpy ?n IFNAMSIZ) (strncpy ?m IFNAMSIZ)]" by auto
  consider "e \<noteq> 0" | "e = 0" "dn = -1" | "e = 0" "dn \<noteq> -1" by blast
  then show ?thesis
  proof cases
    case 1
    with \<open>remove_device_c K d i s = (e, s1)\<close> e1 show ?thesis
      by (simp add: router_net_cleanup_def set_errno_def)
  next
    case 2
    then have "router_net_cleanup K stk pid d i s = (-1, s3)"
      using 1 \<open>bridge_remove_if K ?b ?n s1 = (r, s2)\<close> 3 by (simp add: router_net_cleanup_def Let_def)
    with e1 e2 e2' e3 show ?thesis by simp
  next
    case 3
    then have "router_net_cleanup K stk pid d i s = (rn, s4)"
      using 1 2 \<open>if_down K ?n ?s2 = (dn, s3)\<close> 4 by (simp add: router_net_cleanup_def Let_def)
    with e1 e2 e2' e3 e4 show ?thesis by auto
  qed
qed



end
