(* ===== verification/VmConfig.thy ===== *)
theory VmConfig
  imports NetNames
begin

text \<open>
  \<open>vm_config\<close> of \<open>host/start-vmm/lib.rs\<close>: from the directory of a VM to the configuration of
  its Cloud Hypervisor instance. The iterator chains of the source are lazy and stop at the first
  error or panic; the fields of the configuration are computed in the order they are written.
  A directory listing is one answer of the kernel (\<open>read_dir\<close>): the list of names, or errors,
  the iteration yields. The target architecture, which selects the kernel command line when the
  program is built, is the argument \<open>x86_64\<close>.
\<close>

section \<open>Definitions\<close>

text \<open>\<open>collect::<Result<Vec<_>, _>>\<close> over items that may panic.\<close>

fun collect_out :: "('a, 'e) result outcome list \<Rightarrow> ('a list, 'e) result outcome" where
  "collect_out [] = Ret (Ok [])"
| "collect_out (Ret (Ok a) # xs) =
     (case collect_out xs of Ret (Ok as) \<Rightarrow> Ret (Ok (a # as)) | r \<Rightarrow> r)"
| "collect_out (Ret (Err e) # xs) = Ret (Err e)"
| "collect_out (Panic # xs) = Panic"
| "collect_out (Exit n # xs) = Exit n"
| "collect_out (Diverge # xs) = Diverge"

text \<open>The same, with items that are computed by requests.\<close>

fun collect_st ::
    "('i \<Rightarrow> 'w ps \<Rightarrow> ('a, 'e) result outcome \<times> 'w ps) \<Rightarrow> 'i list \<Rightarrow> 'w ps \<Rightarrow>
     ('a list, 'e) result outcome \<times> 'w ps" where
  "collect_st f [] s = (Ret (Ok []), s)"
| "collect_st f (i # items) s =
     (case f i s of (r, s) \<Rightarrow>
       (case r of
          Ret (Ok a) \<Rightarrow>
            (case collect_st f items s of (rs, s) \<Rightarrow>
               (case rs of Ret (Ok as) \<Rightarrow> Ret (Ok (a # as)) | q \<Rightarrow> q, s))
        | Ret (Err e) \<Rightarrow> (Ret (Err e), s)
        | Panic \<Rightarrow> (Panic, s)
        | Exit n \<Rightarrow> (Exit n, s)
        | Diverge \<Rightarrow> (Diverge, s)))"

definition read_dir ::
    "'w os \<Rightarrow> path \<Rightarrow> 'w ps \<Rightarrow> ((bytes, io_error) result list, io_error) result \<times> 'w ps" where
  "read_dir K p s = ask (os_read_dir K p) (EvReadDir p) s"

text \<open>The three closures of the \<open>disks\<close> iterator.\<close>

definition entry_path :: "path \<Rightarrow> (bytes, io_error) result \<Rightarrow> (path, vmm_error) result" where
  "entry_path dir r = (case r of Ok name \<Rightarrow> Ok (join dir name) | Err e \<Rightarrow> Err (ExaminingDirEntry e))"

definition keep_entry :: "(path, vmm_error) result \<Rightarrow> bool" where
  "keep_entry r = (case r of Ok entry \<Rightarrow> extension entry = Some ''img'' | Err _ \<Rightarrow> True)"

definition disk_of :: "(path, vmm_error) result \<Rightarrow> (disk_config, vmm_error) result outcome" where
  "disk_of r =
     (case r of
        Err e \<Rightarrow> Ret (Err e)
      | Ok p \<Rightarrow>
         (case to_str p of
            None \<Rightarrow> Panic
          | Some entry \<Rightarrow>
              if CHR '','' \<in> set entry then Ret (Err (IllegalComma entry))
              else Ret (Ok \<lparr>disk_path = entry, disk_readonly = True\<rparr>)))"

definition disks :: "path \<Rightarrow> (bytes, io_error) result list \<Rightarrow> (disk_config list, vmm_error) result outcome" where
  "disks blk_dir entries = collect_out (map disk_of (filter keep_entry (map (entry_path blk_dir) entries)))"

text \<open>The closure of the \<open>net\<close> iterator.\<close>

definition net_provider ::
    "'w os \<Rightarrow> stack \<Rightarrow> path \<Rightarrow> (bytes, io_error) result \<Rightarrow> 'w ps \<Rightarrow>
     (net_config, vmm_error) result outcome \<times> 'w ps" where
  "net_provider K stk vm_dir result s =
     (case result of
        Err e \<Rightarrow> (Ret (Err (ExaminingDirEntry e)), s)
      | Ok name \<Rightarrow>
         (case to_str name of
            None \<Rightarrow> (Ret (Err (ProviderNotUtf8 name)), s)
          | Some provider_name \<Rightarrow>
             (case parent vm_dir of
                None \<Rightarrow> (Panic, s)
              | Some dir \<Rightarrow>
                 (case net_setup K stk (join dir provider_name) s of (q, s) \<Rightarrow>
                   (case q of
                      Ret net \<Rightarrow>
                        if netc_fd net = -1 then (Ret (Err (NetSetupFailed (last_os_error s))), s)
                        else
                          (case try_from net of
                             Err _ \<Rightarrow> (Panic, s)
                           | Ok n \<Rightarrow> (Ret (Ok n), s))
                    | Panic \<Rightarrow> (Panic, s)
                    | Exit n \<Rightarrow> (Exit n, s)
                    | Diverge \<Rightarrow> (Diverge, s))))))"

definition net_devices ::
    "'w os \<Rightarrow> stack \<Rightarrow> path \<Rightarrow> path \<Rightarrow> 'w ps \<Rightarrow> (net_config list, vmm_error) result outcome \<times> 'w ps" where
  "net_devices K stk vm_dir net_providers_dir s =
     (case read_dir K net_providers_dir s of
        (Ok entries, s) \<Rightarrow> collect_st (net_provider K stk vm_dir) (take 1 entries) s
      | (Err e, s) \<Rightarrow>
          if err_kind e = NotFound then (Ret (Ok []), s)
          else (Ret (Err (ReadingDir net_providers_dir e)), s))"

definition cmdline :: "bool \<Rightarrow> bytes" where
  "cmdline x86_64 = (if x86_64 then ''console=ttyS0 root=PARTLABEL=root'' else ''root=PARTLABEL=root'')"

definition vm_config ::
    "'w os \<Rightarrow> bool \<Rightarrow> stack \<Rightarrow> path \<Rightarrow> 'w ps \<Rightarrow> (vm_config, vmm_error) result outcome \<times> 'w ps" where
  "vm_config K x86_64 stk vm_dir s =
     (case file_name vm_dir of
        None \<Rightarrow> (Panic, s)
      | Some f \<Rightarrow>
     (case to_str f of
        None \<Rightarrow> (Ret (Err (VmDirNotUtf8 vm_dir)), s)
      | Some vm_name \<Rightarrow>
     if CHR '':'' \<in> set vm_name then (Ret (Err (VmNameColon vm_name)), s)
     else
       let config_dir = join vm_dir ''config'';
           blk_dir = join config_dir ''blk'';
           kernel_path = join config_dir ''vmlinux'';
           net_providers_dir = join config_dir ''providers/net''
       in
     (case read_dir K blk_dir s of
        (Err e, s) \<Rightarrow> (Ret (Err (ReadingDir blk_dir e)), s)
      | (Ok entries, s) \<Rightarrow>
     (case disks blk_dir entries of
        Panic \<Rightarrow> (Panic, s) | Exit n \<Rightarrow> (Exit n, s) | Diverge \<Rightarrow> (Diverge, s)
      | Ret (Err e) \<Rightarrow> (Ret (Err e), s)
      | Ret (Ok ds) \<Rightarrow>
     (case net_devices K stk vm_dir net_providers_dir s of (q, s) \<Rightarrow>
     (case q of
        Panic \<Rightarrow> (Panic, s) | Exit n \<Rightarrow> (Exit n, s) | Diverge \<Rightarrow> (Diverge, s)
      | Ret (Err e) \<Rightarrow> (Ret (Err e), s)
      | Ret (Ok nets) \<Rightarrow>
     (case to_str kernel_path of
        None \<Rightarrow> (Panic, s)
      | Some kernel_str \<Rightarrow>
     (case to_str (join vm_dir ''vsock'') of
        None \<Rightarrow> (Panic, s)
      | Some vsock \<Rightarrow>
         (Ret (Ok \<lparr>
            cfg_console = \<lparr>console_mode = ''Pty'', console_file = None\<rparr>,
            cfg_disks = ds,
            cfg_fs = \<lparr>fs_socket = ''/run/service/vhost-user-fs/instance/'' @ vm_name @ ''/env/virtiofsd.sock'',
                      fs_tag = ''virtiofs0''\<rparr>,
            cfg_gpu = [\<lparr>gpu_socket = ''/run/service/vhost-user-gpu/instance/'' @ vm_name @ ''/env/crosvm.sock''\<rparr>],
            cfg_memory = \<lparr>mem_size = 2 ^ 30, mem_shared = True\<rparr>,
            cfg_net = nets,
            cfg_payload = \<lparr>payload_kernel = kernel_str, payload_cmdline = cmdline x86_64\<rparr>,
            cfg_serial = \<lparr>console_mode = ''File'', console_file = Some (''/run/'' @ vm_name @ ''.log'')\<rparr>,
            cfg_vsock = \<lparr>vsock_cid = 3, vsock_socket = vsock\<rparr>\<rparr>), s)))))))))"

section \<open>Disks\<close>

lemma collect_out_Ok: "collect_out rs = Ret (Ok xs) \<longleftrightarrow> rs = map (\<lambda>x. Ret (Ok x)) xs"
proof (induction rs arbitrary: xs rule: collect_out.induct)
  case (2 a rs)
  have "collect_out (Ret (Ok a) # rs) = Ret (Ok xs) \<longleftrightarrow> (\<exists>ys. xs = a # ys \<and> collect_out rs = Ret (Ok ys))"
    by (auto split: outcome.splits result.splits)
  with 2 show ?case by (auto simp: Cons_eq_map_conv)
qed auto

definition is_disk :: "path \<Rightarrow> bytes \<Rightarrow> bool" where
  "is_disk dir n \<longleftrightarrow> extension (join dir n) = Some ''img''"

definition disk_at :: "path \<Rightarrow> bytes \<Rightarrow> disk_config" where
  "disk_at dir n = \<lparr>disk_path = join dir n, disk_readonly = True\<rparr>"

definition good_disk :: "path \<Rightarrow> bytes \<Rightarrow> bool" where
  "good_disk dir n \<longleftrightarrow> utf8_valid (join dir n) \<and> CHR '','' \<notin> set (join dir n)"

lemma disk_of_Ok: "disk_of r = Ret (Ok d) \<longleftrightarrow>
    (\<exists>p. r = Ok p \<and> utf8_valid p \<and> CHR '','' \<notin> set p \<and> d = \<lparr>disk_path = p, disk_readonly = True\<rparr>)"
  by (auto simp: disk_of_def to_str_def split: result.splits option.splits if_splits)

lemma ok_names: "(\<exists>names. Ok n # entries = map Ok names \<and> P names) \<longleftrightarrow> (\<exists>names. entries = map Ok names \<and> P (n # names))"
  by (auto simp: Cons_eq_map_conv)

lemma disks_Ok: "disks dir entries = Ret (Ok ds) \<longleftrightarrow>
    (\<exists>names. entries = map Ok names \<and> (\<forall>n \<in> set names. is_disk dir n \<longrightarrow> good_disk dir n) \<and>
       ds = map (disk_at dir) (filter (is_disk dir) names))"
proof (induction entries arbitrary: ds)
  case (Cons r entries)
  show ?case
  proof (cases r)
    case (Err e)
    then show ?thesis by (auto simp: disks_def entry_path_def keep_entry_def disk_of_def)
  next
    case (Ok n)
    then have d: "disks dir (r # entries) = (if is_disk dir n then
        collect_out (disk_of (Ok (join dir n)) # map disk_of (filter keep_entry (map (entry_path dir) entries)))
        else disks dir entries)"
      by (simp add: disks_def entry_path_def keep_entry_def is_disk_def)
    show ?thesis
    proof (cases "is_disk dir n")
      case False
      with d Cons.IH show ?thesis unfolding Ok by (simp add: ok_names)
    next
      case True
      have "disks dir (r # entries) = Ret (Ok ds) \<longleftrightarrow>
          (\<exists>ds'. good_disk dir n \<and> ds = disk_at dir n # ds' \<and> disks dir entries = Ret (Ok ds'))"
        unfolding d unfolding disks_def using True
        by (auto simp: collect_out_Ok Cons_eq_map_conv disk_of_Ok good_disk_def disk_at_def)
      with Cons.IH True show ?thesis unfolding Ok by (auto simp: ok_names)
    qed
  qed
qed (auto simp: disks_def)

lemma disks_total:
  assumes "\<forall>n \<in> set names. is_disk dir n \<longrightarrow> good_disk dir n"
  shows "disks dir (map Ok names) = Ret (Ok (map (disk_at dir) (filter (is_disk dir) names)))"
  using assms by (auto simp: disks_Ok)

section \<open>Network devices\<close>

lemma net_provider_Ok:
  assumes "net_provider K stk vm_dir r s = (Ret (Ok n), t)"
  shows "\<exists>name dir net. r = Ok name \<and> utf8_valid name \<and> parent vm_dir = Some dir \<and>
    net_setup K stk (join dir name) s = (Ret net, t) \<and> netc_fd net \<noteq> -1 \<and> try_from net = Ok n"
  using assms
  by (auto simp: net_provider_def to_str_def split: result.splits option.splits if_splits prod.splits outcome.splits)

lemma collect_st_Nil: "collect_st f [] = (\<lambda>s. (Ret (Ok []), s))"
  by auto

lemma collect_st_single: "collect_st f [i] s = (case f i s of (r, t) \<Rightarrow>
    (case r of Ret (Ok a) \<Rightarrow> Ret (Ok [a]) | Ret (Err e) \<Rightarrow> Ret (Err e) | Panic \<Rightarrow> Panic
      | Exit n \<Rightarrow> Exit n | Diverge \<Rightarrow> Diverge, t))"
  by (auto split: prod.splits outcome.splits result.splits)

lemma net_devices_Ok:
  assumes "net_devices K stk vm_dir d s = (Ret (Ok nets), t)"
  shows "(nets = [] \<and> (\<exists>q. events t = events s @ [EvReadDir d q])) \<or>
    (\<exists>u n name es dir net. nets = [n] \<and> read_dir K d s = (Ok (Ok name # es), u) \<and>
       utf8_valid name \<and> parent vm_dir = Some dir \<and>
       net_setup K stk (join dir name) u = (Ret net, t) \<and> netc_fd net \<noteq> -1 \<and> try_from net = Ok n)"
proof -
  obtain q u where qu: "read_dir K d s = (q, u)" by force
  then have ev: "events u = events s @ [EvReadDir d q]" by (auto simp: read_dir_def ask_def split: prod.splits)
  show ?thesis
  proof (cases q)
    case (Err e)
    with assms qu ev show ?thesis by (auto simp: net_devices_def split: if_splits)
  next
    case (Ok entries)
    show ?thesis
    proof (cases entries)
      case Nil
      with assms qu ev Ok show ?thesis by (auto simp: net_devices_def)
    next
      case (Cons i rest)
      obtain r v where rv: "net_provider K stk vm_dir i u = (r, v)" by force
      with assms qu Ok Cons obtain n where "r = Ret (Ok n)" "nets = [n]" "v = t"
        by (auto simp: net_devices_def collect_st_single split: outcome.splits result.splits)
      with net_provider_Ok [of K stk vm_dir i u n t] rv qu Ok Cons show ?thesis by fastforce
    qed
  qed
qed

section \<open>Descriptors\<close>

interpretation read_dir: fd_op "read_dir K p" "{#}" "\<lambda>_. {{#}}" for K p
  unfolding read_dir_def by (rule fd_op_ask_none) (simp_all add: fd_opened_def fd_closed_def)

text \<open>A network device holds its tap and the read end of the pipe to its listener.\<close>

definition dev_gain :: "(net_config, 'e) result \<Rightarrow> nat multiset set" where
  "dev_gain r = (case r of Ok n \<Rightarrow> range (\<lambda>p. fdm (net_fd n) + {#p#}) | Err _ \<Rightarrow> {{#}})"

definition devs_gain :: "(net_config list, 'e) result \<Rightarrow> nat multiset set" where
  "devs_gain r = (case r of Ok [] \<Rightarrow> {{#}} | Ok [n] \<Rightarrow> dev_gain (Ok n :: (net_config, 'e) result)
     | Ok _ \<Rightarrow> {} | Err _ \<Rightarrow> {{#}})"

lemma net_provider_fd_op: "fd_op (net_provider K stk vm_dir r) {#} (ret_gain dev_gain)"
proof -
  have ok: "fd_op (\<lambda>s. if netc_fd net = -1 then (Ret (Err (NetSetupFailed (last_os_error s))), s)
      else (case try_from net of Err _ \<Rightarrow> (Panic, s) | Ok n \<Rightarrow> (Ret (Ok n), s))) D (ret_gain dev_gain)"
    if "D \<in> net_gain net" for net D
    using that by unfold_locales
      (auto simp: net_gain_def dev_gain_def try_from_def Let_def split: result.splits if_splits)
  have "fd_op (\<lambda>s. case net_setup K stk d s of (q, s) \<Rightarrow>
      (case q of
         Ret net \<Rightarrow> if netc_fd net = -1 then (Ret (Err (NetSetupFailed (last_os_error s))), s)
           else (case try_from net of Err _ \<Rightarrow> (Panic, s) | Ok n \<Rightarrow> (Ret (Ok n), s))
       | Panic \<Rightarrow> (Panic, s) | Exit n \<Rightarrow> (Exit n, s) | Diverge \<Rightarrow> (Diverge, s))) {#} (ret_gain dev_gain)" for d
    by (intro fd_op_bind [OF net_setup.fd_op_axioms] fd_op_outcome ok fd_op_return) simp_all
  then show ?thesis
    unfolding net_provider_def
    by (cases r; cases "parent vm_dir") (auto simp: to_str_def dev_gain_def intro: fd_op_return)
qed

interpretation net_devices: fd_op "net_devices K stk vm_dir d" "{#}" "ret_gain devs_gain" for K stk vm_dir d
proof -
  have one: "fd_op (collect_st (net_provider K stk vm_dir) [i]) {#} (ret_gain devs_gain)" for i
  proof -
    have "fd_op (\<lambda>s. (\<lambda>(r, t). (case r of Ret (Ok a) \<Rightarrow> Ret (Ok [a]) | Ret (Err e) \<Rightarrow> Ret (Err e) | Panic \<Rightarrow> Panic
      | Exit n \<Rightarrow> Exit n | Diverge \<Rightarrow> Diverge, t)) (net_provider K stk vm_dir i s)) {#} (ret_gain devs_gain)"
      by (rule fd_op_map [OF net_provider_fd_op])
         (auto simp: devs_gain_def dev_gain_def split: outcome.splits result.splits)
    then show ?thesis by (simp only: collect_st_single [abs_def])
  qed
  have "fd_op (collect_st (net_provider K stk vm_dir) (take 1 entries)) {#} (ret_gain devs_gain)" for entries
    using one by (cases entries) (auto simp: devs_gain_def collect_st_Nil intro: fd_op_return)
  then show "fd_op (net_devices K stk vm_dir d) {#} (ret_gain devs_gain)"
    unfolding net_devices_def
    by (intro fd_op_bind_res [OF read_dir.fd_op_axioms] fd_op_if fd_op_return) (simp_all add: devs_gain_def)
qed

section \<open>What a returned configuration satisfies\<close>

text \<open>The stages of \<open>vm_config\<close> on the way to a configuration.\<close>

definition config_fields :: "bool \<Rightarrow> path \<Rightarrow> bytes \<Rightarrow> vm_config \<Rightarrow> bool" where
  "config_fields x86_64 vm_dir name cfg \<longleftrightarrow>
     cfg_console cfg = \<lparr>console_mode = ''Pty'', console_file = None\<rparr> \<and>
     cfg_fs cfg = \<lparr>fs_socket = ''/run/service/vhost-user-fs/instance/'' @ name @ ''/env/virtiofsd.sock'',
                   fs_tag = ''virtiofs0''\<rparr> \<and>
     cfg_gpu cfg = [\<lparr>gpu_socket = ''/run/service/vhost-user-gpu/instance/'' @ name @ ''/env/crosvm.sock''\<rparr>] \<and>
     cfg_memory cfg = \<lparr>mem_size = 2 ^ 30, mem_shared = True\<rparr> \<and>
     cfg_payload cfg = \<lparr>payload_kernel = join (join vm_dir ''config'') ''vmlinux'', payload_cmdline = cmdline x86_64\<rparr> \<and>
     cfg_serial cfg = \<lparr>console_mode = ''File'', console_file = Some (''/run/'' @ name @ ''.log'')\<rparr> \<and>
     cfg_vsock cfg = \<lparr>vsock_cid = 3, vsock_socket = join vm_dir ''vsock''\<rparr>"

lemma vm_config_Ok:
  assumes "vm_config K x86_64 stk vm_dir s = (Ret (Ok cfg), t)"
  defines "blk \<equiv> join (join vm_dir ''config'') ''blk''"
  obtains name entries u where "file_name vm_dir = Some name" "utf8_valid name" "CHR '':'' \<notin> set name"
    "read_dir K blk s = (Ok entries, u)" "disks blk entries = Ret (Ok (cfg_disks cfg))"
    "net_devices K stk vm_dir (join (join vm_dir ''config'') ''providers/net'') u = (Ret (Ok (cfg_net cfg)), t)"
    "utf8_valid (join (join vm_dir ''config'') ''vmlinux'')" "utf8_valid (join vm_dir ''vsock'')"
    "config_fields x86_64 vm_dir name cfg"
proof -
  obtain name where 1: "file_name vm_dir = Some name" "utf8_valid name" "CHR '':'' \<notin> set name"
    using assms(1) by (auto simp: vm_config_def to_str_def split: option.splits if_splits)
  obtain r u where 2: "read_dir K blk s = (r, u)" by force
  obtain entries where 3: "r = Ok entries"
    using assms(1) 1 2 by (cases r) (auto simp: vm_config_def to_str_def Let_def blk_def)
  obtain ds where 4: "disks blk entries = Ret (Ok ds)"
    using assms(1) 1 2 3
    by (auto simp: vm_config_def to_str_def Let_def blk_def split: outcome.splits result.splits)
  obtain q v where 5: "net_devices K stk vm_dir (join (join vm_dir ''config'') ''providers/net'') u = (q, v)"
    by force
  obtain nets where 6: "q = Ret (Ok nets)"
    using assms(1) 1 2 3 4 5
    by (auto simp: vm_config_def to_str_def Let_def blk_def split: outcome.splits result.splits)
  have 7: "utf8_valid (join (join vm_dir ''config'') ''vmlinux'')" "utf8_valid (join vm_dir ''vsock'')"
    using assms(1) 1 2 3 4 5 6
    by (auto simp: vm_config_def to_str_def Let_def blk_def split: if_splits)
  have 8: "v = t" "cfg_disks cfg = ds" "cfg_net cfg = nets"
    using assms(1) 1 2 3 4 5 6 7 by (auto simp: vm_config_def to_str_def Let_def blk_def)
  show thesis
    by (rule that [of name entries u])
       (use assms(1) 1 2 3 4 5 6 7 8 in \<open>auto simp: vm_config_def to_str_def Let_def blk_def config_fields_def\<close>)
qed

text \<open>
  C3. A configuration that \<open>vm_config\<close> returns describes the directory it was made from. The name of
  the VM is the last component of the directory; it has no colon and names the sockets and the log file. The disks are exactly
  the entries of \<open>config/blk\<close> with the extension \<open>img\<close>, in the order of the listing, every one of them read-only and
  without a comma in its path, and there is at most one network device.
\<close>

theorem vm_config_sound:
  assumes "vm_config K x86_64 stk vm_dir s = (Ret (Ok cfg), t)"
  defines "blk \<equiv> join (join vm_dir ''config'') ''blk''"
  shows "\<exists>name names. file_name vm_dir = Some name \<and> CHR '':'' \<notin> set name \<and>
    fst (os_read_dir K blk (world s)) = Ok (map Ok names) \<and>
    map disk_path (cfg_disks cfg) = map (join blk) (filter (\<lambda>n. extension (join blk n) = Some ''img'') names) \<and>
    (\<forall>d \<in> set (cfg_disks cfg). disk_readonly d \<and> CHR '','' \<notin> set (disk_path d)) \<and>
    length (cfg_net cfg) \<le> 1 \<and>
    fs_socket (cfg_fs cfg) = ''/run/service/vhost-user-fs/instance/'' @ name @ ''/env/virtiofsd.sock'' \<and>
    map gpu_socket (cfg_gpu cfg) = [''/run/service/vhost-user-gpu/instance/'' @ name @ ''/env/crosvm.sock''] \<and>
    console_file (cfg_serial cfg) = Some (''/run/'' @ name @ ''.log'') \<and>
    payload_kernel (cfg_payload cfg) = join (join vm_dir ''config'') ''vmlinux'' \<and>
    vsock_socket (cfg_vsock cfg) = join vm_dir ''vsock''"
proof -
  obtain name entries u where
    1: "file_name vm_dir = Some name" "utf8_valid name" "CHR '':'' \<notin> set name"
    and rd: "read_dir K blk s = (Ok entries, u)" and ds: "disks blk entries = Ret (Ok (cfg_disks cfg))"
    and nets: "net_devices K stk vm_dir (join (join vm_dir ''config'') ''providers/net'') u = (Ret (Ok (cfg_net cfg)), t)"
    and v: "utf8_valid (join (join vm_dir ''config'') ''vmlinux'')" "utf8_valid (join vm_dir ''vsock'')"
    and cfg: "config_fields x86_64 vm_dir name cfg"
    by (rule vm_config_Ok [OF assms(1), folded blk_def])
  from ds obtain names where n: "entries = map Ok names"
    "\<forall>n \<in> set names. is_disk blk n \<longrightarrow> good_disk blk n"
    "cfg_disks cfg = map (disk_at blk) (filter (is_disk blk) names)" by (auto simp: disks_Ok)
  have "fst (os_read_dir K blk (world s)) = Ok (map Ok names)"
    using rd n(1) by (auto simp: read_dir_def ask_def split: prod.splits)
  moreover have "map disk_path (cfg_disks cfg) = map (join blk) (filter (\<lambda>n. extension (join blk n) = Some ''img'') names)"
    unfolding n(3) by (simp add: disk_at_def is_disk_def [abs_def] comp_def)
  moreover have "\<forall>d \<in> set (cfg_disks cfg). disk_readonly d \<and> CHR '','' \<notin> set (disk_path d)"
    unfolding n(3) using n(2) by (auto simp: disk_at_def good_disk_def)
  moreover have "length (cfg_net cfg) \<le> 1" using net_devices_Ok [OF nets] by auto
  moreover have "fs_socket (cfg_fs cfg) = ''/run/service/vhost-user-fs/instance/'' @ name @ ''/env/virtiofsd.sock''"
    "map gpu_socket (cfg_gpu cfg) = [''/run/service/vhost-user-gpu/instance/'' @ name @ ''/env/crosvm.sock'']"
    "console_file (cfg_serial cfg) = Some (''/run/'' @ name @ ''.log'')"
    "payload_kernel (cfg_payload cfg) = join (join vm_dir ''config'') ''vmlinux''"
    "vsock_socket (cfg_vsock cfg) = join vm_dir ''vsock''"
    using cfg by (simp_all add: config_fields_def)
  ultimately show ?thesis using 1 by (intro exI [of _ name] exI [of _ names] conjI)
qed

text \<open>The strings of a configuration are Rust \<open>String\<close>s: valid UTF-8.\<close>

definition config_utf8 :: "vm_config \<Rightarrow> bool" where
  "config_utf8 cfg \<longleftrightarrow>
     list_all (\<lambda>d. utf8_valid (disk_path d)) (cfg_disks cfg) \<and>
     utf8_valid (fs_socket (cfg_fs cfg)) \<and> utf8_valid (fs_tag (cfg_fs cfg)) \<and>
     list_all (\<lambda>g. utf8_valid (gpu_socket g)) (cfg_gpu cfg) \<and>
     list_all (\<lambda>n. utf8_valid (net_id n)) (cfg_net cfg) \<and>
     utf8_valid (payload_kernel (cfg_payload cfg)) \<and> utf8_valid (payload_cmdline (cfg_payload cfg)) \<and>
     list_all utf8_valid (console_mode (cfg_console cfg) # console_mode (cfg_serial cfg) #
       (case console_file (cfg_serial cfg) of None \<Rightarrow> [] | Some f \<Rightarrow> [f])) \<and>
     utf8_valid (vsock_socket (cfg_vsock cfg))"

lemma utf8_valid_lit: "list_all ascii a \<Longrightarrow> list_all ascii b \<Longrightarrow> utf8_valid n \<Longrightarrow> utf8_valid (a @ n @ b)"
  by (simp add: utf8_valid_append utf8_valid_ascii)


section \<open>What vm_config makes of a directory\<close>

lemma read_dir_Ok: "fst (os_read_dir K p (world s)) = q \<Longrightarrow> \<exists>u. read_dir K p s = (q, u)"
  by (auto simp: read_dir_def ask_def split: prod.splits)

lemma plain_literals [simp]: "\<not> is_absolute ''config''" "\<not> is_absolute ''blk''" "\<not> is_absolute ''vmlinux''"
    "\<not> is_absolute ''vsock''" "\<not> is_absolute ''providers/net''"
  by (simp_all add: is_absolute_def has_root_def)

lemma utf8_literals: "utf8_valid ''config''" "utf8_valid ''blk''" "utf8_valid ''vmlinux''" "utf8_valid ''vsock''"
  by (simp_all add: ascii_def)

lemma vm_config_runs:
  assumes name: "plain_name name" "utf8_valid name" "CHR '':'' \<notin> set name" and base: "utf8_valid base"
    and blk: "blk = join (join (join base name) ''config'') ''blk''"
      "fst (os_read_dir K blk (world s)) = Ok (map Ok names)"
      "\<forall>n \<in> set names. is_disk blk n \<longrightarrow> utf8_valid n \<and> CHR '','' \<notin> set (join blk n)"
    and net: "\<And>w. \<exists>e. fst (os_read_dir K (join (join (join base name) ''config'') ''providers/net'') w) = Err e \<and>
      err_kind e = NotFound"
  shows "\<exists>cfg t. vm_config K x86_64 stk (join base name) s = (Ret (Ok cfg), t) \<and> cfg_net cfg = [] \<and>
    cfg_disks cfg = map (disk_at blk) (filter (is_disk blk) names)"
proof -
  have d: "utf8_valid (join base name)" by (rule utf8_valid_join [OF base name(2)])
  then have v: "utf8_valid blk" "utf8_valid (join (join (join base name) ''config'') ''vmlinux'')"
    "utf8_valid (join (join base name) ''vsock'')"
    unfolding blk(1) by (simp_all add: utf8_valid_join utf8_literals del: utf8_valid_Cons_ascii)
  then have "\<forall>n \<in> set names. is_disk blk n \<longrightarrow> good_disk blk n"
    using blk(3) by (auto simp: good_disk_def utf8_valid_join)
  note ds = disks_total [OF this]
  obtain u where u: "read_dir K blk s = (Ok (map Ok names), u)" using read_dir_Ok [OF blk(2)] by blast
  obtain e where "fst (os_read_dir K (join (join (join base name) ''config'') ''providers/net'') (world u)) = Err e"
    "err_kind e = NotFound" using net by blast
  with read_dir_Ok have "\<exists>t. net_devices K stk (join base name)
      (join (join (join base name) ''config'') ''providers/net'') u = (Ret (Ok []), t)"
    by (fastforce simp: net_devices_def)
  with name v ds u blk(1) show ?thesis
    by (auto simp: vm_config_def file_name_join to_str_def Let_def)
qed

text \<open>
  C27. Every well-named VM gets a configuration. If the name has no colon, everything is UTF-8, \<open>config/blk\<close>
  can be listed, no disk image has a comma in its path and there is no \<open>config/providers/net\<close>, then \<open>vm_config\<close>
  returns a configuration without network devices whose disks are the images of the listing.
\<close>

theorem vm_config_complete:
  assumes "plain_name name" "utf8_valid name" "CHR '':'' \<notin> set name" "utf8_valid base"
    and "blk = join (join (join base name) ''config'') ''blk''"
      "fst (os_read_dir K blk (world s)) = Ok (map Ok names)"
      "\<forall>n \<in> set names. extension (join blk n) = Some ''img'' \<longrightarrow> utf8_valid n \<and> CHR '','' \<notin> set (join blk n)"
    and "\<And>w. \<exists>e. fst (os_read_dir K (join (join (join base name) ''config'') ''providers/net'') w) = Err e \<and>
      err_kind e = NotFound"
  shows "\<exists>cfg t. vm_config K x86_64 stk (join base name) s = (Ret (Ok cfg), t) \<and> cfg_net cfg = [] \<and>
    cfg_disks cfg = map (\<lambda>n. \<lparr>disk_path = join blk n, disk_readonly = True\<rparr>)
      (filter (\<lambda>n. extension (join blk n) = Some ''img'') names)"
  using vm_config_runs [OF assms(1-6) _ assms(8)] assms(7)
  by (simp add: disk_at_def [abs_def] is_disk_def [abs_def])

section \<open>A run\<close>

text \<open>
  The directory of the test \<open>vm_command-basic\<close>, with a file that is not an image, in an environment that
  grants everything else \<open>start-vmm\<close> asks for.
\<close>

definition dir_os :: "unit os" where
  "dir_os = lan_os\<lparr>os_read_dir := \<lambda>p w. (if p = ''/run/vm/testvm/config/blk'' then Ok [Ok ''root.img'', Ok ''README'']
      else Err (from_raw_os_error ENOENT), w),
     os_read := \<lambda>_ n w. (Ok (take n [CHR 0x07, NUL, NUL, NUL]), w), os_kill := \<lambda>_ _ w. (Ok (), w),
     os_remove_file := \<lambda>_ w. (Ok (), w), os_bind := \<lambda>_ w. (Ok 5, w), os_getfd := \<lambda>_ w. (Ok 1, w),
     os_setfd := \<lambda>_ _ w. (Ok (), w), os_write_stdin := \<lambda>_ _ w. (Ok (), w), os_write_file := \<lambda>_ _ w. (Ok (), w),
     os_exec := \<lambda>_ w. (Ok (), w)\<rparr>"

lemma dir_os_simps:
  "os_read dir_os fd n w = (Ok (take n [CHR 0x07, NUL, NUL, NUL]), w)" "os_kill dir_os p g w = (Ok (), w)"
  "os_remove_file dir_os q w = (Ok (), w)" "os_bind dir_os q w = (Ok 5, w)" "os_getfd dir_os fd w = (Ok 1, w)"
  "os_setfd dir_os fd x w = (Ok (), w)" "os_write_stdin dir_os fd b w = (Ok (), w)" "os_write_file dir_os fd b w = (Ok (), w)"
  "os_exec dir_os c w = (Ok (), w)" "os_close dir_os i w = os_close lan_os i w" "os_pipe dir_os w = (Ok (6, 7), w)"
  "os_fork dir_os w = (Ok 99, w)" "os_spawn dir_os c w = (Ok 1, w)" "os_wait dir_os fd w = (Ok (Exited 0), w)"
  by (simp_all add: dir_os_def lan_os_simps)

lemma testvm_paths:
  "join ''/run/vm'' ''testvm'' = ''/run/vm/testvm''" "join ''/run/vm/testvm'' ''config'' = ''/run/vm/testvm/config''"
  "join ''/run/vm/testvm/config'' ''blk'' = ''/run/vm/testvm/config/blk''"
  "join ''/run/vm/testvm/config/blk'' ''root.img'' = ''/run/vm/testvm/config/blk/root.img''"
  "join ''/run/vm/testvm/config/blk'' ''README'' = ''/run/vm/testvm/config/blk/README''"
  "join ''/run/vm/testvm/config'' ''providers/net'' = ''/run/vm/testvm/config/providers/net''"
  "plain_name ''testvm''" "utf8_valid ''testvm''" "utf8_valid ''/run/vm''"
  by (simp_all add: join_def is_absolute_def has_root_def plain_name_def ascii_def)

lemma testvm_dir:
  "fst (os_read_dir dir_os ''/run/vm/testvm/config/blk'' w) = Ok (map Ok [''root.img'', ''README''])"
  "fst (os_read_dir dir_os ''/run/vm/testvm/config/providers/net'' w) = Err (from_raw_os_error ENOENT)"
  "err_kind (from_raw_os_error ENOENT) = NotFound"
  by (simp_all add: dir_os_def from_raw_os_error_def)

lemma testvm_images:
  "extension (join ''/run/vm/testvm/config/blk'' ''root.img'') = Some ''img''"
  "extension (join ''/run/vm/testvm/config/blk'' ''README'') = None"
  "utf8_valid ''root.img''" "CHR '','' \<notin> set ''/run/vm/testvm/config/blk/root.img''"
proof -
  show "extension (join ''/run/vm/testvm/config/blk'' ''root.img'') = Some ''img''"
    using extension_join [of "''root''" "''img''" "''/run/vm/testvm/config/blk''"] by (simp add: plain_name_def)
  show "extension (join ''/run/vm/testvm/config/blk'' ''README'') = None"
    using file_name_join [of "''README''" "''/run/vm/testvm/config/blk''"] by (simp add: extension_def plain_name_def)
qed (simp_all add: ascii_def)

lemmas testvm_eval = testvm_paths testvm_dir testvm_images testvm_images [unfolded testvm_paths]

lemma testvm_run_at:
  "\<exists>cfg t. vm_config dir_os True stack0 ''/run/vm/testvm'' s = (Ret (Ok cfg), t) \<and> cfg_net cfg = [] \<and>
     cfg_disks cfg = [\<lparr>disk_path = ''/run/vm/testvm/config/blk/root.img'', disk_readonly = True\<rparr>]"
  using vm_config_runs [of "''testvm''" "''/run/vm''" "''/run/vm/testvm/config/blk''" dir_os s
      "[''root.img'', ''README'']" True stack0]
  by (simp add: testvm_eval is_disk_def disk_at_def)

lemmas testvm_run = testvm_run_at [of ps0]

theorem vm_config_complete_witness:
  "\<exists>cfg t. vm_config dir_os True stack0 ''/run/vm/testvm'' ps0 = (Ret (Ok cfg), t) \<and>
     cfg_disks cfg = [\<lparr>disk_path = ''/run/vm/testvm/config/blk/root.img'', disk_readonly = True\<rparr>]"
  using vm_config_complete [of "''testvm''" "''/run/vm''" "''/run/vm/testvm/config/blk''" dir_os ps0
      "[''root.img'', ''README'']" True stack0]
  by (auto simp: testvm_eval)

theorem vm_config_sound_witness:
  "\<exists>cfg t. vm_config dir_os True stack0 ''/run/vm/testvm'' ps0 = (Ret (Ok cfg), t) \<and>
     console_file (cfg_serial cfg) = Some ''/run/testvm.log''"
proof -
  obtain cfg t where r: "vm_config dir_os True stack0 ''/run/vm/testvm'' ps0 = (Ret (Ok cfg), t)"
    using testvm_run by blast
  have "file_name ''/run/vm/testvm'' = Some ''testvm''"
    using file_name_join [of "''testvm''" "''/run/vm''"] by (simp add: testvm_paths)
  with vm_config_sound [OF r] r show ?thesis by auto
qed


text \<open>
  A VM whose name is not UTF-8 or has a colon is refused before anything is asked of the
  system, and a directory without a last component is a panic.
\<close>

lemma vm_config_refuses:
  "(file_name vm_dir = None \<longrightarrow> vm_config K x86_64 stk vm_dir s = (Panic, s)) \<and>
   (\<forall>name. file_name vm_dir = Some name \<longrightarrow>
      (\<not> utf8_valid name \<longrightarrow> vm_config K x86_64 stk vm_dir s = (Ret (Err (VmDirNotUtf8 vm_dir)), s)) \<and>
      (utf8_valid name \<and> CHR '':'' \<in> set name \<longrightarrow>
         vm_config K x86_64 stk vm_dir s = (Ret (Err (VmNameColon name)), s)))"
  by (auto simp: vm_config_def to_str_def split: option.splits)

lemma vm_config_refuses_example:
  "vm_config lan_os True stack0 ''/:vm'' ps0 = (Ret (Err (VmNameColon '':vm'')), ps0) \<and>
   vm_config lan_os True stack0 ''/run/vm/..'' ps0 = (Panic, ps0)"
proof -
  have "file_name ''/:vm'' = Some '':vm''" "file_name ''/run/vm/..'' = None" by (simp_all add: path_eval)
  moreover have "utf8_valid '':vm''" "CHR '':'' \<in> set '':vm''" by (simp_all add: ascii_def)
  ultimately show ?thesis
    using vm_config_refuses [of "''/:vm''" lan_os True stack0 ps0]
      vm_config_refuses [of "''/run/vm/..''" lan_os True stack0 ps0] by blast
qed

section \<open>Order of effects\<close>

lemma read_dir_log: "read_dir K p s = (q, t) \<Longrightarrow> events t = events s @ [EvReadDir p q]"
  by (auto simp: read_dir_def ask_def split: prod.splits)

text \<open>
  Nothing is done to the network before all disks are accepted: unless \<open>config/blk\<close> could be listed
  and its images gave a list of disks, the requests of \<open>vm_config\<close> are at most the listing of that directory.
\<close>

lemma vm_config_disks_first:
  assumes "vm_config K x86_64 stk vm_dir s = (r, t)"
  defines "blk \<equiv> join (join vm_dir ''config'') ''blk''"
  shows "events t = events s \<or> (\<exists>q. events t = events s @ [EvReadDir blk q]) \<or>
    (\<exists>names evs. events t = events s @ EvReadDir blk (Ok (map Ok names)) # evs \<and>
       (\<forall>n \<in> set names. extension (join blk n) = Some ''img'' \<longrightarrow>
          utf8_valid (join blk n) \<and> CHR '','' \<notin> set (join blk n)))"
proof (cases "\<exists>name. file_name vm_dir = Some name \<and> utf8_valid name \<and> CHR '':'' \<notin> set name")
  case False
  with assms(1) have "t = s" by (auto simp: vm_config_def to_str_def split: option.splits if_splits)
  then show ?thesis by simp
next
  case True
  then obtain name where name: "file_name vm_dir = Some name" "utf8_valid name" "CHR '':'' \<notin> set name" by blast
  obtain q u where qu: "read_dir K blk s = (q, u)" by force
  show ?thesis
  proof (cases "\<exists>entries ds. q = Ok entries \<and> disks blk entries = Ret (Ok ds)")
    case False
    with assms(1) name qu have "t = u"
      by (auto simp: vm_config_def to_str_def Let_def blk_def split: outcome.splits result.splits)
    with read_dir_log [OF qu] show ?thesis by blast
  next
    case True
    then obtain entries ds where ds: "q = Ok entries" "disks blk entries = Ret (Ok ds)" by blast
    then obtain names where n: "entries = map Ok names" "\<forall>n \<in> set names. is_disk blk n \<longrightarrow> good_disk blk n"
      by (auto simp: disks_Ok)
    from assms(1) name qu ds have
      "\<exists>q. net_devices K stk vm_dir (join (join vm_dir ''config'') ''providers/net'') u = (q, t)"
      by (auto simp: vm_config_def to_str_def Let_def blk_def split: prod.splits outcome.splits result.splits
          option.splits if_splits)
    then obtain q' where nd: "net_devices K stk vm_dir (join (join vm_dir ''config'') ''providers/net'') u = (q', t)"
      by blast
    have "\<exists>evs. events t = events u @ evs" using net_devices.log_grows [where s = u] nd by (metis snd_conv)
    with read_dir_log [OF qu] ds(1) n show ?thesis by (auto simp: is_disk_def good_disk_def)
  qed
qed

section \<open>Descriptors of a configuration\<close>

definition cfg_gain :: "(vm_config, 'e) result \<Rightarrow> nat multiset set" where
  "cfg_gain r = (case r of Ok cfg \<Rightarrow> devs_gain (Ok (cfg_net cfg) :: (net_config list, 'e) result) | Err _ \<Rightarrow> {{#}})"

lemma cfg_gain_Err [simp]: "cfg_gain (Err e) = {{#}}"
  by (simp add: cfg_gain_def)

lemma fd_op_result:
  assumes "\<And>a. r = Ok a \<Longrightarrow> fd_op (f a) P G" "\<And>e. r = Err e \<Longrightarrow> fd_op (g e) P G"
  shows "fd_op (\<lambda>s. case r of Ok a \<Rightarrow> f a s | Err e \<Rightarrow> g e s) P G"
  using assms by (cases r) auto

interpretation vm_config: fd_op "vm_config K x86_64 stk vm_dir" "{#}" "ret_gain cfg_gain" for K x86_64 stk vm_dir
  unfolding vm_config_def Let_def
  by (intro fd_op_option fd_op_if fd_op_bind_res [OF read_dir.fd_op_axioms] fd_op_outcome fd_op_result
      fd_op_bind [OF net_devices.fd_op_axioms] fd_op_return) (simp_all add: cfg_gain_def devs_gain_def)

text \<open>
  A configuration owns its descriptors and nothing else is left open: after an error
  the process holds what it held before, and after a success it holds in addition, for the network
  device if there is one, the tap and one end of the pipe that tells the listener of the end of the VM.
\<close>

lemma vm_config_descriptors:
  assumes "vm_config K x86_64 stk vm_dir s = (Ret r, t)" and "held {#} (events s) = M"
  shows "case r of
      Err _ \<Rightarrow> held {#} (events t) = M
    | Ok cfg \<Rightarrow> cfg_net cfg = [] \<and> held {#} (events t) = M \<or>
        (\<exists>n p. cfg_net cfg = [n] \<and> held {#} (events t) = M + fdm (net_fd n) + {#p#})"
proof -
  from vm_config.contract [of K x86_64 stk vm_dir s] assms(1) obtain evs D where
    e: "events t = events s @ evs" "D \<in> cfg_gain r" "\<And>M. held M evs = M + D" by auto
  then have "held {#} (events t) = M + D" using assms(2) by simp
  with e(2) show ?thesis
    by (auto simp: cfg_gain_def devs_gain_def dev_gain_def add.assoc split: result.splits list.splits)
qed

lemma vm_config_descriptors_example:
  "\<exists>cfg t. vm_config dir_os True stack0 ''/run/vm/testvm'' ps0 = (Ret (Ok cfg), t) \<and> held {#} (events t) = {#}"
proof -
  obtain cfg t where r: "vm_config dir_os True stack0 ''/run/vm/testvm'' ps0 = (Ret (Ok cfg), t)" "cfg_net cfg = []"
    using testvm_run by blast
  have "held {#} (events ps0) = {#}" by (simp add: ps0_def)
  from vm_config_descriptors [OF r(1) this] r show ?thesis by auto
qed

lemma vm_config_disks_first_example:
  "\<exists>r t. vm_config dir_os True stack0 ''/run/vm/:'' ps0 = (r, t) \<and>
     (events t = [] \<or> (\<exists>q evs. events t = EvReadDir ''/run/vm/:/config/blk'' q # evs))"
proof -
  obtain r t where rt: "vm_config dir_os True stack0 ''/run/vm/:'' ps0 = (r, t)" by (metis surj_pair)
  have "join (join ''/run/vm/:'' ''config'') ''blk'' = ''/run/vm/:/config/blk''"
    by (simp add: join_def is_absolute_def has_root_def)
  with vm_config_disks_first [OF rt] rt show ?thesis by (auto simp: ps0_def)
qed

end
