(* ===== verification/Fork.thy ===== *)
theory Fork
  imports Fds
begin

text \<open>
  \<open>host/start-vmm/fork.c\<close> (called through \<open>fork.rs\<close>), \<open>unix.c\<close> with its Rust wrapper
  \<open>unix.rs\<close>, and \<open>s6.rs\<close>.

  \<open>double_fork\<close> is run by three processes. The answers of the kernel to the two \<open>fork\<close>
  requests decide which of them the model follows: the caller gets the pid of the child and then
  the pid of the grandchild through a pipe, the child writes it and exits, and the grandchild
  returns 0. The \<open>int\<close> travels as its four bytes, least significant first. The accumulator of
  the two copying loops is a \<open>size_t\<close>, a \<^typ>\<open>64 word\<close>. The bytes of the variable \<open>v\<close> before
  anything is read into it are the argument \<open>junk\<close>.
\<close>

section \<open>Requests\<close>

definition sys_read :: "'w os \<Rightarrow> nat \<Rightarrow> nat \<Rightarrow> 'w ps \<Rightarrow> (int \<times> bytes) \<times> 'w ps" where
  "sys_read K fd n s =
     (case ask (os_read K fd n) (EvRead fd) s of
        (Ok d, s) \<Rightarrow> ((int (length d), d), s)
      | (Err e, s) \<Rightarrow> ((-1, []), s\<lparr>cerrno := e\<rparr>))"

definition sys_write :: "'w os \<Rightarrow> nat \<Rightarrow> bytes \<Rightarrow> 'w ps \<Rightarrow> int \<times> 'w ps" where
  "sys_write K fd b s = c_ret (ask (os_write K fd b) (EvWrite fd b) s)"

definition sys_kill :: "'w os \<Rightarrow> nat \<Rightarrow> nat \<Rightarrow> 'w ps \<Rightarrow> int \<times> 'w ps" where
  "sys_kill K pid sig s = c_unit (ask (os_kill K pid sig) (EvKill pid sig) s)"

definition sys_waitpid :: "'w os \<Rightarrow> nat \<Rightarrow> 'w ps \<Rightarrow> int \<times> 'w ps" where
  "sys_waitpid K pid s = c_unit (ask (os_waitpid K pid) (EvWaitpid pid) s)"

section \<open>Copying\<close>

text \<open>Bytes \<open>d\<close> stored at offset \<open>i\<close> of a buffer.\<close>

definition store :: "bytes \<Rightarrow> nat \<Rightarrow> bytes \<Rightarrow> bytes" where
  "store b i d = take i b @ d @ drop (i + length d) b"

section \<open>double_fork\<close>

definition SIGKILL :: nat where
  "SIGKILL = 9"

partial_function (option) read_loop ::
    "'w os \<Rightarrow> nat \<Rightarrow> bytes \<Rightarrow> 64 word \<Rightarrow> 'w ps \<Rightarrow> ((int \<times> bytes) \<times> 'w ps) option" where
  "read_loop K fd v acc s =
     (case sys_read K fd (unat (4 - acc)) s of (rd, s) \<Rightarrow>
        let r = fst rd; v = store v (unat acc) (snd rd) in
        if r = -1 \<and> cerrno s \<noteq> EINTR then Some ((r, v), s)
        else if acc + word_of_int r < 4 then read_loop K fd v (acc + word_of_int r) s
        else Some ((r, v), s))"

partial_function (option) write_loop ::
    "'w os \<Rightarrow> nat \<Rightarrow> bytes \<Rightarrow> 64 word \<Rightarrow> 'w ps \<Rightarrow> (int \<times> 'w ps) option" where
  "write_loop K fd v acc s =
     (case sys_write K fd (drop (unat acc) v) s of (r, s) \<Rightarrow>
        if r = -1 \<and> cerrno s \<noteq> EINTR then Some (r, s)
        else if acc + word_of_int r < 4 then write_loop K fd v (acc + word_of_int r) s
        else Some (r, s))"

text \<open>The child, after its own \<open>fork\<close> has returned \<open>f\<close> and not 0.\<close>

definition fork_child :: "'w os \<Rightarrow> nat \<Rightarrow> int \<Rightarrow> 'w ps \<Rightarrow> int outcome \<times> 'w ps" where
  "fork_child K fd1 f s =
     (let v = word_of_int (if f = -1 then - int (cerrno s) else f) in
      case write_loop K fd1 (le_bytes v) 0 s of
        None \<Rightarrow> (Diverge, s)
      | Some (r, s) \<Rightarrow> (Exit (if sint v < 0 \<or> r = -1 then 1 else 0), s))"

text \<open>The caller, once it knows its child.\<close>

definition fork_parent :: "'w os \<Rightarrow> bytes \<Rightarrow> nat \<Rightarrow> nat \<Rightarrow> 'w ps \<Rightarrow> int outcome \<times> 'w ps" where
  "fork_parent K junk fd0 child s =
     (case read_loop K fd0 junk 0 s of
        None \<Rightarrow> (Diverge, s)
      | Some ((r, v), s) \<Rightarrow>
         (case sys_close K (int fd0) s of (_, s) \<Rightarrow>
            if r = -1 then
              (case sys_kill K child SIGKILL s of (_, s) \<Rightarrow>
                (case sys_waitpid K child s of (_, s) \<Rightarrow> (Ret (sint (of_le v)), s)))
            else (Ret (sint (of_le v)), s)))"

definition double_fork :: "'w os \<Rightarrow> bytes \<Rightarrow> 'w ps \<Rightarrow> int outcome \<times> 'w ps" where
  "double_fork K junk s =
     (case sys_pipe K s of (p, s) \<Rightarrow>
       (case p of
          None \<Rightarrow> (Ret (-1), s)
        | Some fd \<Rightarrow>
           (case sys_fork K s of (child, s) \<Rightarrow>
              if child = -1 then
                (case sys_close K (int (fst fd)) s of (_, s) \<Rightarrow>
                  (case sys_close K (int (snd fd)) s of (_, s) \<Rightarrow> (Ret (-1), s)))
              else if child = 0 then
                (case sys_close K (int (fst fd)) s of (_, s) \<Rightarrow>
                  (case sys_fork K s of (f, s) \<Rightarrow>
                     if f = 0 then
                       (case sys_close K (int (snd fd)) s of (_, s) \<Rightarrow> (Ret 0, s))
                     else fork_child K (snd fd) f s))
              else
                (case sys_close K (int (snd fd)) s of (_, s) \<Rightarrow>
                   fork_parent K junk (fst fd) (nat child) s))))"

section \<open>clear_cloexec\<close>

definition FD_CLOEXEC :: "32 word" where
  "FD_CLOEXEC = 1"

unbundle bit_operations_syntax

definition clear_cloexec :: "'w os \<Rightarrow> nat \<Rightarrow> 'w ps \<Rightarrow> int \<times> 'w ps" where
  "clear_cloexec K fd s =
     (case c_opt (ask (os_getfd K fd) (EvGetFd fd) s) of (r, s) \<Rightarrow>
       (case r of
          None \<Rightarrow> (-1, s)
        | Some flags \<Rightarrow>
            c_unit (ask (os_setfd K fd (flags AND NOT FD_CLOEXEC)) (EvSetFd fd (flags AND NOT FD_CLOEXEC)) s)))"

text \<open>\<open>AsFdExt::clear_cloexec\<close>.\<close>

definition fd_clear_cloexec :: "'w os \<Rightarrow> nat \<Rightarrow> 'w ps \<Rightarrow> (unit, io_error) result \<times> 'w ps" where
  "fd_clear_cloexec K fd s =
     (case clear_cloexec K fd s of (r, s) \<Rightarrow> if r = -1 then (Err (last_os_error s), s) else (Ok (), s))"

section \<open>notify_readiness\<close>

text \<open>The file is owned by the function, so it is closed when it returns.\<close>

definition notify_readiness :: "'w os \<Rightarrow> nat \<Rightarrow> 'w ps \<Rightarrow> (unit, vmm_error) result \<times> 'w ps" where
  "notify_readiness K fd s =
     (case ask (os_write_file K fd [CHR 0x0A]) (EvWriteFile fd [CHR 0x0A]) s of (r, s) \<Rightarrow>
       (case sys_close K (int fd) s of (_, s) \<Rightarrow> (map_err NotifyingReadiness r, s)))"

section \<open>Descriptors\<close>

interpretation sys_read: fd_op "sys_read K fd n" "{#}" "\<lambda>_. {{#}}" for K fd n
  by unfold_locales (auto simp: sys_read_def ask_def fd_opened_def fd_closed_def
      split: prod.splits result.splits)

interpretation sys_write: fd_op "sys_write K fd b" "{#}" "\<lambda>_. {{#}}" for K fd b
  unfolding sys_write_def
  by (rule fd_op_c_ret [OF fd_op_ask_none]) (simp_all add: fd_opened_def fd_closed_def)

interpretation sys_kill: fd_op "sys_kill K p g" "{#}" "\<lambda>_. {{#}}" for K p g
  unfolding sys_kill_def
  by (rule fd_op_c_unit [OF fd_op_ask_none]) (simp_all add: fd_opened_def fd_closed_def)

interpretation sys_waitpid: fd_op "sys_waitpid K p" "{#}" "\<lambda>_. {{#}}" for K p
  unfolding sys_waitpid_def
  by (rule fd_op_c_unit [OF fd_op_ask_none]) (simp_all add: fd_opened_def fd_closed_def)

section \<open>The copying loops\<close>

definition run_loop :: "('w ps \<Rightarrow> ('a \<times> 'w ps) option) \<Rightarrow> 'w ps \<Rightarrow> 'a option \<times> 'w ps" where
  "run_loop f s = (case f s of None \<Rightarrow> (None, s) | Some (a, t) \<Rightarrow> (Some a, t))"

lemma sys_read_log: "sys_read K fd n s = (r, t) \<Longrightarrow> \<exists>q. events t = events s @ [EvRead fd q]"
  by (auto simp: sys_read_def ask_def split: prod.splits result.splits)

lemma sys_write_log: "sys_write K fd b s = (r, t) \<Longrightarrow> \<exists>q. events t = events s @ [EvWrite fd b q]"
  by (auto simp: sys_write_def ask_def c_ret_def split: prod.splits result.splits)

text \<open>A loop that returns has made nothing but read or write requests on its descriptor.\<close>

lemma read_loop_log:
  assumes ret: "read_loop K fd v acc s = Some (r, t)"
  shows "\<exists>evs. events t = events s @ evs \<and> set evs \<subseteq> range (EvRead fd)"
proof -
  let ?P = "\<lambda>K fd v acc s x. \<exists>evs. events (snd x) = events s @ evs \<and> set evs \<subseteq> range (EvRead fd)"
  have "?P K fd v acc s (r, t)"
  proof (rule read_loop.raw_induct [where P = ?P, OF _ ret])
    fix f K fd v acc s x
    assume IH: "\<And>K fd v acc s y. f K fd v acc s = Some y \<Longrightarrow> ?P K fd v acc s y"
      and eq: "(case sys_read K fd (unat (4 - acc)) s of (rd, s) \<Rightarrow>
        let r = fst rd; v = store v (unat acc) (snd rd) in
        if r = -1 \<and> cerrno s \<noteq> EINTR then Some ((r, v), s)
        else if acc + word_of_int r < 4 then f K fd v (acc + word_of_int r) s
        else Some ((r, v), s)) = Some x"
    obtain q u where qu: "sys_read K fd (unat (4 - acc)) s = (q, u)" by (metis surj_pair)
    from sys_read_log [OF this] obtain q' where ev: "events u = events s @ [EvRead fd q']" by blast
    show "?P K fd v acc s x"
    proof (cases "\<exists>v' acc'. f K fd v' acc' u = Some x")
      case True
      then obtain v' acc' where "f K fd v' acc' u = Some x" by blast
      from IH [OF this] ev show ?thesis by auto
    next
      case False
      with eq qu have "snd x = u" by (auto simp: Let_def split: if_splits)
      with ev show ?thesis by auto
    qed
  qed
  then show ?thesis by simp
qed

lemma write_loop_log:
  assumes ret: "write_loop K fd v acc s = Some (r, t)"
  shows "\<exists>evs. events t = events s @ evs \<and> (\<forall>e \<in> set evs. \<exists>b q. e = EvWrite fd b q)"
proof -
  let ?P = "\<lambda>K fd v acc s x. \<exists>evs. events (snd x) = events s @ evs \<and> (\<forall>e \<in> set evs. \<exists>b q. e = EvWrite fd b q)"
  have "?P K fd v acc s (r, t)"
  proof (rule write_loop.raw_induct [where P = ?P, OF _ ret])
    fix f K fd v acc s x
    assume IH: "\<And>K fd v acc s y. f K fd v acc s = Some y \<Longrightarrow> ?P K fd v acc s y"
      and eq: "(case sys_write K fd (drop (unat acc) v) s of (r, s) \<Rightarrow>
        if r = -1 \<and> cerrno s \<noteq> EINTR then Some (r, s)
        else if acc + word_of_int r < 4 then f K fd v (acc + word_of_int r) s
        else Some (r, s)) = Some x"
    obtain q u where qu: "sys_write K fd (drop (unat acc) v) s = (q, u)" by force
    from sys_write_log [OF this] obtain q' where
      ev: "events u = events s @ [EvWrite fd (drop (unat acc) v) q']" by blast
    show "?P K fd v acc s x"
    proof (cases "\<exists>acc'. f K fd v acc' u = Some x")
      case True
      then obtain acc' where "f K fd v acc' u = Some x" by blast
      from IH [OF this] ev show ?thesis by auto
    next
      case False
      with eq have "x = (q, u)" unfolding qu by (simp split: if_splits)
      with ev show ?thesis by auto
    qed
  qed
  then show ?thesis by simp
qed

text \<open>A pipe as its reader sees it: \<open>view\<close> is what is in it.\<close>

definition pipe_reader :: "'w os \<Rightarrow> nat \<Rightarrow> ('w \<Rightarrow> bytes) \<Rightarrow> bool" where
  "pipe_reader K fd view \<longleftrightarrow> (\<forall>n w. 0 < n \<longrightarrow> view w \<noteq> [] \<longrightarrow>
     (\<exists>d w'. os_read K fd n w = (Ok d, w') \<and> d \<noteq> [] \<and> length d \<le> n \<and> view w = d @ view w'))"

text \<open>A pipe as its writer sees it: a write takes at least one byte.\<close>

definition pipe_writer :: "'w os \<Rightarrow> nat \<Rightarrow> bool" where
  "pipe_writer K fd \<longleftrightarrow> (\<forall>b w. b \<noteq> [] \<longrightarrow>
     (\<exists>k w'. os_write K fd b w = (Ok k, w') \<and> 0 < k \<and> k \<le> length b))"

definition written :: "nat \<Rightarrow> event list \<Rightarrow> bytes" where
  "written fd evs = concat (map (\<lambda>e. case e of EvWrite fd' b (Ok k) \<Rightarrow> if fd' = fd then take k b else [] | _ \<Rightarrow> []) evs)"

lemma written_simps [simp]:
  "written fd [] = []" "written fd (xs @ ys) = written fd xs @ written fd ys"
  "written fd (e # evs) = (case e of EvWrite fd' b (Ok k) \<Rightarrow> if fd' = fd then take k b else [] | _ \<Rightarrow> []) @ written fd evs"
  by (simp_all add: written_def)

lemma acc_step:
  fixes acc :: "64 word"
  assumes "acc < 4" "k \<le> 4 - unat acc"
  shows "unat (acc + word_of_int (int k)) = unat acc + k" "acc + word_of_int (int k) < 4 \<longleftrightarrow> unat acc + k < 4"
    "unat (4 - acc) = 4 - unat acc"
proof -
  have a: "unat acc < 4" using assms(1) by (simp add: word_less_nat_alt)
  have k: "unat (word_of_int (int k) :: 64 word) = k"
    using a assms(2) by (simp add: unsigned_of_nat take_bit_nat_eq_self)
  show u: "unat (acc + word_of_int (int k)) = unat acc + k"
    using a assms(2) k by (subst unat_word_ariths) simp
  show "acc + word_of_int (int k) < 4 \<longleftrightarrow> unat acc + k < 4"
    by (simp only: word_less_nat_alt u) simp
  show "unat (4 - acc) = 4 - unat acc"
    using a by (simp add: unat_sub word_le_nat_alt)
qed

lemma read_loop_delivers:
  assumes "pipe_reader K fd view" "length b = 4"
  shows "acc < 4 \<Longrightarrow> length v = 4 \<Longrightarrow> take (unat acc) v = take (unat acc) b \<Longrightarrow>
    view (world s) = drop (unat acc) b @ rest \<Longrightarrow>
    \<exists>r t. read_loop K fd v acc s = Some ((r, b), t) \<and> r \<noteq> -1 \<and> view (world t) = rest"
proof (induction "4 - unat acc" arbitrary: acc v s rule: less_induct)
  case less
  define n where "n = unat acc"
  have n: "n < 4" using less.prems(1) by (simp add: n_def word_less_nat_alt)
  then have "view (world s) \<noteq> []" using less.prems(4) assms(2) by (simp add: n_def)
  with assms(1) n obtain d w where d: "os_read K fd (4 - n) (world s) = (Ok d, w)" "d \<noteq> []"
    "length d \<le> 4 - n" "view (world s) = d @ view w" unfolding pipe_reader_def by (metis zero_less_diff)
  note st = acc_step [OF less.prems(1) d(3) [unfolded n_def], folded n_def]
  let ?acc = "acc + word_of_int (int (length d))" and ?v = "store v n d"
  obtain u where u: "sys_read K fd (unat (4 - acc)) s = ((int (length d), d), u)" "world u = w"
    using d(1) st(3) by (simp add: sys_read_def ask_def)
  have dr: "drop n b = d @ drop (n + length d) b" and vw: "view w = drop (n + length d) b @ rest"
  proof -
    have e: "d @ view w = drop n b @ rest" using d(4) less.prems(4) by (simp add: n_def)
    then have "take (length d) (d @ view w) = take (length d) (drop n b)"
      using d(3) assms(2) by simp
    then have t: "take (length d) (drop n b) = d" by simp
    then show "drop n b = d @ drop (n + length d) b"
      by (metis append_take_drop_id drop_drop add.commute)
    with e show "view w = drop (n + length d) b @ rest" by simp
  qed
  have tk: "take (n + length d) ?v = take (n + length d) b" and lv: "length ?v = 4"
  proof -
    have "take (n + length d) b = take n b @ d"
      using dr by (metis append_eq_conv_conj take_add)
    with less.prems(2,3) n d(3) assms(2) show "take (n + length d) ?v = take (n + length d) b" "length ?v = 4"
      by (simp_all add: store_def n_def)
  qed
  show ?case
  proof (cases "n + length d < 4")
    case True
    have "4 - (n + length d) < 4 - n" using n d(2) by (cases d) auto
    then have "\<exists>r t. read_loop K fd ?v ?acc u = Some ((r, b), t) \<and> r \<noteq> -1 \<and> view (world t) = rest"
      using True n tk lv vw u(2) st
      by (intro less.hyps) (auto simp: n_def simp flip: n_def)
    with True u(1) st(2) show ?thesis
      by (subst read_loop.simps) (simp add: Let_def n_def)
  next
    case False
    with tk lv assms(2) d(3) n have "?v = b" "n + length d = 4" by simp_all
    with False u st(2) vw assms(2) show ?thesis
      by (subst read_loop.simps) (auto simp: Let_def n_def)
  qed
qed

lemma write_loop_delivers:
  assumes "pipe_writer K fd" "length b = 4"
  shows "acc < 4 \<Longrightarrow> \<exists>r t evs. write_loop K fd b acc s = Some (r, t) \<and> r \<noteq> -1 \<and>
    events t = events s @ evs \<and> written fd evs = drop (unat acc) b"
proof (induction "4 - unat acc" arbitrary: acc s rule: less_induct)
  case less
  define n where "n = unat acc"
  have n: "n < 4" using less.prems by (simp add: n_def word_less_nat_alt)
  then have "drop n b \<noteq> []" using assms(2) by simp
  with assms(1) obtain k w where k: "os_write K fd (drop n b) (world s) = (Ok k, w)" "0 < k" "k \<le> length (drop n b)"
    unfolding pipe_writer_def by blast
  then have le: "k \<le> 4 - n" using assms(2) by simp
  note st = acc_step [OF less.prems le [unfolded n_def], folded n_def]
  let ?acc = "acc + word_of_int (int k)"
  obtain u where u: "sys_write K fd (drop (unat acc) b) s = (int k, u)"
    "events u = events s @ [EvWrite fd (drop n b) (Ok k)]"
    using k(1) by (simp add: sys_write_def ask_def c_ret_def n_def)
  have dr: "drop n b = take k (drop n b) @ drop (n + k) b"
    by (metis add.commute append_take_drop_id drop_drop)
  show ?case
  proof (cases "n + k < 4")
    case True
    have "\<exists>r t evs. write_loop K fd b ?acc u = Some (r, t) \<and> r \<noteq> -1 \<and>
        events t = events u @ evs \<and> written fd evs = drop (unat ?acc) b"
      using True k(2) n st by (intro less.hyps) (auto simp flip: n_def)
    then obtain r t evs where rt: "write_loop K fd b ?acc u = Some (r, t)" "r \<noteq> -1"
      "events t = events u @ evs" "written fd evs = drop (n + k) b" using st(1) by auto
    have "write_loop K fd b acc s = Some (r, t)"
      using True u(1) st(2) rt(1) by (subst write_loop.simps) simp
    moreover have "events t = events s @ EvWrite fd (drop n b) (Ok k) # evs" using u(2) rt(3) by simp
    moreover have "written fd (EvWrite fd (drop n b) (Ok k) # evs) = drop n b" using rt(4) dr by simp
    ultimately show ?thesis using rt(2) unfolding n_def by blast
  next
    case False
    with u(1) st(2) have "write_loop K fd b acc s = Some (int k, u)"
      by (subst write_loop.simps) simp
    moreover have "written fd [EvWrite fd (drop n b) (Ok k)] = drop n b" using False assms(2) by simp
    ultimately show ?thesis using u(2) unfolding n_def by fastforce
  qed
qed

section \<open>What double_fork guarantees\<close>

lemma fork_child_writes:
  fixes f :: int and s :: "'w ps"
  assumes "pipe_writer K fd"
  defines "v \<equiv> (word_of_int (if f = -1 then - int (cerrno s) else f) :: 32 word)"
  shows "\<exists>t evs. fork_child K fd f s = (Exit (if sint v < 0 then 1 else 0), t) \<and>
    events t = events s @ evs \<and> written fd evs = le_bytes v"
proof -
  have "\<exists>r t evs. write_loop K fd (le_bytes v) 0 s = Some (r, t) \<and> r \<noteq> -1 \<and>
      events t = events s @ evs \<and> written fd evs = drop (unat (0 :: 64 word)) (le_bytes v)"
    by (rule write_loop_delivers [OF assms(1)]) simp_all
  then show ?thesis by (auto simp: fork_child_def Let_def simp flip: v_def)
qed

lemma fork_parent_reads:
  assumes "pipe_reader K fd view" "length junk = 4" "view (world s) = le_bytes v @ rest"
  shows "\<exists>t. fork_parent K junk fd child s = (Ret (sint v), t)"
proof -
  have "\<exists>r t. read_loop K fd junk 0 s = Some ((r, le_bytes v), t) \<and> r \<noteq> -1 \<and> view (world t) = rest"
    using assms(2,3) by (intro read_loop_delivers [OF assms(1)]) simp_all
  then show ?thesis by (auto simp: fork_parent_def split: prod.splits)
qed

lemma sint_of_int: "- (2 ^ 31) \<le> i \<Longrightarrow> i < 2 ^ 31 \<Longrightarrow> sint (word_of_int i :: 32 word) = i"
  by (simp add: signed_of_int signed_take_bit_int_eq_self_iff)

text \<open>
  C29. The pid crosses the pipe intact, in whatever pieces the kernel writes and reads it. Let the
  child see its own \<open>fork\<close> return \<open>f\<close>, and let \<open>v\<close> be \<open>f\<close>, or the negated \<open>errno\<close> if
  that \<open>fork\<close> failed. Then the child puts exactly the bytes of \<open>v\<close> into the pipe and exits
  with status 0, or 1 if \<open>v\<close> is negative; and the original process, when it finds these bytes
  in the pipe, returns \<open>v\<close>.
\<close>

theorem double_fork_delivers:
  assumes child: "sys_pipe K s = (Some (p0, p1), s1)" "sys_fork K s1 = (0, s2)"
      "sys_close K (int p0) s2 = (c, s3)" "sys_fork K s3 = (f, s4)" "f \<noteq> 0" "pipe_writer K p1"
    and v: "v = (if f = -1 then - int (cerrno s4) else f)" "- (2 ^ 31) \<le> v" "v < 2 ^ 31"
    and parent: "sys_pipe K' u = (Some (q0, q1), u1)" "sys_fork K' u1 = (int pid, u2)" "0 < pid"
      "sys_close K' (int q1) u2 = (c', u3)" "pipe_reader K' q0 view" "length junk = 4"
    and pipe: "view (world u3) = written p1 (drop (length (events s4)) (events (snd (double_fork K junk' s)))) @ rest"
  shows "fst (double_fork K junk' s) = Exit (if v < 0 then 1 else 0) \<and>
      written p1 (drop (length (events s4)) (events (snd (double_fork K junk' s)))) = le_bytes (word_of_int v) \<and>
      fst (double_fork K' junk u) = Ret v"
proof -
  have sv: "sint (word_of_int v :: 32 word) = v" using v(2,3) by (rule sint_of_int)
  have "double_fork K junk' s = fork_child K p1 f s4"
    using child(1-5) by (simp add: double_fork_def)
  with fork_child_writes [OF child(6), of f s4] sv v(1) obtain t evs where
    t: "double_fork K junk' s = (Exit (if v < 0 then 1 else 0), t)" "events t = events s4 @ evs"
      "written p1 evs = le_bytes (word_of_int v)" by auto
  from pipe t have "view (world u3) = le_bytes (word_of_int v) @ rest" by simp
  from fork_parent_reads [OF parent(5,6) this, of pid] sv obtain t' where
    "fork_parent K' junk q0 pid u3 = (Ret v, t')" by auto
  then have "double_fork K' junk u = (Ret v, t')"
    using parent(1-4) by (simp add: double_fork_def)
  with t show ?thesis by simp
qed

text \<open>
  C36. An interrupted read is not retried but taken for a failure: adding the result -1 to the
  unsigned accumulator makes it huge and the loop ends. When the first read of the original process is
  interrupted, it kills the child and returns the uninitialised bytes of its variable, whatever the
  grandchild is.
\<close>

theorem double_fork_interrupted:
  assumes "sys_pipe K s = (Some (p0, p1), s1)" "sys_fork K s1 = (int pid, s2)" "0 < pid"
    "sys_close K (int p1) s2 = (c, s3)" "os_read K p0 4 (world s3) = (Err EINTR, w)" "length junk = 4"
  shows "\<exists>t. double_fork K junk s = (Ret (sint (of_le junk)), t) \<and>
    (\<exists>q. EvKill pid SIGKILL q \<in> set (events t))"
proof -
  have rd: "\<exists>t. sys_read K p0 4 s3 = ((-1, []), t) \<and> cerrno t = EINTR"
    using assms(5) by (simp add: sys_read_def ask_def)
  have "\<not> (0 + word_of_int (-1) :: 64 word) < 4" by simp
  with rd obtain t where t: "read_loop K p0 junk 0 s3 = Some ((-1, junk), t)"
    by (subst (asm) read_loop.simps) (auto simp: Let_def store_def)
  obtain c1 t1 where 1: "sys_close K (int p0) t = (c1, t1)" by force
  obtain c2 t2 where 2: "sys_kill K pid SIGKILL t1 = (c2, t2)" by force
  obtain c3 t3 where 3: "sys_waitpid K pid t2 = (c3, t3)" by force
  have "\<exists>q. EvKill pid SIGKILL q \<in> set (events t2)"
    using 2 by (auto simp: sys_kill_def ask_def c_unit_def split: prod.splits result.splits)
  moreover have "set (events t2) \<subseteq> set (events t3)"
    using 3 by (auto simp: sys_waitpid_def ask_def c_unit_def split: prod.splits result.splits)
  moreover have "double_fork K junk s = (Ret (sint (of_le junk)), t3)"
    using assms(1-4) t 1 2 3 by (simp add: double_fork_def fork_parent_def)
  ultimately show ?thesis by blast
qed

text \<open>
  C37. When the pipe reads as empty and closed, which is what the original process finds if its
  child is killed before it has written, \<open>double_fork\<close> never returns: a read of length 0 neither
  ends the loop nor advances it.
\<close>

theorem double_fork_end_of_file:
  assumes "sys_pipe K s = (Some (p0, p1), s1)" "sys_fork K s1 = (int pid, s2)" "0 < pid"
    and eof: "\<And>n w. fst (os_read K p0 n w) = Ok []"
  shows "fst (double_fork K junk s) = Diverge"
proof -
  have "acc < 4 \<longrightarrow> fd = p0 \<longrightarrow> K' = K \<longrightarrow> False" if "read_loop K' fd v acc u = Some x" for K' fd v acc u x
  proof (rule read_loop.raw_induct [where P = "\<lambda>K' fd v acc u x. acc < 4 \<longrightarrow> fd = p0 \<longrightarrow> K' = K \<longrightarrow> False", OF _ that])
    fix f K' fd v acc u x
    assume IH: "\<And>K' fd v acc u x. f K' fd v acc u = Some x \<Longrightarrow> acc < 4 \<longrightarrow> fd = p0 \<longrightarrow> K' = K \<longrightarrow> False"
      and eq: "(case sys_read K' fd (unat (4 - acc)) u of (rd, s) \<Rightarrow>
        let r = fst rd; v = store v (unat acc) (snd rd) in
        if r = -1 \<and> cerrno s \<noteq> EINTR then Some ((r, v), s)
        else if acc + word_of_int r < 4 then f K' fd v (acc + word_of_int r) s
        else Some ((r, v), s)) = Some x"
    show "acc < 4 \<longrightarrow> fd = p0 \<longrightarrow> K' = K \<longrightarrow> False"
    proof (intro impI)
      assume a: "acc < 4" "fd = p0" "K' = K"
      obtain w where "os_read K p0 (unat (4 - acc)) (world u) = (Ok [], w)"
        using eof [of "unat (4 - acc)" "world u"] by (metis prod.collapse)
      with a obtain u' where "sys_read K' fd (unat (4 - acc)) u = ((0, []), u')"
        by (simp add: sys_read_def ask_def)
      with eq a(1) have "f K' fd (store v (unat acc) []) acc u' = Some x" by (simp add: Let_def)
      from IH [OF this] a show False by simp
    qed
  qed
  then have "read_loop K p0 junk 0 u = None" for u
    by (cases "read_loop K p0 junk 0 u") (fastforce simp: word_less_nat_alt)+
  with assms(1-3) show ?thesis
    by (auto simp: double_fork_def fork_parent_def split: prod.splits)
qed

text \<open>
  Descriptors: whoever returns from \<open>double_fork\<close>, the original process or the grandchild, has
  closed both ends of the pipe.
\<close>

lemma fork_child_fd_op: "fd_op (fork_child K fd f) P (ret_gain (\<lambda>_. {{#}}))"
proof
  fix s
  obtain r t where rt: "fork_child K fd f s = (r, t)" by (metis surj_pair)
  then have "ret_gain (\<lambda>_. {{#}}) r = UNIV"
    by (auto simp: fork_child_def Let_def split: option.splits)
  moreover have "\<exists>evs. events t = events s @ evs \<and> (\<forall>M. held M evs = M)"
  proof (cases "write_loop K fd (le_bytes (word_of_int (if f = -1 then - int (cerrno s) else f))) 0 s")
    case None
    with rt show ?thesis by (auto simp: fork_child_def Let_def)
  next
    case (Some x)
    then obtain q where x: "x = (q, t)" using rt by (cases x) (auto simp: fork_child_def Let_def)
    from write_loop_log [OF Some [unfolded x]] obtain evs where
      "events t = events s @ evs" "\<forall>e \<in> set evs. \<exists>b q. e = EvWrite fd b q" by blast
    moreover from this(2) have "\<forall>M. held M evs = M"
      by (intro allI held_quiet) (auto simp: fd_opened_def fd_closed_def)
    ultimately show ?thesis by blast
  qed
  ultimately show "\<exists>evs. events (snd (fork_child K fd f s)) = events s @ evs \<and>
      (\<exists>D \<in> ret_gain (\<lambda>_. {{#}}) (fst (fork_child K fd f s)). \<forall>M. held (M + P) evs = M + D)"
    using rt by auto
qed

interpretation fork_child: fd_op "fork_child K fd f" P "ret_gain (\<lambda>_. {{#}})" for K fd f P
  by (rule fork_child_fd_op)

lemma read_loop_fd_op: "fd_op (run_loop (read_loop K fd v acc)) {#} (\<lambda>_. {{#}})"
proof
  fix s
  show "\<exists>evs. events (snd (run_loop (read_loop K fd v acc) s)) = events s @ evs \<and>
      (\<exists>D \<in> {{#}}. \<forall>M. held (M + {#}) evs = M + D)"
  proof (cases "read_loop K fd v acc s")
    case (Some x)
    obtain q t where x: "x = (q, t)" by (metis surj_pair)
    from read_loop_log [OF Some [unfolded x]] obtain evs where
      e: "events t = events s @ evs" "set evs \<subseteq> range (EvRead fd)" by blast
    then have "\<forall>M. held M evs = M"
      by (intro allI held_quiet) (auto simp: fd_opened_def fd_closed_def)
    with e(1) Some x show ?thesis by (simp add: run_loop_def)
  qed (simp add: run_loop_def)
qed

interpretation read_loop: fd_op "run_loop (read_loop K fd v acc)" "{#}" "\<lambda>_. {{#}}" for K fd v acc
  by (rule read_loop_fd_op)

lemma fork_parent_run: "fork_parent K junk fd0 child = (\<lambda>s. case run_loop (read_loop K fd0 junk 0) s of (x, s) \<Rightarrow>
    (case x of
       None \<Rightarrow> (Diverge, s)
     | Some y \<Rightarrow>
         (case sys_close K (int fd0) s of (_, s) \<Rightarrow>
            if fst y = -1 then
              (case sys_kill K child SIGKILL s of (_, s) \<Rightarrow>
                (case sys_waitpid K child s of (_, s) \<Rightarrow> (Ret (sint (of_le (snd y))), s)))
            else (Ret (sint (of_le (snd y))), s))))"
  by (auto simp: fork_parent_def run_loop_def fun_eq_iff split: option.splits prod.splits)

lemmas fork_rules = fd_op_then [OF read_loop.fd_op_axioms] fd_op_then [OF sys_kill.fd_op_axioms]
  fd_op_then [OF sys_waitpid.fd_op_axioms] fd_op_then [OF sys_fork.fd_op_axioms]
  fd_op_acquire1 [OF sys_pipe.fd_op_axioms] fd_op_option fd_op_if

interpretation fork_parent: fd_op "fork_parent K junk fd0 child" "{#fd0#}" "ret_gain (\<lambda>_. {{#}})" for K junk fd0 child
  unfolding fork_parent_run
  by (intro fork_rules fd_op_return fd_op_release [OF sys_close.fd_op_axioms, where F = "{#}"])
     simp_all

interpretation double_fork: fd_op "double_fork K junk" "{#}" "ret_gain (\<lambda>_. {{#}})" for K junk
  unfolding double_fork_def
proof (rule fd_op_pipe)
  fix a b
  show "fd_op (\<lambda>s. case sys_fork K s of (child, s) \<Rightarrow>
              if child = -1 then
                (case sys_close K (int (fst (a, b))) s of (_, s) \<Rightarrow>
                  (case sys_close K (int (snd (a, b))) s of (_, s) \<Rightarrow> (Ret (-1), s)))
              else if child = 0 then
                (case sys_close K (int (fst (a, b))) s of (_, s) \<Rightarrow>
                  (case sys_fork K s of (f, s) \<Rightarrow>
                     if f = 0 then
                       (case sys_close K (int (snd (a, b))) s of (_, s) \<Rightarrow> (Ret 0, s))
                     else fork_child K (snd (a, b)) f s))
              else
                (case sys_close K (int (snd (a, b))) s of (_, s) \<Rightarrow>
                   fork_parent K junk (fst (a, b)) (nat child) s)) {#a, b#} (ret_gain (\<lambda>_. {{#}}))"
    unfolding fst_conv snd_conv
    by (intro fork_rules fd_op_return fork_child.fd_op_axioms fork_parent.fd_op_axioms
        fd_op_release [OF sys_close.fd_op_axioms [of K "int a"], where F = "{#b#}"]
        fd_op_release [OF sys_close.fd_op_axioms [of K "int b"], where F = "{#a#}"]
        fd_op_release [OF sys_close.fd_op_axioms [of K "int b"], where F = "{#}"])
       (simp_all add: add_mset_commute)
qed (simp add: fd_op_return)

section \<open>A run\<close>

text \<open>
  The child's side: its first \<open>fork\<close> returns 0 and its second one 1234, and the pipe takes one byte
  at a time. The original process reads two bytes at a time.
\<close>

definition child_os :: "nat os" where
  "child_os = refusing_os\<lparr>os_pipe := \<lambda>w. (Ok (6, 7), w), os_fork := \<lambda>w. (Ok (if w = 0 then 0 else 1234), Suc w),
     os_close := \<lambda>_ w. (Ok (), w), os_write := \<lambda>_ _ w. (Ok 1, w)\<rparr>"

definition parent_os :: "bytes os" where
  "parent_os = refusing_os\<lparr>os_pipe := \<lambda>w. (Ok (8, 9), w), os_fork := \<lambda>w. (Ok 77, w),
     os_close := \<lambda>_ w. (Ok (), w), os_read := \<lambda>_ n w. (Ok (take (min n 2) w), drop (min n 2) w)\<rparr>"

definition at_world :: "'w \<Rightarrow> 'w ps" where
  "at_world w = \<lparr>world = w, cerrno = 0, events = []\<rparr>"

lemma pipe_writer_child_os: "pipe_writer child_os 7"
  by (auto simp: pipe_writer_def child_os_def Suc_le_eq)

lemma pipe_reader_parent_os: "pipe_reader parent_os 8 (\<lambda>w. w)"
  by (auto simp: pipe_reader_def parent_os_def)

theorem double_fork_delivers_witness:
  "fst (double_fork child_os ''????'' (at_world 0)) = Exit 0 \<and>
   fst (double_fork parent_os ''????'' (at_world (le_bytes 1234))) = Ret 1234"
proof -
  define s4 where "s4 = \<lparr>world = Suc (Suc 0), cerrno = 0,
      events = [EvPipe (Ok (6, 7)), EvFork (Ok 0), EvClose 6 (Ok ()), EvFork (Ok 1234)]\<rparr>"
  have c: "sys_pipe child_os (at_world 0) = (Some (6, 7), \<lparr>world = 0, cerrno = 0, events = [EvPipe (Ok (6, 7))]\<rparr>)"
    "sys_fork child_os \<lparr>world = 0, cerrno = 0, events = [EvPipe (Ok (6, 7))]\<rparr> =
      (0, \<lparr>world = Suc 0, cerrno = 0, events = [EvPipe (Ok (6, 7)), EvFork (Ok 0)]\<rparr>)"
    "sys_close child_os (int 6) \<lparr>world = Suc 0, cerrno = 0, events = [EvPipe (Ok (6, 7)), EvFork (Ok 0)]\<rparr> =
      (0, \<lparr>world = Suc 0, cerrno = 0, events = [EvPipe (Ok (6, 7)), EvFork (Ok 0), EvClose 6 (Ok ())]\<rparr>)"
    "sys_fork child_os \<lparr>world = Suc 0, cerrno = 0, events = [EvPipe (Ok (6, 7)), EvFork (Ok 0), EvClose 6 (Ok ())]\<rparr> =
      (1234, s4)"
    by (simp_all add: child_os_def sys_eval at_world_def s4_def)
  have "double_fork child_os ''????'' (at_world 0) = fork_child child_os 7 1234 s4"
    using c by (simp add: double_fork_def)
  with fork_child_writes [OF pipe_writer_child_os, of 1234 s4]
  have w: "written 7 (drop (length (events s4)) (events (snd (double_fork child_os ''????'' (at_world 0))))) = le_bytes 1234"
    by auto
  have "fst (double_fork child_os ''????'' (at_world 0)) = Exit (if (1234 :: int) < 0 then 1 else 0) \<and>
      written 7 (drop (length (events s4)) (events (snd (double_fork child_os ''????'' (at_world 0))))) =
        le_bytes (word_of_int 1234) \<and>
      fst (double_fork parent_os ''????'' (at_world (le_bytes 1234))) = Ret 1234"
    by (rule double_fork_delivers [OF c _ pipe_writer_child_os _ _ _ _ _ _ _ pipe_reader_parent_os,
          where rest = "[]" and ?q1.0 = 9 and pid = 77 and v = 1234])
       (simp_all add: w [unfolded at_world_def] parent_os_def sys_eval at_world_def)+
  then show ?thesis by simp
qed

theorem double_fork_interrupted_witness:
  "fst (double_fork (parent_os\<lparr>os_read := \<lambda>_ _ w. (Err EINTR, w)\<rparr>) ''????'' (at_world (le_bytes 1234))) =
    Ret (sint (of_le ''????''))"
proof -
  let ?K = "parent_os\<lparr>os_read := \<lambda>_ _ w. (Err EINTR, w)\<rparr>"
  have "\<exists>t. double_fork ?K ''????'' (at_world (le_bytes 1234)) = (Ret (sint (of_le ''????'')), t) \<and>
      (\<exists>q. EvKill 77 SIGKILL q \<in> set (events t))"
    by (rule double_fork_interrupted [where ?p0.0 = 8 and ?p1.0 = 9 and pid = 77])
       (simp_all add: parent_os_def sys_eval at_world_def)
  then show ?thesis by auto
qed

theorem double_fork_end_of_file_witness:
  "fst (double_fork (parent_os\<lparr>os_read := \<lambda>_ _ w. (Ok [], w)\<rparr>) ''????'' (at_world [])) = Diverge"
  by (rule double_fork_end_of_file [where ?p0.0 = 8 and ?p1.0 = 9 and pid = 77])
     (simp_all add: parent_os_def sys_eval at_world_def)

section \<open>The descriptor flags\<close>

text \<open>The flags the kernel keeps per descriptor.\<close>

definition fd_table :: "'w os \<Rightarrow> ('w \<Rightarrow> nat \<rightharpoonup> 32 word) \<Rightarrow> bool" where
  "fd_table K view \<longleftrightarrow>
     (\<forall>fd w. os_getfd K fd w = (case view w fd of None \<Rightarrow> Err EBADF | Some x \<Rightarrow> Ok x, w)) \<and>
     (\<forall>fd x w. case view w fd of
        None \<Rightarrow> os_setfd K fd x w = (Err EBADF, w)
      | Some _ \<Rightarrow> fst (os_setfd K fd x w) = Ok () \<and> view (snd (os_setfd K fd x w)) = (view w)(fd \<mapsto> x))"

text \<open>
  \<open>AsFdExt::clear_cloexec\<close> changes nothing but the close-on-exec flag: where the kernel keeps
  flags per descriptor, an \<open>Ok\<close> leaves the descriptor with its flags minus \<open>FD_CLOEXEC\<close> and every other
  descriptor as it was, and it is an error exactly when one of the two \<open>fcntl\<close> calls is.
\<close>

lemma clear_cloexec_flags:
  assumes "fd_table K view" "fd_clear_cloexec K fd s = (r, t)"
  shows "case view (world s) fd of
      None \<Rightarrow> r = Err (from_raw_os_error EBADF) \<and> view (world t) = view (world s)
    | Some x \<Rightarrow> r = Ok () \<and> view (world t) = (view (world s))(fd \<mapsto> x AND NOT FD_CLOEXEC) \<and>
        \<not> bit (x AND NOT FD_CLOEXEC) 0 \<and> (\<forall>i > 0. bit (x AND NOT FD_CLOEXEC) i = bit x i)"
proof (cases "view (world s) fd")
  case None
  with assms show ?thesis
    by (auto simp: fd_table_def fd_clear_cloexec_def clear_cloexec_def ask_def c_opt_def last_os_error_def)
next
  case (Some x)
  have b: "\<not> bit (x AND NOT FD_CLOEXEC) 0" "bit (x AND NOT FD_CLOEXEC) i = bit x i" if "i > 0" for i
    using that bit_imp_le_length [of x i] by (auto simp: FD_CLOEXEC_def bit_and_iff bit_not_iff bit_1_iff)
  let ?x = "x AND NOT FD_CLOEXEC"
  have g: "os_getfd K fd (world s) = (Ok x, world s)" using assms(1) Some by (simp add: fd_table_def)
  obtain w where w: "os_setfd K fd ?x (world s) = (Ok (), w)" "view w = (view (world s))(fd \<mapsto> ?x)"
    using assms(1) Some unfolding fd_table_def by (metis (mono_tags, lifting) option.simps(5) prod.collapse)
  from assms(2) g w b Some show ?thesis
    by (auto simp: fd_clear_cloexec_def clear_cloexec_def ask_def c_opt_def c_unit_def)
qed

definition table_os :: "(nat \<rightharpoonup> 32 word) os" where
  "table_os = refusing_os\<lparr>os_getfd := \<lambda>fd w. (case w fd of None \<Rightarrow> Err EBADF | Some x \<Rightarrow> Ok x, w),
     os_setfd := \<lambda>fd x w. (case w fd of None \<Rightarrow> (Err EBADF, w) | Some _ \<Rightarrow> (Ok (), w(fd \<mapsto> x)))\<rparr>"

lemma clear_cloexec_flags_example:
  "world (snd (fd_clear_cloexec table_os 5 (at_world [5 \<mapsto> 1, 6 \<mapsto> 1]))) = [5 \<mapsto> 0, 6 \<mapsto> 1]"
proof -
  have "fd_table table_os (\<lambda>w. w)" by (auto simp: fd_table_def table_os_def split: option.splits)
  from clear_cloexec_flags [OF this, of 5 "at_world [5 \<mapsto> 1, 6 \<mapsto> 1]" "fst (fd_clear_cloexec table_os 5 (at_world [5 \<mapsto> 1, 6 \<mapsto> 1]))"]
  have "world (snd (fd_clear_cloexec table_os 5 (at_world [5 \<mapsto> 1, 6 \<mapsto> 1]))) =
      [5 \<mapsto> 1, 6 \<mapsto> 1](5 \<mapsto> 1 AND NOT FD_CLOEXEC)"
    by (simp add: at_world_def)
  then show ?thesis by (simp add: FD_CLOEXEC_def fun_eq_iff)
qed

end
