(* ===== verification/Quiet.thy ===== *)
theory Quiet
  imports VmConfig Fork
begin

text \<open>
  Which events an operation can leave in the log. Starting the VMM (\<open>EvExec\<close>), telling the
  supervisor that the VM is ready (\<open>EvWriteFile\<close>), creating the API socket (\<open>EvBind\<close>) and printing an error
  message (\<open>EvStderr\<close>) are done in one place each; the locale \<open>quiet_op\<close> is the contract of an operation that does
  none of these, whatever the kernel answers. It is interpreted for everything that
  \<open>vm_config\<close> and \<open>double_fork\<close> rest on.
\<close>

definition quiet :: "event \<Rightarrow> bool" where
  "quiet e = (case e of EvExec _ _ \<Rightarrow> False | EvWriteFile _ _ _ \<Rightarrow> False | EvBind _ _ \<Rightarrow> False
     | EvStderr _ _ \<Rightarrow> False | _ \<Rightarrow> True)"

definition quietly :: "'w ps \<Rightarrow> 'w ps \<Rightarrow> bool" where
  "quietly s t \<longleftrightarrow> (\<exists>evs. events t = events s @ evs \<and> list_all quiet evs)"

lemma quietly_refl [simp]: "quietly s s"
  by (simp add: quietly_def)

lemma quietly_trans: "quietly s t \<Longrightarrow> quietly t u \<Longrightarrow> quietly s u"
  by (auto simp: quietly_def)

locale quiet_op =
  fixes op :: "'w ps \<Rightarrow> 'a \<times> 'w ps"
  assumes quiet: "quietly s (snd (op s))"
begin

lemma log: "op s = (r, t) \<Longrightarrow> \<exists>evs. events t = events s @ evs \<and> list_all quiet evs"
  using quiet [of s] by (simp add: quietly_def)

end

section \<open>Rules\<close>

named_theorems quiet_intros \<open>operations that are quiet\<close>

lemma quiet_return: "quiet_op (\<lambda>s. (a, s))"
  by unfold_locales simp

lemma quiet_return_st: "quiet_op (\<lambda>s. (a s, s))"
  by unfold_locales simp

lemma quiet_bind:
  assumes "quiet_op f" "\<And>a. quiet_op (g a)"
  shows "quiet_op (\<lambda>s. case f s of (a, t) \<Rightarrow> g a t)"
proof
  fix s
  obtain a t where "f s = (a, t)" by force
  with quiet_op.quiet [OF assms(1), of s] quiet_op.quiet [OF assms(2) [of a], of t]
  show "quietly s (snd (case f s of (a, t) \<Rightarrow> g a t))" by (auto intro: quietly_trans)
qed

lemma quiet_if: "quiet_op f \<Longrightarrow> quiet_op g \<Longrightarrow> quiet_op (\<lambda>s. if b then f s else g s)"
  by (cases b) auto

lemma quiet_if_st: "quiet_op f \<Longrightarrow> quiet_op g \<Longrightarrow> quiet_op (\<lambda>s. if b s then f s else g s)"
  by unfold_locales (simp add: quiet_op.quiet)

lemma quiet_option:
  "quiet_op h \<Longrightarrow> (\<And>y. quiet_op (g y)) \<Longrightarrow> quiet_op (\<lambda>s. case a of None \<Rightarrow> h s | Some y \<Rightarrow> g y s)"
  by (cases a) auto

lemma quiet_result:
  "(\<And>y. quiet_op (f y)) \<Longrightarrow> (\<And>y. quiet_op (g y)) \<Longrightarrow> quiet_op (\<lambda>s. case a of Ok y \<Rightarrow> f y s | Err y \<Rightarrow> g y s)"
  by (cases a) auto

lemma quiet_outcome:
  assumes "\<And>y. quiet_op (f y)" "quiet_op g" "\<And>n. quiet_op (h n)" "quiet_op k"
  shows "quiet_op (\<lambda>s. case a of Ret y \<Rightarrow> f y s | Panic \<Rightarrow> g s | Exit n \<Rightarrow> h n s | Diverge \<Rightarrow> k s)"
  using assms by (cases a) auto

lemma quiet_pair: "(\<And>x y. quiet_op (g x y)) \<Longrightarrow> quiet_op (\<lambda>s. case a of (x, y) \<Rightarrow> g x y s)"
  by (cases a) auto

lemma quiet_let: "(\<And>a. quiet_op (g a)) \<Longrightarrow> quiet_op (\<lambda>s. let a = h s in g a s)"
  by (simp add: quiet_op_def Let_def)

lemma quiet_bind_res:
  assumes "quiet_op f" "\<And>a. quiet_op (g a)" "\<And>e. quiet_op (h e)"
  shows "quiet_op (\<lambda>s. case f s of (Ok a, t) \<Rightarrow> g a t | (Err e, t) \<Rightarrow> h e t)"
  using quiet_bind [OF assms(1), of "\<lambda>r s. case r of Ok a \<Rightarrow> g a s | Err e \<Rightarrow> h e s"]
    quiet_result [of g h, OF assms(2,3)] by (simp add: case_prod_beta)

lemma quiet_pre:
  assumes "quiet_op f" "\<And>s. quietly s (u s)"
  shows "quiet_op (\<lambda>s. f (u s))"
  by unfold_locales (meson assms quiet_op.quiet quietly_trans)

lemma quietly_set_errno: "quietly s (set_errno e s)"
  by (simp add: quietly_def set_errno_def)

lemma quietly_warn: "quietly s (c_warn m s)"
  by (simp add: quietly_def c_warn_def emit_def quiet_def)

lemma quietly_warn_if: "quietly s (if b then c_warn m s else s)"
  by (simp add: quietly_warn)

lemma quiet_warn_if: "quiet_op f \<Longrightarrow> quiet_op (\<lambda>s. f (if b then c_warn m s else s))"
  by (erule quiet_pre) (rule quietly_warn_if)

lemma quiet_errno: "quiet_op (\<lambda>s. (a, set_errno e s))"
  by (rule quiet_pre [OF quiet_return]) (rule quietly_set_errno)

lemma quiet_ask: "(\<And>r. quiet (ev r)) \<Longrightarrow> quiet_op (ask f ev)"
  by unfold_locales (simp add: ask_def quietly_def split: prod.splits)

lemma quiet_map:
  assumes "quiet_op f" "\<And>r s. events (snd (h (r, s))) = events s"
  shows "quiet_op (\<lambda>s. h (f s))"
proof
  fix s
  obtain r t where "f s = (r, t)" by force
  with quiet_op.quiet [OF assms(1), of s] assms(2) [of r t] show "quietly s (snd (h (f s)))"
    by (simp add: quietly_def)
qed

lemma quiet_c_ret: "quiet_op f \<Longrightarrow> quiet_op (\<lambda>s. c_ret (f s))"
  by (erule quiet_map) (auto simp: c_ret_def split: result.splits)

lemma quiet_c_unit: "quiet_op f \<Longrightarrow> quiet_op (\<lambda>s. c_unit (f s))"
  by (erule quiet_map) (auto simp: c_unit_def split: result.splits)

lemma quiet_c_opt: "quiet_op f \<Longrightarrow> quiet_op (\<lambda>s. c_opt (f s))"
  by (erule quiet_map) (auto simp: c_opt_def split: result.splits)

lemmas quiet_rules = quiet_return quiet_errno quiet_bind_res quiet_bind quiet_if quiet_option quiet_result
  quiet_outcome quiet_pair

section \<open>Requests\<close>

lemma quiet_requests [quiet_intros]:
  "quiet_op (sys_socket K)" "quiet_op (sys_open K p)" "quiet_op (sys_close K fd)" "quiet_op (sys_ioctl K fd q)"
  "quiet_op (sys_getifflags K fd n)" "quiet_op (sys_tunsetiff K fd n f)" "quiet_op (sys_pipe K)"
  "quiet_op (sys_fork K)" "quiet_op (sys_write K i b)" "quiet_op (sys_kill K i g)" "quiet_op (sys_waitpid K i)"
  "quiet_op (spawn K c)" "quiet_op (wait K i)" "quiet_op (write_stdin K i b)" "quiet_op (read_dir K p)"
  unfolding sys_socket_def sys_open_def sys_close_def sys_ioctl_def sys_getifflags_def sys_tunsetiff_def
    sys_pipe_def sys_fork_def sys_write_def sys_kill_def sys_waitpid_def spawn_def wait_def write_stdin_def read_dir_def
  by (intro quiet_c_ret quiet_c_unit quiet_c_opt quiet_ask; simp add: quiet_def)+

lemma quiet_if_nametoindex [quiet_intros]: "quiet_op (sys_if_nametoindex K n)"
  by unfold_locales (auto simp: sys_if_nametoindex_def ask_def quietly_def quiet_def split: prod.splits result.splits)

section \<open>Networking\<close>

lemma quiet_net_util [quiet_intros]:
  "quiet_op (if_up K n)" "quiet_op (if_down K n)" "quiet_op (if_rename K n m)" "quiet_op (bridge_add K n)"
  "quiet_op (bridge_add_if K b n)" "quiet_op (bridge_remove_if K b n)" "quiet_op (tap_open K c n f)"
  unfolding if_up_def if_down_def if_rename_def bridge_add_def bridge_add_if_def bridge_remove_if_def tap_open_def Let_def
  by (intro quiet_rules quiet_intros)+

lemma quiet_bridge_delete [quiet_intros]: "quiet_op (bridge_delete K n)"
proof -
  have "quiet_op (\<lambda>s. case sys_socket K s of (fd, s) \<Rightarrow>
     if fd = -1 then (-1, s)
     else (case sys_ioctl K fd (SIOCBRDELBR (cstr n)) s of (r, s) \<Rightarrow>
        (case sys_close K fd s of (_, s) \<Rightarrow> (r, s))))"
    by (intro quiet_rules quiet_intros)
  from quiet_warn_if [OF this] show ?thesis
    unfolding bridge_delete_def by (rule quiet_bind [OF quiet_net_util(2)])
qed

lemma quiet_ch [quiet_intros]:
  "quiet_op (add_net K d n)" "quiet_op (remove_device K d i)" "quiet_op (remove_device_c K d i)" "quiet_op (add_net_c K d c)"
proof -
  show a: "quiet_op (add_net K d n)" for n
    unfolding add_net_def by (intro quiet_rules quiet_intros)
  show r: "quiet_op (remove_device K d i)" for i
    unfolding remove_device_def by (intro quiet_rules quiet_intros)
  show "quiet_op (remove_device_c K d i)"
    unfolding remove_device_c_def by (intro quiet_rules r)
  show "quiet_op (add_net_c K d c)"
    unfolding add_net_c_def by (intro quiet_rules a)
qed

lemma quiet_setup_tap [quiet_intros]: "quiet_op (setup_tap K stk b p n)" "quiet_op (client_net_setup K stk b n)"
proof -
  have "quiet_op (\<lambda>s. case tap_open K (stk_ifr stk) (snd (snprintf n IFNAMSIZ (p @ dec pid))) tap_flags s of (ft, s) \<Rightarrow>
          (case ft of (fd, tap_name) \<Rightarrow>
             if fd = -1 then ((-1, tap_name), s)
             else
               (case bridge_add_if K b tap_name s of (r, s) \<Rightarrow>
                  if r = -1 then (case sys_close K fd s of (_, s) \<Rightarrow> ((-1, tap_name), s))
                  else
                    (case if_up K tap_name s of (r, s) \<Rightarrow>
                       if r = -1 then (case sys_close K fd s of (_, s) \<Rightarrow> ((-1, tap_name), s))
                       else ((fd, tap_name), s)))))" for pid p
    by (intro quiet_rules quiet_intros)
  note q = this [THEN quiet_op.quiet]
  show st: "quiet_op (setup_tap K stk b p n)" for p
    by unfold_locales (use q in \<open>simp add: setup_tap_def\<close>)
  show "quiet_op (client_net_setup K stk b n)"
    unfolding client_net_setup_def by (rule st)
qed

lemma quiet_cleanup [quiet_intros]: "quiet_op (router_net_cleanup K stk pid d i)" "quiet_op (bridge_cleanup K stk pid)"
proof -
  have "quiet_op (\<lambda>s. case if_down K n s of (r, s) \<Rightarrow> if r = -1 then (-1, s) else if_rename K n m s)" for n m
    by (intro quiet_rules quiet_intros)
  note q = quiet_warn_if [OF this]
  show "quiet_op (router_net_cleanup K stk pid d i)"
    unfolding router_net_cleanup_def Let_def by (intro quiet_rules quiet_intros q)
  show "quiet_op (bridge_cleanup K stk pid)"
    unfolding bridge_cleanup_def by (intro quiet_intros)
qed

lemma quiet_exit_listener_main:
  "quiet_op (exit_listener_main K stk fd pid d i :: 'w ps \<Rightarrow> 'a outcome \<times> 'w ps)"
proof
  fix s :: "'w ps"
  have "quiet_op (\<lambda>s. case bridge_cleanup K stk pid s of (r2, s) \<Rightarrow>
      (Exit (if r1 = -1 \<or> r2 = -1 then 1 else 0) :: 'a outcome, if r2 = -1 then c_warn ''cleaning up bridge'' s else s))" for r1 :: int
    by (intro quiet_bind quiet_intros quiet_warn_if [OF quiet_return])
  then have c: "quiet_op (\<lambda>s. case router_net_cleanup K stk pid d i s of (r1, s) \<Rightarrow>
      (case bridge_cleanup K stk pid (if r1 = -1 then c_warn ''cleaning up router tap'' s else s) of (r2, s) \<Rightarrow>
        (Exit (if r1 = -1 \<or> r2 = -1 then 1 else 0) :: 'a outcome, if r2 = -1 then c_warn ''cleaning up bridge'' s else s)))"
    by (intro quiet_bind [OF quiet_cleanup(1)] quiet_warn_if)
  show "quietly s (snd (exit_listener_main K stk fd pid d i s :: 'a outcome \<times> _))"
  proof (cases "poll_loop K fd s")
    case None
    then show ?thesis by (simp add: exit_listener_main_def)
  next
    case (Some x)
    obtain q t where x: "x = (q, t)" by force
    from poll_loop_log [OF Some [unfolded x]] obtain evs where
      e: "events t = events s @ evs" "set evs \<subseteq> range (EvPoll fd)" by blast
    then have st: "quietly s t" by (auto simp: quietly_def quiet_def list_all_iff)
    show ?thesis
    proof (cases q)
      case (Err e)
      with Some x st quietly_warn show ?thesis by (auto simp: exit_listener_main_def intro: quietly_trans)
    next
      case (Ok rev)
      with Some x st quiet_op.quiet [OF c, of t] show ?thesis
        by (auto simp: exit_listener_main_def intro: quietly_trans)
    qed
  qed
qed

lemma quiet_net [quiet_intros]:
  "quiet_op (router_net_setup K stk b d m i)" "quiet_op (exit_listener_setup K stk d i)" "quiet_op (fail_bridge K b r)"
  unfolding router_net_setup_def exit_listener_setup_def fail_bridge_def
  by (intro quiet_let quiet_rules quiet_intros quiet_exit_listener_main)+

interpretation net_setup_q: quiet_op "net_setup K stk d" for K stk d
  unfolding net_setup_def
  apply (rule quiet_let) apply (unfold Let_def)
  by (intro quiet_rules quiet_intros)

section \<open>The configuration and the forks\<close>

interpretation vm_config_q: quiet_op "vm_config K x stk d" for K x stk d
proof -
  have p: "quiet_op (net_provider K stk d r)" for r
    unfolding net_provider_def
    by (intro quiet_rules quiet_return_st net_setup_q.quiet_op_axioms)
  have "quiet_op (collect_st (net_provider K stk d) (take 1 es))" for es
    by (cases es) (auto simp: collect_st_Nil collect_st_single [abs_def] intro!: quiet_return quiet_bind p)
  then have n: "quiet_op (net_devices K stk d e)" for e
    unfolding net_devices_def by (intro quiet_rules quiet_intros)
  show "quiet_op (vm_config K x stk d)"
    unfolding vm_config_def Let_def by (intro quiet_rules quiet_intros n)
qed

interpretation double_fork_q: quiet_op "double_fork K junk" for K :: "'w os" and junk
proof -
  have "quiet_op (fork_child K fd f)" for fd f
  proof
    fix s :: "'w ps"
    let ?v = "le_bytes (word_of_int (if f = -1 then - int (cerrno s) else f))"
    show "quietly s (snd (fork_child K fd f s))"
      using write_loop_log [of K fd ?v 0 s]
      by (fastforce simp: fork_child_def Let_def quietly_def quiet_def list_all_iff split: option.splits prod.splits)
  qed
  moreover have "quiet_op (run_loop (read_loop K fd v 0))" for fd v
  proof
    fix s
    show "quietly s (snd (run_loop (read_loop K fd v 0) s))"
      using read_loop_log [of K fd v 0 s]
      by (fastforce simp: run_loop_def quietly_def quiet_def list_all_iff split: option.splits prod.splits)
  qed
  then have "quiet_op (fork_parent K junk fd pid)" for fd pid
    unfolding fork_parent_run by (intro quiet_rules quiet_intros)
  ultimately show "quiet_op (double_fork K junk)"
    unfolding double_fork_def by (intro quiet_rules quiet_intros)
qed

end
