(* ===== verification/StartVmm.thy ===== *)
theory StartVmm
  imports Quiet
begin

text \<open>
  The rest of \<open>host/start-vmm/lib.rs\<close> and \<open>start-vmm.rs\<close>: from the command line to the
  Cloud Hypervisor process. The arguments of the process (\<open>args_os\<close>) are the list \<open>args\<close>. A value of type
  \<open>File\<close> or \<open>UnixListener\<close> closes its descriptor where the source drops it. \<open>eprintln!\<close> is an event of
  the log. A successful \<open>exec\<close> does not return.
\<close>

unbundle bit_operations_syntax

definition SIGTERM :: nat where
  "SIGTERM = 15"

definition prog_name :: "bytes list \<Rightarrow> bytes" where
  "prog_name args =
     (case args of
        [] \<Rightarrow> ''start-vmm''
      | arg0 # _ \<Rightarrow> (case file_name arg0 of None \<Rightarrow> ''start-vmm'' | Some f \<Rightarrow> to_string_lossy f))"

definition eprintln :: "bytes option \<Rightarrow> vmm_error \<Rightarrow> 'w ps \<Rightarrow> 'w ps" where
  "eprintln prog e s = emit (EvStderr prog e) s"

definition create_api_socket :: "'w os \<Rightarrow> path \<Rightarrow> 'w ps \<Rightarrow> (nat, vmm_error) result \<times> 'w ps" where
  "create_api_socket K vm_dir s =
     (let path = join vm_dir ''vmm'' in
      case ask (os_remove_file K path) (EvRemoveFile path) s of (_, s) \<Rightarrow>
       (case ask (os_bind K path) (EvBind path) s of
          (Err e, s) \<Rightarrow> (Err (CreatingApiSocket e), s)
        | (Ok api_socket, s) \<Rightarrow>
           (case fd_clear_cloexec K api_socket s of
              (Err e, s) \<Rightarrow>
                (case sys_close K (int api_socket) s of (_, s) \<Rightarrow> (Err (ClearingCloexec e), s))
            | (Ok _, s) \<Rightarrow> (Ok api_socket, s))))"

definition create_vm_child_main ::
    "'w os \<Rightarrow> (vm_config \<Rightarrow> bytes) \<Rightarrow> bytes list \<Rightarrow> path \<Rightarrow> nat \<Rightarrow> vm_config \<Rightarrow> 'w ps \<Rightarrow>
     (unit, vmm_error) result outcome \<times> 'w ps" where
  "create_vm_child_main K to_json args vm_dir ready_fd config s =
     (case ch_create_vm K to_json vm_dir config s of
        (Err e, s) \<Rightarrow>
          (case sys_kill K (os_getppid K (world s)) SIGTERM (eprintln (Some (prog_name args)) (CreatingVm e) s) of (k, s) \<Rightarrow>
            (Exit 1, if k = -1 then eprintln (Some (prog_name args)) (KillingCloudHypervisor (last_os_error s)) s else s))
      | (Ok _, s) \<Rightarrow>
          (case notify_readiness K ready_fd s of
             (Err e, s) \<Rightarrow> (Exit 1, eprintln (Some (prog_name args)) (FailedNotifyReadiness e) s)
           | (Ok _, s) \<Rightarrow> (Exit 0, s)))"

text \<open>
  \<open>create_vm\<close>. The file \<open>ready_fd\<close> is its own, and is closed on every path that returns; \<open>junk\<close> is
  uninitialised memory of \<open>double_fork\<close>.
\<close>

definition create_vm ::
    "'w os \<Rightarrow> (vm_config \<Rightarrow> bytes) \<Rightarrow> bool \<Rightarrow> stack \<Rightarrow> bytes \<Rightarrow> bytes list \<Rightarrow> path \<Rightarrow> nat \<Rightarrow> 'w ps \<Rightarrow>
     (unit, vmm_error) result outcome \<times> 'w ps" where
  "create_vm K to_json x86_64 stk junk args vm_dir ready_fd s =
     (case vm_config K x86_64 stk vm_dir s of (c, s) \<Rightarrow>
       (case c of
          Panic \<Rightarrow> (Panic, s) | Exit n \<Rightarrow> (Exit n, s) | Diverge \<Rightarrow> (Diverge, s)
        | Ret (Err e) \<Rightarrow> (case sys_close K (int ready_fd) s of (_, s) \<Rightarrow> (Ret (Err e), s))
        | Ret (Ok config) \<Rightarrow>
           (case double_fork K junk s of (f, s) \<Rightarrow>
             (case f of
                Panic \<Rightarrow> (Panic, s) | Exit n \<Rightarrow> (Exit n, s) | Diverge \<Rightarrow> (Diverge, s)
              | Ret e \<Rightarrow>
                  if e < 0 then
                    (case sys_close K (int ready_fd) s of (_, s) \<Rightarrow>
                      (Ret (Err (DoubleFork (from_raw_os_error (nat (- e))))), s))
                  else if e = 0 then create_vm_child_main K to_json args vm_dir ready_fd config s
                  else (case sys_close K (int ready_fd) s of (_, s) \<Rightarrow> (Ret (Ok ()), s))))))"

definition vm_command :: "nat \<Rightarrow> (command, vmm_error) result" where
  "vm_command api_socket_fd =
     Ok (arg (''fd='' @ dec api_socket_fd) (arg ''--api-socket'' (command_new ''cloud-hypervisor'')))"

definition ex_usage :: "'w ps \<Rightarrow> 'a outcome \<times> 'w ps" where
  "ex_usage s = (Exit 1, eprintln None Usage s)"

definition exec :: "'w os \<Rightarrow> command \<Rightarrow> 'w ps \<Rightarrow> vmm_error outcome \<times> 'w ps" where
  "exec K command s =
     (case ask (os_exec K command) (EvExec command) s of
        (Ok _, s) \<Rightarrow> (Diverge, s)
      | (Err e, s) \<Rightarrow> (Ret (FailedExec e), s))"

definition run ::
    "'w os \<Rightarrow> (vm_config \<Rightarrow> bytes) \<Rightarrow> bool \<Rightarrow> stack \<Rightarrow> bytes \<Rightarrow> bytes list \<Rightarrow> 'w ps \<Rightarrow> vmm_error outcome \<times> 'w ps" where
  "run K to_json x86_64 stk junk args s =
     (case drop 1 args of
        [] \<Rightarrow> ex_usage s
      | vm_name # rest \<Rightarrow>
         if rest \<noteq> [] then ex_usage s
         else
           let vm_dir = join ''/run/vm'' vm_name in
           (case create_api_socket K vm_dir s of
              (Err e, s) \<Rightarrow> (Ret e, s)
            | (Ok api_socket, s) \<Rightarrow>
               (case create_vm K to_json x86_64 stk junk args vm_dir 3 s of (r, s) \<Rightarrow>
                 (case r of
                    Panic \<Rightarrow> (Panic, s) | Exit n \<Rightarrow> (Exit n, s) | Diverge \<Rightarrow> (Diverge, s)
                  | Ret (Err e) \<Rightarrow> (case sys_close K (int api_socket) s of (_, s) \<Rightarrow> (Ret e, s))
                  | Ret (Ok _) \<Rightarrow>
                     (case vm_command api_socket of
                        Ok command \<Rightarrow> exec K command s
                      | Err e \<Rightarrow> (Ret e, s))))))"

definition main ::
    "'w os \<Rightarrow> (vm_config \<Rightarrow> bytes) \<Rightarrow> bool \<Rightarrow> stack \<Rightarrow> bytes \<Rightarrow> bytes list \<Rightarrow> 'w ps \<Rightarrow> unit outcome \<times> 'w ps" where
  "main K to_json x86_64 stk junk args s =
     (case run K to_json x86_64 stk junk args s of (r, s) \<Rightarrow>
       (case r of
          Ret e \<Rightarrow> (Exit 1, eprintln (Some (prog_name args)) e s)
        | Panic \<Rightarrow> (Panic, s) | Exit n \<Rightarrow> (Exit n, s) | Diverge \<Rightarrow> (Diverge, s)))"

section \<open>The log of each step\<close>

definition is_exec :: "event \<Rightarrow> bool" where
  "is_exec e = (case e of EvExec _ _ \<Rightarrow> True | _ \<Rightarrow> False)"

definition is_ready :: "event \<Rightarrow> bool" where
  "is_ready e = (case e of EvWriteFile _ _ _ \<Rightarrow> True | _ \<Rightarrow> False)"

lemma quiet_not: "quiet e \<Longrightarrow> \<not> is_exec e \<and> \<not> is_ready e"
  by (cases e) (auto simp: quiet_def is_exec_def is_ready_def)

lemma list_all_quiet_not: "list_all quiet evs \<Longrightarrow> \<forall>e \<in> set evs. \<not> is_exec e \<and> \<not> is_ready e"
  by (auto simp: list_all_iff quiet_not)

lemma create_api_socket_Ok:
  assumes "create_api_socket K vm_dir s = (Ok fd, t)"
  shows "\<exists>q fl. events t = events s @ [EvRemoveFile (join vm_dir ''vmm'') q, EvBind (join vm_dir ''vmm'') (Ok fd),
    EvGetFd fd (Ok fl), EvSetFd fd (fl AND NOT FD_CLOEXEC) (Ok ())]"
  using assms
  by (auto simp: create_api_socket_def Let_def ask_def fd_clear_cloexec_def clear_cloexec_def c_opt_def c_unit_def
      split: prod.splits result.splits option.splits if_splits)

lemma create_api_socket_Err:
  assumes "create_api_socket K vm_dir s = (Err e, t)"
  shows "\<exists>evs. events t = events s @ evs \<and> (\<forall>e \<in> set evs. \<not> is_exec e \<and> \<not> is_ready e)"
  using assms
  by (auto simp: create_api_socket_def Let_def ask_def fd_clear_cloexec_def clear_cloexec_def c_opt_def c_unit_def
      sys_close_def is_exec_def is_ready_def split: prod.splits result.splits option.splits if_splits)

lemma quiet_add_nets: "quiet_op (add_nets K vm_dir nets)"
proof (induction nets)
  case Nil
  have "add_nets K vm_dir [] = (\<lambda>s. (Ok (), s))" by auto
  then show ?case by (simp add: quiet_return)
next
  case (Cons net nets)
  have "add_nets K vm_dir (net # nets) = (\<lambda>s. case add_net K vm_dir net s of
      (Err e, s) \<Rightarrow> (Err (FailedAddNet e), s) | (Ok _, s) \<Rightarrow> add_nets K vm_dir nets s)" by auto
  with Cons show ?case by (auto intro!: quiet_rules quiet_intros)
qed

interpretation ch_create_vm_q: quiet_op "ch_create_vm K to_json vm_dir config" for K to_json vm_dir config
  unfolding ch_create_vm_def Let_def by (intro quiet_rules quiet_intros quiet_add_nets)

section \<open>The process that creates the VM\<close>

lemma notify_readiness_log:
  assumes "notify_readiness K fd s = (r, t)"
  shows "\<exists>q c. events t = events s @ [EvWriteFile fd [CHR 0x0A] q, EvClose (int fd) c] \<and>
    r = map_err NotifyingReadiness q"
  using assms by (auto simp: notify_readiness_def ask_def sys_close_def c_unit_def split: prod.splits result.splits)

lemma sys_kill_log:
  assumes "sys_kill K pid sig s = (r, t)"
  shows "\<exists>q. events t = events s @ [EvKill pid sig q] \<and> (r = -1 \<longleftrightarrow> is_err q)"
  using assms by (auto simp: sys_kill_def ask_def c_unit_def split: prod.splits result.splits)

lemma child_main_created:
  assumes "ch_create_vm K to_json vm_dir config s = (Ok (), u)"
    "create_vm_child_main K to_json args vm_dir fd config s = (r, t)"
  shows "\<exists>evs q c post. events u = events s @ evs \<and> list_all quiet evs \<and>
    events t = events s @ evs @ EvWriteFile fd [CHR 0x0A] q # EvClose (int fd) c # post \<and>
    r = Exit (if is_err q then 1 else 0) \<and> (\<forall>e \<in> set post. \<exists>p m. e = EvStderr p m)"
proof -
  obtain evs where e: "events u = events s @ evs" "list_all quiet evs"
    using ch_create_vm_q.log [OF assms(1)] by blast
  obtain n v where n: "notify_readiness K fd u = (n, v)" by force
  from notify_readiness_log [OF n] e(1) obtain q c where
    v: "events v = events s @ evs @ [EvWriteFile fd [CHR 0x0A] q, EvClose (int fd) c]" "n = map_err NotifyingReadiness q"
    by auto
  show ?thesis
  proof (cases q)
    case (Ok x)
    with v(2) n assms have "r = Exit 0" "t = v" by (auto simp: create_vm_child_main_def)
    with v(1) e Ok show ?thesis
      by (intro exI [of _ evs] exI [of _ q] exI [of _ c] exI [of _ "[]"]) auto
  next
    case (Err x)
    with v(2) n assms have "r = Exit 1" "t = eprintln (Some (prog_name args)) (FailedNotifyReadiness (NotifyingReadiness x)) v"
      by (auto simp: create_vm_child_main_def)
    with v(1) e Err show ?thesis
      by (intro exI [of _ evs] exI [of _ q] exI [of _ c]
          exI [of _ "[EvStderr (Some (prog_name args)) (FailedNotifyReadiness (NotifyingReadiness x))]"])
         (auto simp: eprintln_def emit_def)
  qed
qed

lemma child_main_failed:
  assumes "ch_create_vm K to_json vm_dir config s = (Err e, u)"
    "create_vm_child_main K to_json args vm_dir fd config s = (r, t)"
  shows "r = Exit 1 \<and> (\<exists>evs q post. events u = events s @ evs \<and> list_all quiet evs \<and>
    events t = events s @ evs @ EvStderr (Some (prog_name args)) (CreatingVm e) #
      EvKill (os_getppid K (world u)) SIGTERM q # post \<and> (\<forall>e \<in> set post. \<exists>p m. e = EvStderr p m))"
proof -
  obtain evs where e: "events u = events s @ evs" "list_all quiet evs"
    using ch_create_vm_q.log [OF assms(1)] by blast
  let ?p = "Some (prog_name args)"
  obtain k v where k: "sys_kill K (os_getppid K (world u)) SIGTERM (eprintln ?p (CreatingVm e) u) = (k, v)" by force
  from sys_kill_log [OF k] e(1) obtain q where
    v: "events v = events s @ evs @ [EvStderr ?p (CreatingVm e), EvKill (os_getppid K (world u)) SIGTERM q]"
    by (auto simp: eprintln_def emit_def)
  have r: "r = Exit 1" "t = (if k = -1 then eprintln ?p (KillingCloudHypervisor (last_os_error v)) v else v)"
    using assms k by (auto simp: create_vm_child_main_def)
  let ?post = "if k = -1 then [EvStderr ?p (KillingCloudHypervisor (last_os_error v))] else []"
  have "events t = events s @ evs @ EvStderr ?p (CreatingVm e) # EvKill (os_getppid K (world u)) SIGTERM q # ?post"
    using r(2) v by (simp add: eprintln_def emit_def)
  moreover have "\<forall>e \<in> set ?post. \<exists>p m. e = EvStderr p m" by simp
  ultimately show ?thesis using r(1) e by blast
qed


section \<open>The process that becomes the VMM\<close>

lemma create_vm_log:
  assumes "create_vm K to_json x86_64 stk junk args vm_dir fd s = (r, t)"
  shows "\<exists>evs. events t = events s @ evs \<and> (\<forall>e \<in> set evs. \<not> is_exec e) \<and>
    (\<forall>x. r = Ret x \<longrightarrow> list_all quiet evs)"
proof -
  have cl: "quietly s t" if "sys_close K i s = (x, t)" for i s x t
    using quiet_op.quiet [OF quiet_requests(3) [of K i], of s] that by simp
  obtain c u where c: "vm_config K x86_64 stk vm_dir s = (c, u)" by force
  obtain f v where f: "double_fork K junk u = (f, v)" by force
  have su: "quietly s u" and uv: "quietly u v"
    using vm_config_q.quiet [where s = s and K = K and stk = stk and x = x86_64 and d = vm_dir] double_fork_q.quiet [where s = u and K = K and junk = junk] c f by simp_all
  have "quietly s t \<or> (\<exists>config. c = Ret (Ok config) \<and> f = Ret 0 \<and>
      create_vm_child_main K to_json args vm_dir fd config v = (r, t))"
    using assms c f su uv cl
    by (auto simp: create_vm_def intro: quietly_trans split: outcome.splits result.splits prod.splits if_splits)
  then show ?thesis
  proof
    assume "quietly s t"
    then show ?thesis using list_all_quiet_not by (fastforce simp: quietly_def)
  next
    assume "\<exists>config. c = Ret (Ok config) \<and> f = Ret 0 \<and> create_vm_child_main K to_json args vm_dir fd config v = (r, t)"
    then obtain config where m: "create_vm_child_main K to_json args vm_dir fd config v = (r, t)" by blast
    from quietly_trans [OF su uv] obtain e0 where e0: "events v = events s @ e0" "list_all quiet e0"
      by (auto simp: quietly_def)
    obtain y w where y: "ch_create_vm K to_json vm_dir config v = (y, w)" by force
    have "\<exists>evs. events t = events v @ evs \<and> (\<forall>e \<in> set evs. \<not> is_exec e) \<and> (\<forall>x. r \<noteq> Ret x)"
    proof (cases y)
      case (Ok x)
      from child_main_created [OF y [unfolded Ok, simplified] m] list_all_quiet_not
      show ?thesis by (fastforce simp: is_exec_def)
    next
      case (Err x)
      from child_main_failed [OF y [unfolded Err] m] list_all_quiet_not
      show ?thesis by (fastforce simp: is_exec_def)
    qed
    with e0 list_all_quiet_not [OF e0(2)] show ?thesis by fastforce
  qed
qed

lemma exec_log: "exec K c s = (r, t) \<Longrightarrow> \<exists>q. events t = events s @ [EvExec c q] \<and>
    r = (case q of Ok _ \<Rightarrow> Diverge | Err e \<Rightarrow> Ret (FailedExec e))"
  by (auto simp: exec_def ask_def split: prod.splits result.splits)

text \<open>
  The steps of a \<open>run\<close>: it starts no VMM, or it has got a socket and created a VM.
\<close>

lemma run_steps:
  assumes "run K to_json x86_64 stk junk args s = (r, t)"
  shows "(\<exists>evs. events t = events s @ evs \<and> (\<forall>e \<in> set evs. \<not> is_exec e)) \<or>
    (\<exists>arg0 name fd u v. args = [arg0, name] \<and>
       create_api_socket K (join ''/run/vm'' name) s = (Ok fd, u) \<and>
       create_vm K to_json x86_64 stk junk args (join ''/run/vm'' name) 3 u = (Ret (Ok ()), v) \<and>
       exec K (arg (''fd='' @ dec fd) (arg ''--api-socket'' (command_new ''cloud-hypervisor''))) v = (r, t))"
proof (cases "\<exists>arg0 name. args = [arg0, name]")
  case False
  then have "run K to_json x86_64 stk junk args s = ex_usage s"
    by (auto simp: run_def split: list.splits) (metis drop0 drop_Suc list.collapse tl_Nil)
  with assms have "events t = events s @ [EvStderr None Usage]"
    by (auto simp: ex_usage_def eprintln_def emit_def)
  then show ?thesis by (auto simp: is_exec_def)
next
  case True
  then obtain arg0 name where args: "args = [arg0, name]" by blast
  let ?d = "join ''/run/vm'' name"
  obtain a u where a: "create_api_socket K ?d s = (a, u)" by force
  show ?thesis
  proof (cases a)
    case (Err e)
    with create_api_socket_Err [of K ?d s e u] a assms args show ?thesis by (auto simp: run_def)
  next
    case (Ok fd)
    from create_api_socket_Ok [OF a [unfolded Ok]] obtain e1 where
      e1: "events u = events s @ e1" "\<forall>e \<in> set e1. \<not> is_exec e" by (auto simp: is_exec_def)
    obtain c v where c: "create_vm K to_json x86_64 stk junk args ?d 3 u = (c, v)" by force
    from create_vm_log [OF c] obtain e2 where
      e2: "events v = events u @ e2" "\<forall>e \<in> set e2. \<not> is_exec e" by blast
    show ?thesis
    proof (cases "c = Ret (Ok ())")
      case True
      with a Ok c args assms show ?thesis by (auto simp: run_def vm_command_def)
    next
      case False
      with a Ok c args assms have "t = v \<or> (\<exists>x. sys_close K (int fd) v = (x, t))"
        by (auto simp: run_def split: outcome.splits result.splits prod.splits)
      then have "\<exists>e3. events t = events v @ e3 \<and> (\<forall>e \<in> set e3. \<not> is_exec e)"
        by (auto simp: sys_close_def ask_def c_unit_def is_exec_def split: prod.splits result.splits)
      with e1 e2 show ?thesis by fastforce
    qed
  qed
qed

text \<open>
  C1. Cloud Hypervisor is started only in the way it must be: if \<open>start-vmm\<close> executes a program at all, it was called with exactly one
  argument, the program is \<open>cloud-hypervisor --api-socket fd=N\<close> where \<open>N\<close> is the socket bound at
  \<open>/run/vm/NAME/vmm\<close> and not closed on exec, and the process that executes it has not signalled readiness. It executes
  nothing else before and does nothing afterwards except, if the execution fails, printing the error and exiting with status 1.
\<close>

theorem main_execs_vmm:
  assumes "main K to_json x86_64 stk junk args s = (r, t)" "events t = events s @ evs" "EvExec c q \<in> set evs"
  shows "\<exists>arg0 name fd fl pre. args = [arg0, name] \<and>
    cmd_program c = ''cloud-hypervisor'' \<and> cmd_args c = [''--api-socket'', ''fd='' @ dec fd] \<and>
    EvBind (join (join ''/run/vm'' name) ''vmm'') (Ok fd) \<in> set pre \<and>
    EvSetFd fd fl (Ok ()) \<in> set pre \<and> \<not> bit fl 0 \<and>
    (\<forall>e \<in> set pre. \<not> is_exec e \<and> \<not> is_ready e) \<and>
    (case q of
       Ok _ \<Rightarrow> r = Diverge \<and> evs = pre @ [EvExec c q]
     | Err e \<Rightarrow> r = Exit 1 \<and> evs = pre @ [EvExec c q, EvStderr (Some (prog_name args)) (FailedExec e)])"
proof -
  obtain r' u where run: "run K to_json x86_64 stk junk args s = (r', u)" by force
  have main: "(r, t) = (case r' of Ret e \<Rightarrow> (Exit 1, eprintln (Some (prog_name args)) e u)
      | Panic \<Rightarrow> (Panic, u) | Exit n \<Rightarrow> (Exit n, u) | Diverge \<Rightarrow> (Diverge, u))"
    using assms(1) run by (simp add: main_def)
  from run_steps [OF run] show ?thesis
  proof (elim disjE exE conjE)
    fix evs' assume e: "events u = events s @ evs'" "\<forall>e \<in> set evs'. \<not> is_exec e"
    with main assms(2) have "\<forall>e \<in> set evs. \<not> is_exec e"
      by (auto simp: eprintln_def emit_def is_exec_def split: outcome.splits)
    with assms(3) show ?thesis by (auto simp: is_exec_def)
  next
    fix arg0 name fd v w
    assume args: "args = [arg0, name]"
      and sock: "create_api_socket K (join ''/run/vm'' name) s = (Ok fd, v)"
      and vm: "create_vm K to_json x86_64 stk junk args (join ''/run/vm'' name) 3 v = (Ret (Ok ()), w)"
      and ex: "exec K (arg (''fd='' @ dec fd) (arg ''--api-socket'' (command_new ''cloud-hypervisor''))) w = (r', u)"
    let ?c = "arg (''fd='' @ dec fd) (arg ''--api-socket'' (command_new ''cloud-hypervisor''))"
    let ?p = "join (join ''/run/vm'' name) ''vmm''"
    from create_api_socket_Ok [OF sock] obtain x fl where
      e1: "events v = events s @ [EvRemoveFile ?p x, EvBind ?p (Ok fd), EvGetFd fd (Ok fl), EvSetFd fd (fl AND NOT FD_CLOEXEC) (Ok ())]"
      (is "_ = _ @ ?e1") by blast
    from create_vm_log [OF vm] obtain e2 where e2: "events w = events v @ e2" "list_all quiet e2" by blast
    from exec_log [OF ex] obtain q' where e3: "events u = events w @ [EvExec ?c q']"
      "r' = (case q' of Ok _ \<Rightarrow> Diverge | Err e \<Rightarrow> Ret (FailedExec e))" by blast
    let ?pre = "?e1 @ e2"
    have pre: "\<forall>e \<in> set ?pre. \<not> is_exec e \<and> \<not> is_ready e"
      using list_all_quiet_not [OF e2(2)] by (auto simp: is_exec_def is_ready_def)
    have evs: "case q' of Ok _ \<Rightarrow> r = Diverge \<and> evs = ?pre @ [EvExec ?c q']
        | Err e \<Rightarrow> r = Exit 1 \<and> evs = ?pre @ [EvExec ?c q', EvStderr (Some (prog_name args)) (FailedExec e)]"
      using main assms(2) e1 e2(1) e3 by (cases q') (auto simp: eprintln_def emit_def)
    then have "c = ?c" "q = q'"
      using assms(3) pre by (cases q'; fastforce simp: is_exec_def)+
    moreover have "cmd_program ?c = ''cloud-hypervisor''" "cmd_args ?c = [''--api-socket'', ''fd='' @ dec fd]"
      by (simp_all add: arg_def command_new_def)
    moreover have "\<not> bit (fl AND NOT FD_CLOEXEC) 0"
      by (simp add: FD_CLOEXEC_def bit_and_iff bit_not_iff)
    moreover have "EvBind ?p (Ok fd) \<in> set ?pre" "EvSetFd fd (fl AND NOT FD_CLOEXEC) (Ok ()) \<in> set ?pre" by simp_all
    ultimately show ?thesis using args evs pre by blast
  qed
qed

text \<open>
  Called with no argument or with more than one, \<open>start-vmm\<close> prints its usage, makes no request of
  the system and exits with status 1.
\<close>

lemma main_usage:
  assumes "length args \<noteq> 2"
  shows "main K to_json x86_64 stk junk args s = (Exit 1, s\<lparr>events := events s @ [EvStderr None Usage]\<rparr>)"
proof -
  have "drop 1 args = [] \<or> (\<exists>a b l. drop 1 args = a # b # l)"
    using assms by (cases args; cases "tl args"; cases "tl (tl args)") auto
  then show ?thesis by (auto simp: main_def run_def ex_usage_def eprintln_def emit_def)
qed

text \<open>
  When the pipe or the first fork of \<open>double_fork\<close> fails, \<open>create_vm\<close> reports the error EPERM whatever the
  error was: \<open>double_fork\<close> returns -1 instead of the negated \<open>errno\<close> that its comment promises.
\<close>

lemma create_vm_fork_errno:
  assumes "vm_config K x86_64 stk vm_dir s = (Ret (Ok cfg), u)"
    "fst (os_pipe K (world u)) = Err e"
  shows "fst (create_vm K to_json x86_64 stk junk args vm_dir fd s) = Ret (Err (DoubleFork (from_raw_os_error EPERM)))"
proof -
  have "\<exists>t. double_fork K junk u = (Ret (-1), t)"
    using assms(2) by (auto simp: double_fork_def sys_pipe_def ask_def c_opt_def split: prod.splits)
  with assms(1) show ?thesis
    by (auto simp: create_vm_def EPERM_def split: prod.splits)
qed

section \<open>A run\<close>

text \<open>The environment of the \<open>testvm\<close> directory also lets the VM be created and started.\<close>

lemma create_api_socket_testvm: "\<exists>t. create_api_socket dir_os d s = (Ok 5, t)"
  by (simp add: create_api_socket_def Let_def ask_def fd_clear_cloexec_def clear_cloexec_def c_opt_def c_unit_def dir_os_simps)

lemma double_fork_testvm: "length junk = 4 \<Longrightarrow> \<exists>t. double_fork dir_os junk s = (Ret 7, t)"
  by (simp add: double_fork_def fork_parent_def read_loop.simps sys_read_def sys_eval dir_os_simps lan_os_simps
      Let_def store_def of_le_def)

lemma main_testvm:
  "\<exists>t pre. main dir_os to_json True stack0 ''????'' [''start-vmm'', ''testvm''] ps0 = (Diverge, t) \<and>
     events t = pre @ [EvExec (arg ''fd=5'' (arg ''--api-socket'' (command_new ''cloud-hypervisor''))) (Ok ())]"
proof -
  have five: "dec 5 = ''5''" by (simp add: fmt_eval)
  obtain t1 where 1: "create_api_socket dir_os ''/run/vm/testvm'' ps0 = (Ok 5, t1)"
    using create_api_socket_testvm by blast
  obtain cfg t2 where 2: "vm_config dir_os True stack0 ''/run/vm/testvm'' t1 = (Ret (Ok cfg), t2)"
    using testvm_run_at by blast
  obtain t3 where 3: "double_fork dir_os ''????'' t2 = (Ret 7, t3)" using double_fork_testvm by fastforce
  obtain x t4 where 4: "sys_close dir_os (int 3) t3 = (x, t4)" by force
  have "create_vm dir_os to_json True stack0 ''????'' [''start-vmm'', ''testvm''] ''/run/vm/testvm'' 3 t1 = (Ret (Ok ()), t4)"
    using 2 3 4 by (simp add: create_vm_def)
  with 1 show ?thesis
    by (simp add: main_def run_def testvm_paths vm_command_def exec_def ask_def dir_os_simps five)
qed

theorem main_execs_vmm_witness:
  "\<exists>t c. main dir_os (\<lambda>_. []) True stack0 ''????'' [''start-vmm'', ''testvm''] ps0 = (Diverge, t) \<and>
     EvExec c (Ok ()) \<in> set (events t) \<and> cmd_program c = ''cloud-hypervisor''"
proof -
  obtain t pre where t: "main dir_os (\<lambda>_. []) True stack0 ''????'' [''start-vmm'', ''testvm''] ps0 = (Diverge, t)"
    "events t = pre @ [EvExec (arg ''fd=5'' (arg ''--api-socket'' (command_new ''cloud-hypervisor''))) (Ok ())]"
    using main_testvm by blast
  let ?c = "arg ''fd=5'' (arg ''--api-socket'' (command_new ''cloud-hypervisor''))"
  have e: "events t = events ps0 @ events t" "EvExec ?c (Ok ()) \<in> set (events t)" using t(2) by (simp_all add: ps0_def)
  from main_execs_vmm [OF t(1) e] have "cmd_program ?c = ''cloud-hypervisor''" by blast
  with t(1) e(2) show ?thesis by blast
qed

lemma main_usage_example:
  "main dir_os (\<lambda>_. []) True stack0 ''????'' [''start-vmm''] ps0 =
    (Exit 1, ps0\<lparr>events := [EvStderr None Usage]\<rparr>)"
  using main_usage [of "[''start-vmm'']" dir_os "\<lambda>_. []" True stack0 "''????''" ps0] by (simp add: ps0_def)

lemma create_vm_fork_errno_example:
  "fst (create_vm (dir_os\<lparr>os_pipe := \<lambda>w. (Err 24, w)\<rparr>) (\<lambda>_. []) True stack0 ''????'' [''start-vmm''] ''/run/vm/testvm'' 3 ps0) =
    Ret (Err (DoubleFork (from_raw_os_error EPERM)))"
proof -
  let ?K = "dir_os\<lparr>os_pipe := \<lambda>w. (Err 24, w)\<rparr>"
  have "\<exists>cfg t. vm_config ?K True stack0 ''/run/vm/testvm'' ps0 = (Ret (Ok cfg), t) \<and> cfg_net cfg = [] \<and>
     cfg_disks cfg = [\<lparr>disk_path = ''/run/vm/testvm/config/blk/root.img'', disk_readonly = True\<rparr>]"
    using vm_config_runs [of "''testvm''" "''/run/vm''" "''/run/vm/testvm/config/blk''" ?K ps0
      "[''root.img'', ''README'']" True stack0]
    by (simp add: testvm_eval is_disk_def disk_at_def)
  then obtain cfg t where "vm_config ?K True stack0 ''/run/vm/testvm'' ps0 = (Ret (Ok cfg), t)" by blast
  from create_vm_fork_errno [OF this] show ?thesis by simp
qed


end
