(* ===== verification/PortalEnv.thy ===== *)
theory PortalEnv
  imports Sys
begin

text \<open>
  What the host side of the portal (\<open>tools/xdg-desktop-portal-spectrum-host\<close>) works with.

  The program uses the crates async-io, futures-lite, zbus, zvariant, rustix, url and
  percent-encoding. They are the fields of the records \<open>host\<close> and \<open>zv\<close>, arbitrary functions of a
  hidden world \<open>'w\<close>, like the kernel in the theory \<open>Sys\<close>. A request is one awaited call:
  \<open>read_exact\<close>, \<open>write_all\<close>, a D-Bus call. A connection and a D-Bus connection are numbers.

  The state of the process is that world, the three \<open>static\<close> cells of type \<open>OnceLock\<close>, and the log of
  the requests with their results and of the messages printed.
\<close>

section \<open>Errors and events\<close>

datatype zbus_error = InputOutput io_error | ZbusOther nat

text \<open>One constructor per message of the sources.\<close>

datatype portal_error =
    ReadingLength io_error
  | ReadingContents io_error
  | ReadingNumVersions io_error
  | ReadingVersions io_error
  | NoSupportedVersion bytes
  | CommunicatingVersion io_error
  | ConnectingTo path io_error
  | WritingVsock io_error
  | ReadingVsockResponse io_error
  | UnexpectedVsockResponse bytes
  | ReceivingPort io_error
  | ReceivingShareRoot portal_error
  | NonAbsoluteShareRoot path
  | SettingUpGuestBus zbus_error
  | SendingSetupResponse io_error
  | CommunicatingGuestBus zbus_error
  | Getsockname io_error
  | NotListeningOnPath
  | CantInferVsockPath path
  | TooManyArguments
  | ListeningOnStdin io_error
  | AcceptingConnection io_error
  | ConnectingSessionBus zbus_error
  | GuestConnectionError portal_error
  | CreatedOnGuestBus
  | OnlyRegularFiles
  | OpeningOPath path errno
  | AddNamedFull zbus_error
  | UrisNotArray
  | UrisMembers
  | NotFileUrl bytes
  | AddingToDocumentPortal path portal_error
  | Backend zbus_error
  | WritableFromBackend
  | EndedWithResponse u32

type_synonym conn = nat
type_synonym dbus = nat

datatype hevent =
    HvReadExact conn "(bytes, io_error) result"
  | HvWriteAll conn bytes "(unit, io_error) result"
  | HvConnect path "(conn, io_error) result"
  | HvDrop conn
  | HvServe conn path "(dbus, zbus_error) result"
  | HvNextMessage dbus "(unit, zbus_error) result"
  | HvLocalAddr "(path option, io_error) result"
  | HvAsyncNew "(unit, io_error) result"
  | HvAccept "(conn, io_error) result"
  | HvSession "(unit, zbus_error) result"
  | HvDocumentsProxy "(unit, zbus_error) result"
  | HvChooserProxy "(unit, zbus_error) result"
  | HvOpenPath path "(nat, errno) result"
  | HvAddNamedFull nat bytes u32 bytes "bytes list" "(bytes, zbus_error) result"
  | HvOpenFile
  | HvSaveFile
  | HvMsg "bytes option" portal_error

section \<open>The environment\<close>

text \<open>A response of a file chooser: a code, and named values of the type \<open>'v\<close> of zvariant.\<close>

type_synonym 'v results = "bytes \<rightharpoonup> 'v"

text \<open>The arguments of a request to a file chooser, which are passed on as they are.\<close>

record 'v chooser_args =
  arg_handle :: bytes
  arg_app_id :: bytes
  arg_parent_window :: bytes
  arg_title :: bytes
  arg_options :: "'v results"

record ('w, 'v) host =
  h_args :: "bytes list"
  h_read_exact :: "conn \<Rightarrow> nat \<Rightarrow> ('w, (bytes, io_error) result) req"
  h_write_all :: "conn \<Rightarrow> bytes \<Rightarrow> ('w, (unit, io_error) result) req"
  h_connect :: "path \<Rightarrow> ('w, (conn, io_error) result) req"
  h_drop :: "conn \<Rightarrow> 'w \<Rightarrow> 'w"
  h_serve :: "conn \<Rightarrow> path \<Rightarrow> ('w, (dbus, zbus_error) result) req"
  h_next_message :: "dbus \<Rightarrow> ('w, (unit, zbus_error) result) req"
  h_local_addr :: "('w, (path option, io_error) result) req"
  h_async_new :: "('w, (unit, io_error) result) req"
  h_accept :: "('w, (conn, io_error) result) req"
  h_session :: "('w, (unit, zbus_error) result) req"
  h_documents_proxy :: "('w, (unit, zbus_error) result) req"
  h_chooser_proxy :: "('w, (unit, zbus_error) result) req"
  h_exists :: "path \<Rightarrow> 'w \<Rightarrow> bool"
  h_is_file :: "path \<Rightarrow> 'w \<Rightarrow> bool"
  h_open_path :: "path \<Rightarrow> ('w, (nat, errno) result) req"
  h_add_named_full :: "nat \<Rightarrow> bytes \<Rightarrow> u32 \<Rightarrow> bytes \<Rightarrow> bytes list \<Rightarrow> ('w, (bytes, zbus_error) result) req"
  h_open_file :: "'v chooser_args \<Rightarrow> ('w, (u32 \<times> 'v results, zbus_error) result) req"
  h_save_file :: "'v chooser_args \<Rightarrow> ('w, (u32 \<times> 'v results, zbus_error) result) req"

text \<open>The pure functions of zvariant, percent-encoding and url that are called.\<close>

record 'v zv =
  zv_array :: "'v \<Rightarrow> 'v list option"
  zv_strings :: "'v list \<Rightarrow> bytes list option"
  zv_bool :: "'v \<Rightarrow> bool option"
  zv_of_bool :: "bool \<Rightarrow> 'v"
  zv_of_strings :: "bytes list \<Rightarrow> 'v"
  percent_decode :: "bytes \<Rightarrow> bytes"
  url_from_file_path :: "path \<Rightarrow> bytes option"

section \<open>Cells that are set once\<close>

text \<open>The contract of \<open>OnceLock\<close>.\<close>

locale once_lock =
  fixes empty :: 'c
    and get :: "'c \<Rightarrow> 'a option"
    and set_cell :: "'a \<Rightarrow> 'c \<Rightarrow> (unit, 'a) result \<times> 'c"
  assumes get_empty: "get empty = None"
    and set_unset: "get c = None \<Longrightarrow> fst (set_cell v c) = Ok () \<and> get (snd (set_cell v c)) = Some v"
    and set_again: "get c = Some u \<Longrightarrow> fst (set_cell v c) = Err v \<and> snd (set_cell v c) = c"
begin

lemma set_ok_iff: "fst (set_cell v c) = Ok () \<longleftrightarrow> get c = None"
  using set_unset [of c v] set_again [of c _ v] by (cases "get c") auto

lemma get_after_set: "get (snd (set_cell v c)) = Some (case get c of None \<Rightarrow> v | Some u \<Rightarrow> u)"
  using set_unset [of c v] set_again [of c _ v] by (cases "get c") auto

lemma get_stable: "get c = Some u \<Longrightarrow> get (snd (set_cell v c)) = Some u"
  by (simp add: get_after_set)

end

definition once_get :: "'a option \<Rightarrow> 'a option" where
  "once_get c = c"

definition once_set :: "'a \<Rightarrow> 'a option \<Rightarrow> (unit, 'a) result \<times> 'a option" where
  "once_set v c = (case c of None \<Rightarrow> (Ok (), Some v) | Some _ \<Rightarrow> (Err v, c))"

interpretation once: once_lock None once_get once_set
  by unfold_locales (auto simp: once_get_def once_set_def)

section \<open>The state of the process\<close>

record 'w hs =
  hworld :: 'w
  hlog :: "hevent list"
  vsock_unix_path :: "path option"
  documents_PROXY :: "unit option"
  file_chooser_PROXY :: "unit option"

definition hask :: "('w, 'r) req \<Rightarrow> ('r \<Rightarrow> hevent) \<Rightarrow> 'w hs \<Rightarrow> 'r \<times> 'w hs" where
  "hask f ev s = (case f (hworld s) of (r, w) \<Rightarrow> (r, s\<lparr>hworld := w, hlog := hlog s @ [ev r]\<rparr>))"

definition hemit :: "hevent \<Rightarrow> 'w hs \<Rightarrow> 'w hs" where
  "hemit ev s = s\<lparr>hlog := hlog s @ [ev]\<rparr>"

definition read_exact :: "('w, 'v) host \<Rightarrow> conn \<Rightarrow> nat \<Rightarrow> 'w hs \<Rightarrow> (bytes, io_error) result \<times> 'w hs" where
  "read_exact H c n s = hask (h_read_exact H c n) (HvReadExact c) s"

definition write_all_to :: "('w, 'v) host \<Rightarrow> conn \<Rightarrow> bytes \<Rightarrow> 'w hs \<Rightarrow> (unit, io_error) result \<times> 'w hs" where
  "write_all_to H c b s = hask (h_write_all H c b) (HvWriteAll c b) s"

definition drop_conn :: "('w, 'v) host \<Rightarrow> conn \<Rightarrow> 'w hs \<Rightarrow> 'w hs" where
  "drop_conn H c s = hemit (HvDrop c) (s\<lparr>hworld := h_drop H c (hworld s)\<rparr>)"

text \<open>\<open>msg\<close> of \<open>main.rs\<close>: the name of the program, if there is one, and the message.\<close>

definition msg :: "('w, 'v) host \<Rightarrow> portal_error \<Rightarrow> 'w hs \<Rightarrow> 'w hs" where
  "msg H e s =
     (let prog = (case h_args H of [] \<Rightarrow> None | a # _ \<Rightarrow> map_option to_string_lossy (file_name a)) in
      hemit (HvMsg prog e) s)"

section \<open>What a step leaves alone\<close>

text \<open>The cells of the process, which the handlers only read.\<close>

definition same_cells :: "'w hs \<Rightarrow> 'w hs \<Rightarrow> bool" where
  "same_cells s t \<longleftrightarrow> vsock_unix_path t = vsock_unix_path s \<and> documents_PROXY t = documents_PROXY s \<and>
     file_chooser_PROXY t = file_chooser_PROXY s"

lemma same_cells_refl [simp]: "same_cells s s"
  by (simp add: same_cells_def)

lemma same_cells_trans: "same_cells s t \<Longrightarrow> same_cells t u \<Longrightarrow> same_cells s u"
  by (simp add: same_cells_def)

text \<open>From \<open>s\<close> to \<open>t\<close> the cells stay, and the log grows by events that satisfy \<open>P\<close>.\<close>

definition adds :: "(hevent \<Rightarrow> bool) \<Rightarrow> 'w hs \<Rightarrow> 'w hs \<Rightarrow> bool" where
  "adds P s t \<longleftrightarrow> same_cells s t \<and> (\<exists>evs. hlog t = hlog s @ evs \<and> list_all P evs)"

lemma adds_refl [simp]: "adds P s s"
  by (simp add: adds_def)

lemma adds_trans: "adds P s t \<Longrightarrow> adds P t u \<Longrightarrow> adds P s u"
  unfolding adds_def by (metis append_assoc list_all_append same_cells_trans)

lemma adds_mono: "adds P s t \<Longrightarrow> (\<And>e. P e \<Longrightarrow> Q e) \<Longrightarrow> adds Q s t"
  unfolding adds_def by (metis list.pred_mono_strong)

lemma hask_log: "hask f ev s = (r, t) \<Longrightarrow> hlog t = hlog s @ [ev r]"
  by (auto simp: hask_def split: prod.splits)

lemma hask_adds: "hask f ev s = (r, t) \<Longrightarrow> P (ev r) \<Longrightarrow> adds P s t"
  by (auto simp: hask_def adds_def same_cells_def split: prod.splits)

lemma msg_adds: "(\<And>prog. P (HvMsg prog e)) \<Longrightarrow> adds P s (msg H e s)"
  by (simp add: msg_def hemit_def Let_def adds_def same_cells_def)

lemma drop_conn_adds: "P (HvDrop c) \<Longrightarrow> adds P s (drop_conn H c s)"
  by (simp add: drop_conn_def hemit_def adds_def same_cells_def)

lemma read_exact_adds: "read_exact H c n s = (r, t) \<Longrightarrow> P (HvReadExact c r) \<Longrightarrow> adds P s t"
  unfolding read_exact_def by (rule hask_adds)

lemma write_all_to_adds: "write_all_to H c b s = (r, t) \<Longrightarrow> P (HvWriteAll c b r) \<Longrightarrow> adds P s t"
  unfolding write_all_to_def by (rule hask_adds)

section \<open>Streams\<close>

text \<open>
  The documented behaviour of \<open>read_exact\<close> on a connection whose unread input is \<open>view\<close> of the
  world: it takes as many bytes as asked for off the front, or fails if there are fewer.
\<close>

definition stream :: "('w, 'v) host \<Rightarrow> conn \<Rightarrow> ('w \<Rightarrow> bytes) \<Rightarrow> bool" where
  "stream H c view \<longleftrightarrow> (\<forall>n w. if n \<le> length (view w)
     then fst (h_read_exact H c n w) = Ok (take n (view w)) \<and> view (snd (h_read_exact H c n w)) = drop n (view w)
     else is_err (fst (h_read_exact H c n w)))"

text \<open>Writing to a connection leaves what can be read from it alone.\<close>

definition duplex :: "('w, 'v) host \<Rightarrow> conn \<Rightarrow> ('w \<Rightarrow> bytes) \<Rightarrow> bool" where
  "duplex H c view \<longleftrightarrow> (\<forall>b w. fst (h_write_all H c b w) = Ok () \<and> view (snd (h_write_all H c b w)) = view w)"

lemma read_exact_stream [wire_simps]:
  assumes "stream H c view" "view (hworld s) = b @ rest" "length b = n"
  shows "\<exists>t. read_exact H c n s = (Ok b, t) \<and> view (hworld t) = rest \<and>
    hlog t = hlog s @ [HvReadExact c (Ok b)] \<and> vsock_unix_path t = vsock_unix_path s \<and>
    documents_PROXY t = documents_PROXY s \<and> file_chooser_PROXY t = file_chooser_PROXY s"
proof -
  have "n \<le> length (view (hworld s))" using assms(2,3) by simp
  with assms(1) have "fst (h_read_exact H c n (hworld s)) = Ok (take n (view (hworld s)))"
    "view (snd (h_read_exact H c n (hworld s))) = drop n (view (hworld s))"
    unfolding stream_def by presburger+
  then show ?thesis
    using assms(2,3) by (auto simp: read_exact_def hask_def split: prod.splits)
qed

lemma read_exact_short:
  assumes "stream H c view" "length (view (hworld s)) < n"
  shows "\<exists>e t. read_exact H c n s = (Err e, t)"
proof -
  have "is_err (fst (h_read_exact H c n (hworld s)))"
    using assms unfolding stream_def by (metis not_le)
  then show ?thesis by (auto simp: is_err_iff read_exact_def hask_def split: prod.splits)
qed

lemma write_all_duplex [wire_simps]:
  assumes "duplex H c view"
  shows "\<exists>t. write_all_to H c b s = (Ok (), t) \<and> view (hworld t) = view (hworld s) \<and>
    hlog t = hlog s @ [HvWriteAll c b (Ok ())] \<and> vsock_unix_path t = vsock_unix_path s \<and>
    documents_PROXY t = documents_PROXY s \<and> file_chooser_PROXY t = file_chooser_PROXY s"
  using assms by (auto simp: duplex_def write_all_to_def hask_def split: prod.splits) (metis fst_conv snd_conv)+

text \<open>What a process has written to a connection.\<close>

definition sent :: "conn \<Rightarrow> hevent list \<Rightarrow> bytes" where
  "sent c evs = concat (map (\<lambda>e. case e of HvWriteAll c' b (Ok _) \<Rightarrow> if c' = c then b else [] | _ \<Rightarrow> []) evs)"

lemma sent_simps [simp]:
  "sent c [] = []" "sent c (xs @ ys) = sent c xs @ sent c ys"
  "sent c (e # evs) = (case e of HvWriteAll c' b (Ok _) \<Rightarrow> if c' = c then b else [] | _ \<Rightarrow> []) @ sent c evs"
  by (simp_all add: sent_def)

section \<open>An environment for examples\<close>

text \<open>
  Connection 1 is a stream of bytes, the world; whatever is written is taken. The file chooser always fails.
  Values of D-Bus are booleans, strings and arrays.
\<close>

datatype xv = XBool bool | XString bytes | XArray "xv list"

definition line_host :: "(bytes, xv) host" where
  "line_host = (let io = from_raw_os_error EPERM in
     \<lparr>h_args = [''/bin/portal''],
      h_read_exact = \<lambda>_ n w. if n \<le> length w then (Ok (take n w), drop n w) else (Err io, w),
      h_write_all = \<lambda>_ _ w. (Ok (), w), h_connect = \<lambda>_ w. (Ok 1, w), h_drop = \<lambda>_ w. w,
      h_serve = \<lambda>_ _ w. (Ok 2, w), h_next_message = \<lambda>_ w. (Err (InputOutput (from_raw_os_error EPIPE)), w),
      h_local_addr = \<lambda>w. (Ok (Some ''/run/vm/app/vsock_219''), w), h_async_new = \<lambda>w. (Ok (), w),
      h_accept = \<lambda>w. (Ok 1, w), h_session = \<lambda>w. (Ok (), w), h_documents_proxy = \<lambda>w. (Ok (), w),
      h_chooser_proxy = \<lambda>w. (Ok (), w), h_exists = \<lambda>_ _. True, h_is_file = \<lambda>_ _. True,
      h_open_path = \<lambda>_ w. (Ok 9, w), h_add_named_full = \<lambda>_ _ _ _ _ w. (Ok ''a1b2'', w),
      h_open_file = \<lambda>_ w. (Err (ZbusOther 0), w), h_save_file = \<lambda>_ w. (Err (ZbusOther 0), w)\<rparr>)"

lemma line_host_simps:
  "h_args line_host = [''/bin/portal'']"
  "h_read_exact line_host c n w = (if n \<le> length w then (Ok (take n w), drop n w) else (Err (from_raw_os_error EPERM), w))"
  "h_write_all line_host c b w = (Ok (), w)" "h_connect line_host p w = (Ok 1, w)" "h_drop line_host c w = w"
  "h_serve line_host c p w = (Ok 2, w)"
  "h_local_addr line_host w = (Ok (Some ''/run/vm/app/vsock_219''), w)" "h_async_new line_host w = (Ok (), w)"
  "h_accept line_host w = (Ok 1, w)" "h_session line_host w = (Ok (), w)" "h_documents_proxy line_host w = (Ok (), w)"
  "h_chooser_proxy line_host w = (Ok (), w)" "h_exists line_host p w" "h_is_file line_host p w"
  "h_open_path line_host p w = (Ok 9, w)" "h_add_named_full line_host fd b f a ps w = (Ok ''a1b2'', w)"
  by (simp_all add: line_host_def Let_def)

lemma line_host_stream: "stream line_host c (\<lambda>w. w)" "duplex line_host c (\<lambda>w. w)"
  by (simp_all add: stream_def duplex_def line_host_simps)

definition hs0 :: "bytes \<Rightarrow> bytes hs" where
  "hs0 w = \<lparr>hworld = w, hlog = [], vsock_unix_path = Some ''/run/vm/app/vsock'', documents_PROXY = Some (),
     file_chooser_PROXY = Some ()\<rparr>"

end
