(* ===== verification/Wire.thy ===== *)
theory Wire
  imports PortalEnv
begin

text \<open>
  The protocol of the portal, host side: the functions of
  \<open>tools/xdg-desktop-portal-spectrum-host/src/main.rs\<close> that read from and write to a connection,
  up to \<open>connect_to_guest\<close>, and \<open>listening_vsock_path\<close>.
\<close>

section \<open>Receiving\<close>

definition receive_u32 :: "('w, 'v) host \<Rightarrow> conn \<Rightarrow> 'w hs \<Rightarrow> (u32, io_error) result \<times> 'w hs" where
  "receive_u32 H conn s =
     (case read_exact H conn 4 s of
        (Err e, s) \<Rightarrow> (Err e, s)
      | (Ok buf, s) \<Rightarrow> (Ok (of_be buf), s))"

definition receive_bytestring :: "('w, 'v) host \<Rightarrow> conn \<Rightarrow> 'w hs \<Rightarrow> (bytes, portal_error) result \<times> 'w hs" where
  "receive_bytestring H conn s =
     (case receive_u32 H conn s of
        (Err e, s) \<Rightarrow> (Err (ReadingLength e), s)
      | (Ok len, s) \<Rightarrow>
         (case read_exact H conn (unat len) s of
            (Err e, s) \<Rightarrow> (Err (ReadingContents e), s)
          | (Ok buf, s) \<Rightarrow> (Ok buf, s)))"

definition negotiate_version :: "('w, 'v) host \<Rightarrow> conn \<Rightarrow> 'w hs \<Rightarrow> (unit, portal_error) result \<times> 'w hs" where
  "negotiate_version H conn s =
     (case read_exact H conn 1 s of
        (Err e, s) \<Rightarrow> (Err (ReadingNumVersions e), s)
      | (Ok num_versions, s) \<Rightarrow>
         (case read_exact H conn (of_char (hd num_versions)) s of
            (Err e, s) \<Rightarrow> (Err (ReadingVersions e), s)
          | (Ok client_versions, s) \<Rightarrow>
              if CHR 0x01 \<notin> set client_versions then (Err (NoSupportedVersion client_versions), s)
              else
                (case write_all_to H conn [CHR 0x01] s of
                   (Err e, s) \<Rightarrow> (Err (CommunicatingVersion e), s)
                 | (Ok _, s) \<Rightarrow> (Ok (), s))))"

section \<open>Connecting to the guest\<close>

abbreviation newline :: char where
  "newline \<equiv> CHR 0x0A"

text \<open>The loop over the parts of the request.\<close>

fun write_parts :: "('w, 'v) host \<Rightarrow> conn \<Rightarrow> bytes list \<Rightarrow> 'w hs \<Rightarrow> (unit, portal_error) result \<times> 'w hs" where
  "write_parts H vsock [] s = (Ok (), s)"
| "write_parts H vsock (part # parts) s =
     (case write_all_to H vsock part s of
        (Err e, s) \<Rightarrow> (Err (WritingVsock e), s)
      | (Ok _, s) \<Rightarrow> write_parts H vsock parts s)"

definition min_response_len :: nat where
  "min_response_len = 5"

text \<open>
  The loop that reads the response. Its state is the buffer and the number of bytes read;
  a slice out of the range of the buffer is a panic. Each iteration reads at least one byte of at
  most 14, so it ends.
\<close>

lemma response_progress:
  fixes n e l d :: nat
  shows "n < e \<Longrightarrow> \<not> l < e \<Longrightarrow> d \<le> e - n \<Longrightarrow> n + (d + l) - (e + e) < l - n"
  by arith

function read_response ::
    "('w, 'v) host \<Rightarrow> conn \<Rightarrow> bytes \<Rightarrow> nat \<Rightarrow> 'w hs \<Rightarrow> (bytes, portal_error) result outcome \<times> 'w hs" where
  "read_response H vsock response response_len s =
     (if (0 < response_len \<and> response_len - 1 < length response \<and> response ! (response_len - 1) = newline) \<or>
         length response \<le> response_len
      then (Ret (Ok response), s)
      else
        let min_remaining = min_response_len - response_len;
            end' = max min_remaining (response_len + 1)
        in
        if length response < end' then (Panic, s)
        else
          (case read_exact H vsock (end' - response_len) s of
             (Err e, s) \<Rightarrow> (Ret (Err (ReadingVsockResponse e)), s)
           | (Ok dest, s) \<Rightarrow>
               read_response H vsock
                 (take response_len response @ take (end' - response_len) dest @ drop end' response) end' s))"
  by pat_completeness auto
termination
  by (relation "measure (\<lambda>(H, c, r, n, s). length r - n)") (auto simp: Let_def min_def less_max_iff_disj intro!: response_progress)

declare read_response.simps [simp del]

definition starts_with :: "bytes \<Rightarrow> bytes \<Rightarrow> bool" where
  "starts_with p b \<longleftrightarrow> take (length p) b = p"

definition connect_to_guest :: "('w, 'v) host \<Rightarrow> u32 \<Rightarrow> 'w hs \<Rightarrow> (conn, portal_error) result outcome \<times> 'w hs" where
  "connect_to_guest H port s =
     (case once_get (vsock_unix_path s) of
        None \<Rightarrow> (Panic, s)
      | Some path \<Rightarrow>
         (case hask (h_connect H path) (HvConnect path) s of
            (Err e, s) \<Rightarrow> (Ret (Err (ConnectingTo path e)), s)
          | (Ok vsock, s) \<Rightarrow>
             (case write_parts H vsock [''CONNECT '', dec (unat port), [newline]] s of
                (Err e, s) \<Rightarrow> (Ret (Err e), drop_conn H vsock s)
              | (Ok _, s) \<Rightarrow>
                 (case read_response H vsock (replicate 14 NUL) 0 s of (r, s) \<Rightarrow>
                   (case r of
                      Panic \<Rightarrow> (Panic, s) | Exit n \<Rightarrow> (Exit n, s) | Diverge \<Rightarrow> (Diverge, s)
                    | Ret (Err e) \<Rightarrow> (Ret (Err e), drop_conn H vsock s)
                    | Ret (Ok response) \<Rightarrow>
                        if \<not> starts_with ''OK '' response
                        then (Ret (Err (UnexpectedVsockResponse response)), drop_conn H vsock s)
                        else (Ret (Ok vsock), s))))))"

section \<open>The path of the VM's socket\<close>

text \<open>
  The loop of \<open>listening_vsock_path\<close>: the index of the underscore, walking back over digits.
\<close>

fun vsock_index :: "bytes \<Rightarrow> nat \<Rightarrow> nat option" where
  "vsock_index a 0 = None"
| "vsock_index a (Suc i) =
     (if is_digit (a ! Suc i) then vsock_index a i
      else if a ! Suc i = CHR ''_'' then Some (Suc i)
      else None)"

text \<open>Of an address without bytes the index of the last one does not exist.\<close>

definition infer_vsock_path :: "path \<Rightarrow> (path, portal_error) result outcome" where
  "infer_vsock_path listening_addr =
     (if listening_addr = [] then Panic
      else
        (case vsock_index listening_addr (length listening_addr - 1) of
           None \<Rightarrow> Ret (Err (CantInferVsockPath listening_addr))
         | Some i \<Rightarrow> Ret (Ok (take i listening_addr))))"

definition listening_vsock_path :: "('w, 'v) host \<Rightarrow> 'w hs \<Rightarrow> (path, portal_error) result outcome \<times> 'w hs" where
  "listening_vsock_path H s =
     (case hask (h_local_addr H) HvLocalAddr s of
        (Err e, s) \<Rightarrow> (Ret (Err (Getsockname e)), s)
      | (Ok addr, s) \<Rightarrow>
         (case addr of
            None \<Rightarrow> (Ret (Err NotListeningOnPath), s)
          | Some a \<Rightarrow> (infer_vsock_path a, s)))"

section \<open>What listening_vsock_path infers\<close>

lemma vsock_index_sound:
  assumes "i < length a" "list_all is_digit (drop (Suc i) a)" "vsock_index a i = Some j"
  shows "0 < j \<and> j \<le> i \<and> a ! j = CHR ''_'' \<and> list_all is_digit (drop (Suc j) a)"
  using assms
proof (induction i)
  case (Suc i)
  show ?case
  proof (cases "is_digit (a ! Suc i)")
    case True
    with Suc.prems(1,2) have "list_all is_digit (drop (Suc i) a)" by (simp add: Cons_nth_drop_Suc [symmetric])
    with True Suc show ?thesis by auto
  next
    case False
    with Suc.prems show ?thesis by (auto split: if_splits)
  qed
qed simp

lemma vsock_index_complete:
  assumes "list_all is_digit ds" "p \<noteq> []"
  shows "k \<le> length ds \<Longrightarrow> vsock_index (p @ CHR ''_'' # ds) (length p + k) = Some (length p)"
proof (induction k)
  case 0
  from assms(2) obtain n where "length p = Suc n" by (cases p) auto
  then show ?case by (simp add: nth_append)
next
  case (Suc k)
  then have "(p @ CHR ''_'' # ds) ! Suc (length p + k) = ds ! k" by (simp add: nth_append)
  moreover have "is_digit (ds ! k)" using Suc.prems assms(1) by (simp add: list_all_length)
  ultimately show ?case using Suc by simp
qed

lemma infer_vsock_path_iff:
  "infer_vsock_path a = Ret (Ok p) \<longleftrightarrow> (\<exists>ds. a = p @ CHR ''_'' # ds \<and> list_all is_digit ds \<and> p \<noteq> [])"
proof
  assume "infer_vsock_path a = Ret (Ok p)"
  then obtain j where a: "a \<noteq> []" and j: "vsock_index a (length a - 1) = Some j" "p = take j a"
    by (auto simp: infer_vsock_path_def split: if_splits option.splits)
  from vsock_index_sound [of "length a - 1" a j] a j
  have s: "0 < j" "j \<le> length a - 1" "a ! j = CHR ''_''" "list_all is_digit (drop (Suc j) a)" by auto
  with a have "a = take j a @ CHR ''_'' # drop (Suc j) a" by (metis One_nat_def Suc_pred id_take_nth_drop length_greater_0_conv less_Suc_eq_le)
  moreover have "take j a \<noteq> []" using s(1) a by simp
  ultimately show "\<exists>ds. a = p @ CHR ''_'' # ds \<and> list_all is_digit ds \<and> p \<noteq> []" using s(4) j(2) by blast
next
  assume "\<exists>ds. a = p @ CHR ''_'' # ds \<and> list_all is_digit ds \<and> p \<noteq> []"
  then obtain ds where a: "a = p @ CHR ''_'' # ds" "list_all is_digit ds" "p \<noteq> []" by blast
  from vsock_index_complete [OF a(2,3), of "length ds"] a(1) show "infer_vsock_path a = Ret (Ok p)"
    by (simp add: infer_vsock_path_def)
qed

text \<open>
  C24. The path of the VM's own socket is inferred exactly from the addresses that have the form Cloud
  Hypervisor gives them: the path, an underscore and the digits of a port. Every other address is an
  error, and only an address without bytes, which a socket bound to a path never has, is a panic.
\<close>

theorem listening_vsock_path_spec:
  assumes "h_local_addr H (hworld s) = (Ok (Some a), w)"
  shows "(fst (listening_vsock_path H s) = Ret (Ok p) \<longleftrightarrow>
      (\<exists>ds. a = p @ ''_'' @ ds \<and> list_all is_digit ds \<and> p \<noteq> [])) \<and>
    (fst (listening_vsock_path H s) = Panic \<longleftrightarrow> a = []) \<and>
    ((\<nexists>p ds. a = p @ ''_'' @ ds \<and> list_all is_digit ds \<and> p \<noteq> []) \<longrightarrow> a \<noteq> [] \<longrightarrow>
      fst (listening_vsock_path H s) = Ret (Err (CantInferVsockPath a)))"
proof -
  have l: "fst (listening_vsock_path H s) = infer_vsock_path a"
    using assms by (simp add: listening_vsock_path_def hask_def)
  moreover have "infer_vsock_path a = Panic \<longleftrightarrow> a = []"
    by (auto simp: infer_vsock_path_def split: option.splits)
  moreover have "infer_vsock_path a = Ret (Err (CantInferVsockPath a))"
    if "\<nexists>p ds. a = p @ ''_'' @ ds \<and> list_all is_digit ds \<and> p \<noteq> []" "a \<noteq> []"
  proof -
    have "infer_vsock_path a \<noteq> Ret (Ok p)" for p using that(1) infer_vsock_path_iff [of a p] by auto
    then show ?thesis using that(2) by (cases "vsock_index a (length a - 1)") (auto simp: infer_vsock_path_def)
  qed
  ultimately show ?thesis using infer_vsock_path_iff [of a p] by auto
qed

section \<open>The response of Cloud Hypervisor\<close>

text \<open>
  The loop never slices outside its buffer of 14 bytes, whatever is read: no panic. It reads five bytes first and
  then one at a time.
\<close>

definition response_inv :: "bytes \<Rightarrow> nat \<Rightarrow> bool" where
  "response_inv response n \<longleftrightarrow> length response = 14 \<and> (n = 0 \<or> 5 \<le> n) \<and> n \<le> 14"

lemma response_end: "response_inv r n \<Longrightarrow> n < 14 \<Longrightarrow>
    max (min_response_len - n) (n + 1) = (if n = 0 then 5 else n + 1)"
  by (auto simp: response_inv_def min_response_len_def max_def)

lemma response_step:
  assumes inv: "response_inv r n" and go: "\<not> ((0 < n \<and> r ! (n - 1) = newline) \<or> n = 14)"
  defines "e \<equiv> (if n = 0 then 5 else n + 1)"
  shows "read_response H c r n s =
    (case read_exact H c (e - n) s of
       (Err x, s) \<Rightarrow> (Ret (Err (ReadingVsockResponse x)), s)
     | (Ok d, s) \<Rightarrow> read_response H c (take n r @ take (e - n) d @ drop e r) e s)"
proof -
  from inv go have n: "length r = 14" "n < 14" by (auto simp: response_inv_def)
  with go have c: "((0 < n \<and> n - 1 < length r \<and> r ! (n - 1) = newline) \<or> length r \<le> n) = False" by auto
  have m: "max (min_response_len - n) (n + 1) = e" using response_end [OF inv n(2)] by (simp add: e_def)
  have l: "(length r < e) = False" using n by (simp add: e_def)
  show ?thesis by (subst read_response.simps) (simp only: Let_def c m l if_False)
qed

lemma response_stop:
  assumes "response_inv r n" "(0 < n \<and> r ! (n - 1) = newline) \<or> n = 14"
  shows "read_response H c r n s = (Ret (Ok r), s)"
  using assms by (subst read_response.simps) (auto simp: response_inv_def)

text \<open>Reads of the length asked for.\<close>

definition reads_exactly :: "('w, 'v) host \<Rightarrow> bool" where
  "reads_exactly H \<longleftrightarrow> (\<forall>c n w d. fst (h_read_exact H c n w) = Ok d \<longrightarrow> length d = n)"

lemma read_exact_length: "reads_exactly H \<Longrightarrow> read_exact H c n s = (Ok d, t) \<Longrightarrow> length d = n"
  by (auto simp: reads_exactly_def read_exact_def hask_def split: prod.splits) (metis fst_conv)

lemma read_exact_log: "read_exact H c n s = (r, t) \<Longrightarrow> hlog t = hlog s @ [HvReadExact c r]"
  by (auto simp: read_exact_def hask_def split: prod.splits)

text \<open>The bytes received on a connection.\<close>

definition received :: "hevent list \<Rightarrow> bytes" where
  "received evs = concat (map (\<lambda>e. case e of HvReadExact _ (Ok d) \<Rightarrow> d | _ \<Rightarrow> []) evs)"

lemma received_simps [simp]:
  "received [] = []" "received (xs @ ys) = received xs @ received ys"
  "received (e # evs) = (case e of HvReadExact _ (Ok d) \<Rightarrow> d | _ \<Rightarrow> []) @ received evs"
  by (simp_all add: received_def)

lemma read_response_total:
  assumes "reads_exactly H"
  shows "response_inv r n \<Longrightarrow> \<exists>q t evs. read_response H c r n s = (Ret q, t) \<and> hlog t = hlog s @ evs \<and>
    length (received evs) \<le> 14 - n \<and> (\<forall>r'. q = Ok r' \<longrightarrow> length r' = 14)"
proof (induction "14 - n" arbitrary: r n s rule: less_induct)
  case less
  show ?case
  proof (cases "(0 < n \<and> r ! (n - 1) = newline) \<or> n = 14")
    case True
    with response_stop [OF less.prems True, of H c s] less.prems show ?thesis
      by (intro exI [of _ "Ok r"] exI [of _ s] exI [of _ "[]"]) (simp add: response_inv_def)
  next
    case False
    define e where "e = (if n = 0 then 5 else n + 1)"
    have n: "n < 14" "length r = 14" using less.prems False by (auto simp: response_inv_def)
    obtain q u where q: "read_exact H c (e - n) s = (q, u)" by force
    note step = response_step [OF less.prems False, folded e_def, of H c s, unfolded q]
    note lg = read_exact_log [OF q]
    show ?thesis
    proof (cases q)
      case (Err x)
      with step lg show ?thesis by auto
    next
      case (Ok d)
      have d: "length d = e - n" using read_exact_length [OF assms] q Ok by blast
      let ?r = "take n r @ take (e - n) d @ drop e r"
      have e: "n < e" "e \<le> 14" "5 \<le> e" using n less.prems by (auto simp: e_def response_inv_def)
      have "response_inv ?r e" using e d n by (auto simp: response_inv_def)
      moreover have "14 - e < 14 - n" using e n by simp
      ultimately have "\<exists>q t evs. read_response H c ?r e u = (Ret q, t) \<and> hlog t = hlog u @ evs \<and>
          length (received evs) \<le> 14 - e \<and> (\<forall>r'. q = Ok r' \<longrightarrow> length r' = 14)" by (intro less.hyps)
      then obtain q' t evs where t: "read_response H c ?r e u = (Ret q', t)" "hlog t = hlog u @ evs"
        "length (received evs) \<le> 14 - e" "\<forall>r'. q' = Ok r' \<longrightarrow> length r' = 14" by blast
      have "read_response H c r n s = (Ret q', t)" using step Ok t(1) by simp
      moreover have "hlog t = hlog s @ HvReadExact c (Ok d) # evs" using lg t(2) Ok by simp
      moreover have "length (received (HvReadExact c (Ok d) # evs)) \<le> 14 - n" using t(3) d e by simp
      ultimately show ?thesis using t(4) by blast
    qed
  qed
qed

lemma read_response_line:
  assumes st: "stream H c view" and m: "newline \<notin> set m" "4 \<le> length m" "length m \<le> 13"
  defines "line \<equiv> m @ [newline]"
  shows "n = 0 \<or> 5 \<le> n \<Longrightarrow> n \<le> length line \<Longrightarrow> view (hworld s) = drop n line @ rest \<Longrightarrow>
    \<exists>t. read_response H c (take n line @ replicate (14 - n) NUL) n s =
        (Ret (Ok (line @ replicate (14 - length line) NUL)), t) \<and> view (hworld t) = rest \<and>
      vsock_unix_path t = vsock_unix_path s \<and> (\<exists>evs. hlog t = hlog s @ evs \<and> (\<forall>c'. sent c' evs = []))"
proof (induction "length line - n" arbitrary: n s rule: less_induct)
  case less
  let ?r = "take n line @ replicate (14 - n) NUL"
  have ll: "length line = Suc (length m)" by (simp add: line_def)
  have inv: "response_inv ?r n" using less.prems m ll by (auto simp: response_inv_def)
  show ?case
  proof (cases "n = length line")
    case True
    then have "0 < n \<and> ?r ! (n - 1) = newline" by (simp add: line_def nth_append)
    then have "read_response H c ?r n s = (Ret (Ok ?r), s)" using response_stop [OF inv] by blast
    with True less.prems(3) show ?thesis by (intro exI [of _ s]) auto
  next
    case False
    then have n: "n \<le> length m" using less.prems(2) ll by simp
    have "?r ! (n - 1) \<noteq> newline" if "0 < n"
    proof -
      have "n - 1 < length m" using that n by simp
      then have "?r ! (n - 1) = m ! (n - 1)" "m ! (n - 1) \<in> set m"
        using that by (simp_all add: line_def nth_append)
      with m(1) show ?thesis by metis
    qed
    then have go: "\<not> ((0 < n \<and> ?r ! (n - 1) = newline) \<or> n = 14)" using m(3) n by auto
    define e where "e = (if n = 0 then 5 else n + 1)"
    have e: "n < e" "e \<le> length line" "5 \<le> e" using n m less.prems(1) ll by (auto simp: e_def)
    define d where "d = take (e - n) (drop n line)"
    have "drop (e - n) (drop n line) = drop e line" using e(1) by simp
    then have d: "length d = e - n" "drop n line = d @ drop e line"
      using e append_take_drop_id [of "e - n" "drop n line"] by (simp_all add: d_def)
    have "view (hworld s) = d @ (drop e line @ rest)" using less.prems(3) d(2) by simp
    from read_exact_stream [OF st this d(1)] obtain u where
      u: "read_exact H c (e - n) s = (Ok d, u)" "view (hworld u) = drop e line @ rest"
        "hlog u = hlog s @ [HvReadExact c (Ok d)]" "vsock_unix_path u = vsock_unix_path s" by blast
    have r': "take n ?r @ take (e - n) d @ drop e ?r = take e line @ replicate (14 - e) NUL"
    proof -
      have "take n ?r = take n line" "take (e - n) d = d" "drop e ?r = replicate (14 - e) NUL"
        using e d(1) m ll by (simp_all)
      moreover have "take e line = take n line @ d"
        using e(1) take_add [of n "e - n" line] by (simp add: d_def)
      ultimately show ?thesis by simp
    qed
    have "\<exists>t. read_response H c (take e line @ replicate (14 - e) NUL) e u =
        (Ret (Ok (line @ replicate (14 - length line) NUL)), t) \<and> view (hworld t) = rest \<and>
        vsock_unix_path t = vsock_unix_path u \<and> (\<exists>evs. hlog t = hlog u @ evs \<and> (\<forall>c'. sent c' evs = []))"
      using e u(2) False less.prems(2) by (intro less.hyps) auto
    then obtain t evs where t: "read_response H c (take e line @ replicate (14 - e) NUL) e u =
        (Ret (Ok (line @ replicate (14 - length line) NUL)), t)" "view (hworld t) = rest"
        "vsock_unix_path t = vsock_unix_path u" "hlog t = hlog u @ evs" "\<forall>c'. sent c' evs = []" by blast
    have "read_response H c ?r n s = read_response H c (take e line @ replicate (14 - e) NUL) e u"
      using response_step [OF inv go, of H c s, folded e_def] u(1) r' by simp
    with t u(3,4) show ?thesis
      by (intro exI [of _ t] conjI exI [of _ "HvReadExact c (Ok d) # evs"]) simp_all
  qed
qed

text \<open>
  A reference for the loop. The line ends at the first newline after the fourth byte, or with the 14th byte; what is read is exactly the
  line, if the stream has it.
\<close>

definition response_line :: "bytes \<Rightarrow> bytes option" where
  "response_line b = (let n = 5 + length (takeWhile (\<lambda>x. x \<noteq> newline) (take 9 (drop 4 b))) in
     if length b < n then None else Some (take n b))"

lemma read_response_rest:
  assumes st: "stream H c view"
  shows "5 \<le> n \<Longrightarrow> n < 14 \<Longrightarrow> length p = n \<Longrightarrow> last p \<noteq> newline \<Longrightarrow> view (hworld s) = cs \<Longrightarrow>
    m = Suc (length (takeWhile (\<lambda>x. x \<noteq> newline) (take (13 - n) cs))) \<Longrightarrow>
    (if length cs < m then \<exists>e t. read_response H c (p @ replicate (14 - n) NUL) n s = (Ret (Err (ReadingVsockResponse e)), t)
     else \<exists>t. read_response H c (p @ replicate (14 - n) NUL) n s = (Ret (Ok (p @ take m cs @ replicate (14 - n - m) NUL)), t) \<and>
       view (hworld t) = drop m cs)"
proof (induction "14 - n" arbitrary: n p s cs m rule: less_induct)
  case less
  let ?r = "p @ replicate (14 - n) NUL"
  have inv: "response_inv ?r n" using less.prems by (simp add: response_inv_def)
  have "p \<noteq> []" using less.prems(1,3) by auto
  then have "?r ! (n - 1) = last p" using less.prems(3) by (auto simp: nth_append last_conv_nth)
  then have go: "\<not> ((0 < n \<and> ?r ! (n - 1) = newline) \<or> n = 14)" using less.prems(2,4) by simp
  have step: "read_response H c ?r n s = (case read_exact H c 1 s of (Err x, s) \<Rightarrow> (Ret (Err (ReadingVsockResponse x)), s)
      | (Ok d, s) \<Rightarrow> read_response H c (take n ?r @ take 1 d @ drop (n + 1) ?r) (n + 1) s)"
    using response_step [OF inv go, of H c s] less.prems(1) by (simp cong: prod.case_cong result.case_cong)
  show ?case
  proof (cases cs)
    case Nil
    then obtain e t where "read_exact H c 1 s = (Err e, t)" using read_exact_short [OF st, of s 1] less.prems(5) by auto
    with step Nil less.prems(6) show ?thesis by simp
  next
    case (Cons x cs')
    then have "view (hworld s) = [x] @ cs'" using less.prems(5) by simp
    from read_exact_stream [OF st this, of 1] obtain u where u: "read_exact H c 1 s = (Ok [x], u)" "view (hworld u) = cs'" by auto
    have r': "take n ?r @ take 1 [x] @ drop (n + 1) ?r = (p @ [x]) @ replicate (14 - (n + 1)) NUL"
      using less.prems(3) by (simp add: drop_replicate)
    with step u have eq: "read_response H c ?r n s = read_response H c ((p @ [x]) @ replicate (14 - (n + 1)) NUL) (n + 1) u" by simp
    show ?thesis
    proof (cases "x = newline \<or> n = 13")
      case True
      have "response_inv ((p @ [x]) @ replicate (14 - (n + 1)) NUL) (n + 1)" using less.prems by (auto simp: response_inv_def)
      moreover have "((p @ [x]) @ replicate (14 - (n + 1)) NUL) ! (n + 1 - 1) = x" using less.prems(3) by (simp add: nth_append)
      ultimately have "read_response H c ?r n s = (Ret (Ok ((p @ [x]) @ replicate (14 - (n + 1)) NUL)), u)"
        unfolding eq using True by (intro response_stop) auto
      moreover have "m = 1" using True less.prems(6) Cons by (auto simp: take_Cons')
      ultimately show ?thesis using u(2) Cons by simp
    next
      case False
      let ?m = "Suc (length (takeWhile (\<lambda>x. x \<noteq> newline) (take (13 - (n + 1)) cs')))"
      have "n < 13" using less.prems(2) False by auto
      then have "13 - n = Suc (13 - (n + 1))" by simp
      then have m: "m = Suc ?m" using less.prems(6) Cons False by simp
      have "(if length cs' < ?m then \<exists>e t. read_response H c ((p @ [x]) @ replicate (14 - (n + 1)) NUL) (n + 1) u = (Ret (Err (ReadingVsockResponse e)), t)
       else \<exists>t. read_response H c ((p @ [x]) @ replicate (14 - (n + 1)) NUL) (n + 1) u =
         (Ret (Ok ((p @ [x]) @ take ?m cs' @ replicate (14 - (n + 1) - ?m) NUL)), t) \<and> view (hworld t) = drop ?m cs')"
        using less.prems False u(2) by (intro less.hyps) auto
      with m Cons show ?thesis unfolding eq by (simp add: diff_diff_left split: if_splits)
    qed
  qed
qed

text \<open>After the first five bytes.\<close>

lemma read_response_started:
  assumes "stream H c view" "length p = 5" "view (hworld u) = cs"
  shows "case response_line (p @ cs) of
      None \<Rightarrow> \<exists>e t. read_response H c (p @ replicate 9 NUL) 5 u = (Ret (Err (ReadingVsockResponse e)), t)
    | Some r \<Rightarrow> \<exists>t. read_response H c (p @ replicate 9 NUL) 5 u = (Ret (Ok (r @ replicate (14 - length r) NUL)), t) \<and>
        p @ cs = r @ view (hworld t)"
proof -
  obtain q y where p: "p = q @ [y]" "length q = 4" using assms(2) by (cases p rule: rev_cases) auto
  then have d4: "drop 4 (p @ cs) = y # cs" by simp
  show ?thesis
  proof (cases "y = newline")
    case True
    have "response_inv (p @ replicate 9 NUL) 5" "(p @ replicate 9 NUL) ! (5 - 1) = newline"
      using assms(2) p True by (simp_all add: response_inv_def nth_append)
    then have "read_response H c (p @ replicate 9 NUL) 5 u = (Ret (Ok (p @ replicate 9 NUL)), u)" by (intro response_stop) simp_all
    moreover have "response_line (p @ cs) = Some p" unfolding response_line_def Let_def d4 using True assms(2) by simp
    ultimately show ?thesis using assms(2,3) by simp
  next
    case False
    define m where "m = Suc (length (takeWhile (\<lambda>x. x \<noteq> newline) (take (13 - 5) cs)))"
    have "last p \<noteq> newline" using False p by simp
    have "14 - 5 = (9 :: nat)" "5 \<le> (5 :: nat)" "5 < (14 :: nat)" by simp_all
    note rest = read_response_rest [OF assms(1) this(2,3) assms(2) \<open>last p \<noteq> newline\<close> assms(3) m_def, unfolded this(1)]
    have line: "response_line (p @ cs) = (if length cs < m then None else Some (p @ take m cs))"
      unfolding response_line_def Let_def d4 using False assms(2) by (simp add: m_def)
    show ?thesis
    proof (cases "length cs < m")
      case True
      then show ?thesis using rest unfolding line by simp
    next
      case no: False
      from rest no obtain t where
        "read_response H c (p @ replicate 9 NUL) 5 u = (Ret (Ok (p @ take m cs @ replicate (9 - m) NUL)), t)" "view (hworld t) = drop m cs"
        by (simp only: if_False) blast
      moreover have "14 - length (p @ take m cs) = 9 - m" using no assms(2) by simp
      ultimately show ?thesis unfolding line using no by simp
    qed
  qed
qed

text \<open>
  C20. The loop that reads the response of Cloud Hypervisor is equivalent to its reference: on every stream, it reads the line,
  no byte more, and pads it with zeros; it fails exactly if the stream ends before the line does.
\<close>

theorem read_response_reference:
  assumes "stream H c view"
  shows "case response_line (view (hworld s)) of
      None \<Rightarrow> \<exists>e t. read_response H c (replicate 14 NUL) 0 s = (Ret (Err (ReadingVsockResponse e)), t)
    | Some r \<Rightarrow> \<exists>t. read_response H c (replicate 14 NUL) 0 s = (Ret (Ok (r @ replicate (14 - length r) NUL)), t) \<and>
        view (hworld s) = r @ view (hworld t)"
proof -
  let ?b = "view (hworld s)" and ?r = "replicate 14 NUL"
  have step: "read_response H c ?r 0 s = (case read_exact H c 5 s of (Err x, s) \<Rightarrow> (Ret (Err (ReadingVsockResponse x)), s)
      | (Ok d, s) \<Rightarrow> read_response H c (take 5 d @ drop 5 ?r) 5 s)"
    using response_step [of ?r 0 H c s] by (simp add: response_inv_def cong: prod.case_cong result.case_cong)
  show ?thesis
  proof (cases "length ?b < 5")
    case True
    then obtain e t where "read_exact H c 5 s = (Err e, t)" using read_exact_short [OF assms] by blast
    with step True show ?thesis by (simp add: response_line_def Let_def)
  next
    case False
    then obtain p cs where b: "?b = p @ cs" "length p = 5" using that [of "take 5 ?b" "drop 5 ?b"] by simp
    from read_exact_stream [OF assms b] obtain u where u: "read_exact H c 5 s = (Ok p, u)" "view (hworld u) = cs" by blast
    have eq: "read_response H c ?r 0 s = read_response H c (p @ replicate 9 NUL) 5 u" using step u b(2) by (simp add: drop_replicate)
    show ?thesis unfolding b(1) eq by (rule read_response_started [OF assms b(2) u(2)])
  qed
qed

theorem read_response_reference_witness:
  "(\<exists>t. read_response line_host 1 (replicate 14 NUL) 0 (hs0 (''OK 1024'' @ [newline] @ ''data'')) =
      (Ret (Ok (''OK 1024'' @ [newline] @ replicate 6 NUL)), t) \<and> ''data'' = hworld t) \<and>
   (\<exists>e t. read_response line_host 1 (replicate 14 NUL) 0 (hs0 ''OK 10'') = (Ret (Err (ReadingVsockResponse e)), t))"
  using read_response_reference [OF line_host_stream(1), of 1 "hs0 (''OK 1024'' @ [newline] @ ''data'')"]
    read_response_reference [OF line_host_stream(1), of 1 "hs0 ''OK 10''"]
  by (simp add: response_line_def Let_def hs0_def numeral_eq_Suc)

lemma write_parts_duplex:
  assumes "duplex H c view"
  shows "\<exists>t. write_parts H c parts s = (Ok (), t) \<and> view (hworld t) = view (hworld s) \<and>
    vsock_unix_path t = vsock_unix_path s \<and>
    (\<exists>evs. hlog t = hlog s @ evs \<and> (\<forall>c'. sent c' evs = (if c' = c then concat parts else [])))"
proof (induction parts arbitrary: s)
  case (Cons p parts)
  obtain u where u: "write_all_to H c p s = (Ok (), u)" "view (hworld u) = view (hworld s)"
    "hlog u = hlog s @ [HvWriteAll c p (Ok ())]" "vsock_unix_path u = vsock_unix_path s"
    using write_all_duplex [OF assms] by blast
  from Cons [of u] obtain t evs where t: "write_parts H c parts u = (Ok (), t)" "view (hworld t) = view (hworld u)"
    "vsock_unix_path t = vsock_unix_path u" "hlog t = hlog u @ evs" "\<forall>c'. sent c' evs = (if c' = c then concat parts else [])" by blast
  have "hlog t = hlog s @ HvWriteAll c p (Ok ()) # evs" using u(3) t(4) by simp
  moreover have "\<forall>c'. sent c' (HvWriteAll c p (Ok ()) # evs) = (if c' = c then concat (p # parts) else [])"
    using t(5) by simp
  ultimately show ?case
    using u t by (intro exI [of _ t] conjI exI [of _ "HvWriteAll c p (Ok ()) # evs"]) simp_all
qed simp

text \<open>
  Connecting to a port of the guest sends exactly \<open>CONNECT port\<close> and a newline, and takes exactly the line
  \<open>OK number\<close> off the stream: for every 32-bit number Cloud Hypervisor may answer with, the
  connection is returned with the first byte of the D-Bus conversation as the next one to be read.
\<close>

lemma connect_to_guest_handshake:
  assumes path: "vsock_unix_path s = Some path" and conn: "h_connect H path (hworld s) = (Ok c, w)"
    and str: "stream H c view" "duplex H c view"
    and resp: "view w = ''OK '' @ dec (unat (n :: u32)) @ [newline] @ rest"
  shows "\<exists>t evs. connect_to_guest H port s = (Ret (Ok c), t) \<and> view (hworld t) = rest \<and>
    hlog t = hlog s @ evs \<and> (\<forall>c'. sent c' evs = (if c' = c then ''CONNECT '' @ dec (unat port) @ [newline] else []))"
proof -
  define s1 where "s1 = s\<lparr>hworld := w, hlog := hlog s @ [HvConnect path (Ok c)]\<rparr>"
  have 1: "hask (h_connect H path) (HvConnect path) s = (Ok c, s1)" using conn by (simp add: hask_def s1_def)
  obtain s2 e2 where 2: "write_parts H c [''CONNECT '', dec (unat port), [newline]] s1 = (Ok (), s2)"
    "view (hworld s2) = view w" "hlog s2 = hlog s1 @ e2" "\<forall>c'. sent c' e2 = (if c' = c then ''CONNECT '' @ dec (unat port) @ [newline] else [])"
    using write_parts_duplex [OF str(2), of "[''CONNECT '', dec (unat port), [newline]]" s1] by (auto simp: s1_def)
  let ?m = "''OK '' @ dec (unat n)"
  have m: "newline \<notin> set ?m" "4 \<le> length ?m" "length ?m \<le> 13"
    using length_dec_u32 [of n] length_dec_pos [of "unat n"] by (simp_all add: Suc_le_eq)
  have "view (hworld s2) = drop 0 (?m @ [newline]) @ rest" using 2(2) resp by simp
  from read_response_line [OF str(1) m, of 0, OF _ _ this] obtain s3 e3 where
    3: "read_response H c (replicate 14 NUL) 0 s2 = (Ret (Ok ((?m @ [newline]) @ replicate (14 - length (?m @ [newline])) NUL)), s3)"
      "view (hworld s3) = rest" "hlog s3 = hlog s2 @ e3" "\<forall>c'. sent c' e3 = []" by auto
  have "starts_with ''OK '' ((?m @ [newline]) @ replicate (14 - length (?m @ [newline])) NUL)"
    by (simp add: starts_with_def)
  with 1 2(1) 3(1) path have "connect_to_guest H port s = (Ret (Ok c), s3)"
    by (simp add: connect_to_guest_def once_get_def)
  moreover have "hlog s3 = hlog s @ HvConnect path (Ok c) # e2 @ e3" using 2(3) 3(3) by (simp add: s1_def)
  moreover have "\<forall>c'. sent c' (HvConnect path (Ok c) # e2 @ e3) = (if c' = c then ''CONNECT '' @ dec (unat port) @ [newline] else [])"
    using 2(4) 3(4) by simp
  ultimately show ?thesis using 3(2) by blast
qed

text \<open>
  Whatever the socket answers, the handshake ends: it reads at most 14 bytes and does not panic, provided
  the path of the socket is known.
\<close>

lemma connect_to_guest_total:
  assumes "reads_exactly H" "vsock_unix_path s = Some path"
  shows "\<exists>r t evs. connect_to_guest H port s = (Ret r, t) \<and> hlog t = hlog s @ evs \<and> length (received evs) \<le> 14"
proof -
  obtain c s1 where 1: "hask (h_connect H path) (HvConnect path) s = (c, s1)" by force
  have l1: "hlog s1 = hlog s @ [HvConnect path c]" using 1 by (auto simp: hask_def split: prod.splits)
  have w: "\<exists>e. hlog t = hlog u @ e \<and> received e = []" if "write_parts H x ps u = (r, t)" for x ps u r t
    using that
  proof (induction ps arbitrary: u)
    case (Cons p ps)
    obtain q v where q: "write_all_to H x p u = (q, v)" by force
    then have "hlog v = hlog u @ [HvWriteAll x p q]" by (auto simp: write_all_to_def hask_def split: prod.splits)
    with Cons q show ?case by (cases q) fastforce+
  qed simp
  show ?thesis
  proof (cases c)
    case (Err e)
    with 1 l1 assms(2) show ?thesis by (auto simp: connect_to_guest_def once_get_def)
  next
    case (Ok x)
    obtain r2 s2 where 2: "write_parts H x [''CONNECT '', dec (unat port), [newline]] s1 = (r2, s2)" by force
    from w [OF 2] obtain e2 where e2: "hlog s2 = hlog s1 @ e2" "received e2 = []" by blast
    have "response_inv (replicate 14 NUL) 0" by (simp add: response_inv_def)
    from read_response_total [OF assms(1) this, of x s2] obtain q s3 e3 where
      3: "read_response H x (replicate 14 NUL) 0 s2 = (Ret q, s3)" "hlog s3 = hlog s2 @ e3" "length (received e3) \<le> 14" by auto
    have d: "hlog (drop_conn H x u) = hlog u @ [HvDrop x]" for u by (simp add: drop_conn_def hemit_def)
    show ?thesis
    proof (cases r2)
      case (Err e)
      with 1 Ok 2 l1 e2 assms(2) d show ?thesis
        by (intro exI [of _ "Err e"] exI [of _ "drop_conn H x s2"] exI [of _ "HvConnect path c # e2 @ [HvDrop x]"])
           (simp add: connect_to_guest_def once_get_def)
    next
      case r2: (Ok y)
      show ?thesis
      proof (cases "\<exists>r. q = Ok r \<and> starts_with ''OK '' r")
        case True
        with 1 Ok 2 r2 3 l1 e2 assms(2) show ?thesis
          by (intro exI [of _ "Ok x"] exI [of _ s3] exI [of _ "HvConnect path c # e2 @ e3"])
             (auto simp: connect_to_guest_def once_get_def)
      next
        case False
        then obtain e where "connect_to_guest H port s = (Ret (Err e), drop_conn H x s3)"
          using 1 Ok 2 r2 3 assms(2) by (cases q) (auto simp: connect_to_guest_def once_get_def)
        with 3 l1 e2 d show ?thesis
          by (intro exI [of _ "Err e"] exI [of _ "drop_conn H x s3"] exI [of _ "HvConnect path c # e2 @ e3 @ [HvDrop x]"])
             simp
      qed
    qed
  qed
qed

section \<open>What the functions add to the log\<close>

text \<open>
  The events of talking to a connection: reads, the writes that satisfy \<open>W\<close>, connecting and
  dropping.
\<close>

definition talks :: "(bytes \<Rightarrow> bool) \<Rightarrow> hevent \<Rightarrow> bool" where
  "talks W e \<longleftrightarrow> (case e of HvReadExact _ _ \<Rightarrow> True | HvWriteAll _ b _ \<Rightarrow> W b | HvConnect _ _ \<Rightarrow> True | HvDrop _ \<Rightarrow> True | _ \<Rightarrow> False)"

lemma talks_simps [simp]:
  "talks W (HvReadExact c r)" "talks W (HvConnect p q)" "talks W (HvDrop c)" "talks W (HvWriteAll c b x) \<longleftrightarrow> W b"
  by (simp_all add: talks_def)

lemma read_exact_talks: "read_exact H c n s = (r, t) \<Longrightarrow> adds (talks W) s t"
  by (rule read_exact_adds) simp_all

lemma write_all_to_talks: "write_all_to H c b s = (r, t) \<Longrightarrow> W b \<Longrightarrow> adds (talks W) s t"
  by (rule write_all_to_adds) simp_all

lemma receive_u32_adds:
  assumes "receive_u32 H c s = (r, t)"
  shows "adds (talks W) s t"
proof -
  obtain q u where u: "read_exact H c 4 s = (q, u)" by force
  with assms have "t = u" by (auto simp: receive_u32_def split: result.splits)
  with read_exact_talks [OF u] show ?thesis by blast
qed

lemma receive_bytestring_adds:
  assumes "receive_bytestring H c s = (r, t)"
  shows "adds (talks W) s t"
proof -
  obtain q u where u: "receive_u32 H c s = (q, u)" by force
  note a = receive_u32_adds [OF u, of W]
  show ?thesis
  proof (cases q)
    case (Ok n)
    obtain x v where v: "read_exact H c (unat n) u = (x, v)" by force
    with assms u Ok have "t = v" by (auto simp: receive_bytestring_def split: result.splits)
    with adds_trans [OF a read_exact_talks [OF v]] show ?thesis by blast
  qed (use assms u a in \<open>auto simp: receive_bytestring_def\<close>)
qed

lemma negotiate_version_adds:
  assumes "negotiate_version H c s = (r, t)" "W [CHR 0x01]"
  shows "adds (talks W) s t"
proof -
  obtain q u where u: "read_exact H c 1 s = (q, u)" by force
  note a = read_exact_talks [OF u, of W]
  show ?thesis
  proof (cases q)
    case (Ok n)
    obtain x v where v: "read_exact H c (of_char (hd n)) u = (x, v)" by force
    note b = adds_trans [OF a read_exact_talks [OF v]]
    obtain y z where z: "write_all_to H c [CHR 0x01] v = (y, z)" by force
    have "adds (talks W) v z" by (rule write_all_to_talks [where W = W, OF z assms(2)])
    from adds_trans [OF b this] b assms u Ok v z show ?thesis
      by (auto simp: negotiate_version_def split: result.splits if_splits)
  qed (use assms u a in \<open>auto simp: negotiate_version_def\<close>)
qed

lemma write_parts_adds: "write_parts H c parts s = (r, t) \<Longrightarrow> list_all W parts \<Longrightarrow> adds (talks W) s t"
proof (induction parts arbitrary: s)
  case (Cons p parts)
  obtain q u where u: "write_all_to H c p s = (q, u)" by force
  have a: "adds (talks W) s u" using Cons.prems(2) by (intro write_all_to_talks [where W = W, OF u]) simp
  show ?case
  proof (cases q)
    case (Ok x)
    with Cons u have "adds (talks W) u t" by simp
    with a show ?thesis by (rule adds_trans)
  qed (use Cons.prems u a in simp)
qed simp

lemma read_response_cases:
  assumes "read_response H c r n s = (q, t)"
  defines "e \<equiv> max (min_response_len - n) (n + 1)"
  obtains "t = s" | x where "read_exact H c (e - n) s = (Err x, t)"
    | d u where "n < length r" "read_exact H c (e - n) s = (Ok d, u)" "e \<le> length r"
        "read_response H c (take n r @ take (e - n) d @ drop e r) e u = (q, t)"
proof -
  let ?stop = "(0 < n \<and> n - 1 < length r \<and> r ! (n - 1) = newline) \<or> length r \<le> n"
  obtain x u where u: "read_exact H c (e - n) s = (x, u)" by force
  have eq: "read_response H c r n s = (if ?stop then (Ret (Ok r), s) else if length r < e then (Panic, s) else
      (case x of Err y \<Rightarrow> (Ret (Err (ReadingVsockResponse y)), u)
       | Ok d \<Rightarrow> read_response H c (take n r @ take (e - n) d @ drop e r) e u))"
    by (subst read_response.simps) (simp only: Let_def e_def [symmetric] u prod.case)
  show thesis
  proof (cases "?stop \<or> length r < e")
    case True
    then have "t = s" using assms(1) eq by (metis prod.inject)
    then show thesis by (rule that(1))
  next
    case False
    then have "(case x of Err y \<Rightarrow> (Ret (Err (ReadingVsockResponse y)), u)
       | Ok d \<Rightarrow> read_response H c (take n r @ take (e - n) d @ drop e r) e u) = (q, t)"
      using assms(1) eq by presburger
    with u False that(2,3) show thesis by (cases x) auto
  qed
qed

lemma read_response_adds: "read_response H c r n s = (q, t) \<Longrightarrow> adds (talks W) s t"
proof (induction "length r - n" arbitrary: r n s rule: less_induct)
  case less
  define e where "e = max (min_response_len - n) (n + 1)"
  from less.prems show ?case
  proof (cases rule: read_response_cases)
    case (2 x)
    from read_exact_talks [OF this] show ?thesis .
  next
    case (3 d u)
    then have r: "n < e" "e \<le> length r" "read_exact H c (e - n) s = (Ok d, u)"
      "read_response H c (take n r @ take (e - n) d @ drop e r) e u = (q, t)" by (simp_all add: e_def)
    have "length (take n r @ take (e - n) d @ drop e r) - e < length r - n"
      using r(1,2) by (auto simp: min_def intro!: response_progress)
    from less.hyps [OF this r(4)] have "adds (talks W) u t" .
    moreover have "adds (talks W) s u" by (rule read_exact_talks [OF r(3)])
    ultimately show ?thesis by (rule adds_trans [rotated])
  qed simp
qed

lemma drop_conn_talks: "adds (talks W) s (drop_conn H c s)"
  by (rule drop_conn_adds) simp

lemma connect_to_guest_adds:
  assumes "connect_to_guest H port s = (r, t)" "list_all W [''CONNECT '', dec (unat port), [newline]]"
  shows "adds (talks W) s t"
proof (cases "vsock_unix_path s")
  case None
  with assms show ?thesis by (simp add: connect_to_guest_def once_get_def)
next
  case (Some path)
  obtain q u where u: "hask (h_connect H path) (HvConnect path) s = (q, u)" by force
  have a: "adds (talks W) s u" by (rule hask_adds [OF u]) simp
  show ?thesis
  proof (cases q)
    case (Ok c)
    obtain x v where v: "write_parts H c [''CONNECT '', dec (unat port), [newline]] u = (x, v)" by force
    note b = adds_trans [OF a write_parts_adds [OF v assms(2)]]
    obtain y z where z: "read_response H c (replicate 14 NUL) 0 v = (y, z)" by force
    note d = adds_trans [OF b read_response_adds [OF z]]
    show ?thesis
      using assms(1) Some u Ok v z d adds_trans [OF d drop_conn_talks] adds_trans [OF b drop_conn_talks]
      by (auto simp: connect_to_guest_def once_get_def split: result.splits outcome.splits if_splits)
  qed (use assms Some u a in \<open>auto simp: connect_to_guest_def once_get_def\<close>)
qed

lemma connect_writes: "list_all (\<lambda>b. b \<noteq> [NUL]) [''CONNECT '', dec (unat port), [newline]]"
proof -
  have "NUL \<notin> set (dec (unat port))" by (rule notin_dec) (simp add: is_digit_def)
  then have "dec (unat port) \<noteq> [NUL]" by (metis list.set_intros(1))
  then show ?thesis by simp
qed

section \<open>An example\<close>

theorem listening_vsock_path_spec_witness:
  "fst (listening_vsock_path line_host (hs0 [])) = Ret (Ok ''/run/vm/app/vsock'')"
proof -
  have "h_local_addr line_host (hworld (hs0 [])) = (Ok (Some ''/run/vm/app/vsock_219''), [])"
    by (simp add: line_host_simps hs0_def)
  note spec = listening_vsock_path_spec [OF this, of "''/run/vm/app/vsock''"]
  have "''/run/vm/app/vsock_219'' = ''/run/vm/app/vsock'' @ ''_'' @ ''219'' \<and> list_all is_digit ''219''"
    by (simp add: is_digit_def)
  with spec show ?thesis by blast
qed

end
