(* ===== verification/Documents.thy ===== *)
theory Documents
  imports PortalEnv
begin

text \<open>
  \<open>tools/xdg-desktop-portal-spectrum-host/src/documents.rs\<close>: sharing a file of the host with the
  guest through the document portal. The portal itself is \<open>h_add_named_full\<close>. The descriptor of the
  directory is given away with the call.
\<close>

definition DOCUMENT_ADD_FLAGS_REUSE_EXISTING :: u32 where
  "DOCUMENT_ADD_FLAGS_REUSE_EXISTING = 1"

definition documents_init :: "('w, 'v) host \<Rightarrow> 'w hs \<Rightarrow> unit outcome \<times> 'w hs" where
  "documents_init H s =
     (case hask (h_documents_proxy H) HvDocumentsProxy s of
        (Err e, s) \<Rightarrow> (Panic, s)
      | (Ok proxy, s) \<Rightarrow>
         (case once_set proxy (documents_PROXY s) of
            (Err _, _) \<Rightarrow> (Panic, s)
          | (Ok _, c) \<Rightarrow> (Ret (), s\<lparr>documents_PROXY := c\<rparr>)))"

definition perms :: "bool \<Rightarrow> bytes list" where
  "perms writable = (if writable then [''read'', ''write'', ''grant-permissions''] else [''read'', ''grant-permissions''])"

definition share_file :: "('w, 'v) host \<Rightarrow> path \<Rightarrow> bool \<Rightarrow> 'w hs \<Rightarrow> (path, portal_error) result outcome \<times> 'w hs" where
  "share_file H source_path writable s =
     (if h_exists H source_path (hworld s) \<and> \<not> h_is_file H source_path (hworld s)
      then (Ret (Err OnlyRegularFiles), s)
      else
        (case parent source_path of
           None \<Rightarrow> (Panic, s)
         | Some dir \<Rightarrow>
            (case hask (h_open_path H dir) (HvOpenPath dir) s of
               (Err e, s) \<Rightarrow> (Ret (Err (OpeningOPath dir e)), s)
             | (Ok fd, s) \<Rightarrow>
                (case file_name source_path of
                   None \<Rightarrow> (Panic, s)
                 | Some name \<Rightarrow>
                    (let basename = name @ [NUL] in
                     case once_get (documents_PROXY s) of
                       None \<Rightarrow> (Panic, s)
                     | Some _ \<Rightarrow>
                        (case hask (h_add_named_full H fd basename DOCUMENT_ADD_FLAGS_REUSE_EXISTING [] (perms writable))
                            (HvAddNamedFull fd basename DOCUMENT_ADD_FLAGS_REUSE_EXISTING [] (perms writable)) s of
                           (Err e, s) \<Rightarrow> (Ret (Err (AddNamedFull e)), s)
                         | (Ok doc_id, s) \<Rightarrow>
                             (Ret (Ok (join (join ''doc'' doc_id) (butlast basename))), s)))))))"

section \<open>Lemmas\<close>

lemma write_perm [simp]: "''write'' \<in> set (perms writable) \<longleftrightarrow> writable"
  by (simp add: perms_def)

lemma documents_init_ok:
  assumes "documents_PROXY s = None" "documents_init H s = (r, t)"
  shows "(r = Ret () \<and> documents_PROXY t = Some () \<or> r = Panic) \<and>
    vsock_unix_path t = vsock_unix_path s \<and> file_chooser_PROXY t = file_chooser_PROXY s"
  using assms by (auto simp: documents_init_def hask_def once_set_def split: prod.splits result.splits)

text \<open>Every registration carries the permissions asked for, and no chooser is offered.\<close>

definition shares_with :: "bool \<Rightarrow> hevent \<Rightarrow> bool" where
  "shares_with w e \<longleftrightarrow> (case e of HvAddNamedFull _ _ _ _ ps _ \<Rightarrow> ps = perms w | HvServe _ _ _ \<Rightarrow> False | _ \<Rightarrow> True)"

lemma share_file_adds: "share_file H p w s = (r, t) \<Longrightarrow> adds (shares_with w) s t"
  by (auto simp: share_file_def Let_def shares_with_def intro: hask_adds adds_trans
      dest!: hask_adds [where P = "shares_with w"] split: if_splits option.splits prod.splits result.splits)

lemma share_file_no_panic:
  assumes "documents_PROXY s \<noteq> None" "parent p \<noteq> None" "file_name p \<noteq> None"
  shows "\<exists>r t. share_file H p w s = (Ret r, t)"
  using assms
  by (auto simp: share_file_def Let_def once_get_def hask_def split: prod.splits result.splits)

text \<open>
  C26. A file is shared under its own name and with the permissions asked for: when \<open>share_file\<close> returns a path, it opened the
  directory of the file and registered the file's name, terminated by NUL, there, with write permission exactly if the
  caller wants it writable; the path is \<open>doc/id/name\<close> with the id of the document portal. What exists and is not a regular
  file is refused before anything is opened.
\<close>

theorem share_file_spec:
  assumes "share_file H p writable s = (r, t)"
  shows "(h_exists H p (hworld s) \<and> \<not> h_is_file H p (hworld s) \<longrightarrow> r = Ret (Err OnlyRegularFiles) \<and> t = s) \<and>
    (\<forall>q. r = Ret (Ok q) \<longrightarrow> (\<exists>dir name fd ps i. parent p = Some dir \<and> file_name p = Some name \<and>
       hlog t = hlog s @ [HvOpenPath dir (Ok fd), HvAddNamedFull fd (name @ [NUL]) 1 [] ps (Ok i)] \<and>
       (''write'' \<in> set ps \<longleftrightarrow> writable) \<and> q = join (join ''doc'' i) name))"
  using assms
  by (auto simp: share_file_def Let_def DOCUMENT_ADD_FLAGS_REUSE_EXISTING_def dest!: hask_log
      split: if_splits option.splits prod.splits result.splits)

theorem share_file_spec_witness:
  "\<exists>t fd ps i. share_file line_host ''/home/u/a.txt'' False (hs0 []) = (Ret (Ok ''doc/a1b2/a.txt''), t) \<and>
     HvAddNamedFull fd (''a.txt'' @ [NUL]) 1 [] ps (Ok i) \<in> set (hlog t) \<and> ''write'' \<notin> set ps"
proof -
  have p: "parent ''/home/u/a.txt'' = Some ''/home/u''" "file_name ''/home/u/a.txt'' = Some ''a.txt''"
    by (simp_all add: path_eval)
  have j: "join (join ''doc'' ''a1b2'') ''a.txt'' = ''doc/a1b2/a.txt''"
    by (simp add: join_def is_absolute_def has_root_def)
  obtain t where t: "share_file line_host ''/home/u/a.txt'' False (hs0 []) = (Ret (Ok ''doc/a1b2/a.txt''), t)"
    by (simp add: share_file_def line_host_simps p Let_def hask_def hs0_def once_get_def j)
  from share_file_spec [OF t] p obtain fd ps i where
    "hlog t = hlog (hs0 []) @ [HvOpenPath ''/home/u'' (Ok fd), HvAddNamedFull fd (''a.txt'' @ [NUL]) 1 [] ps (Ok i)]"
    "''write'' \<notin> set ps" by force
  then have "HvAddNamedFull fd (''a.txt'' @ [NUL]) 1 [] ps (Ok i) \<in> set (hlog t) \<and> ''write'' \<notin> set ps" by simp
  with t show ?thesis by blast
qed

end
