(* ===== verification/FileChooser.thy ===== *)
theory FileChooser
  imports Documents
begin

text \<open>
  \<open>tools/xdg-desktop-portal-spectrum-host/src/file_chooser.rs\<close>: the file chooser that is offered to
  the guest. It asks the file chooser of the host, shares the chosen files through the document
  portal and replaces their URIs by URIs the guest can open. A \<open>FileChooser\<close> is its only field, the
  path \<open>guest_share_root\<close>.
\<close>

section \<open>Definitions\<close>

definition XDG_DESKTOP_PORTAL_RESPONSE_SUCCESS :: u32 where "XDG_DESKTOP_PORTAL_RESPONSE_SUCCESS = 0"
definition XDG_DESKTOP_PORTAL_RESPONSE_CANCELLED :: u32 where "XDG_DESKTOP_PORTAL_RESPONSE_CANCELLED = 1"
definition XDG_DESKTOP_PORTAL_RESPONSE_OTHER :: u32 where "XDG_DESKTOP_PORTAL_RESPONSE_OTHER = 2"

lemmas response_defs = XDG_DESKTOP_PORTAL_RESPONSE_SUCCESS_def XDG_DESKTOP_PORTAL_RESPONSE_CANCELLED_def
  XDG_DESKTOP_PORTAL_RESPONSE_OTHER_def

record file_chooser =
  guest_share_root :: path

definition file_chooser_new :: "path \<Rightarrow> file_chooser" where
  "file_chooser_new root = \<lparr>guest_share_root = root\<rparr>"

definition file_chooser_init :: "('w, 'v) host \<Rightarrow> 'w hs \<Rightarrow> unit outcome \<times> 'w hs" where
  "file_chooser_init H s =
     (case hask (h_chooser_proxy H) HvChooserProxy s of
        (Err e, s) \<Rightarrow> (Panic, s)
      | (Ok proxy, s) \<Rightarrow>
         (case once_set proxy (file_chooser_PROXY s) of
            (Err _, _) \<Rightarrow> (Panic, s)
          | (Ok _, c) \<Rightarrow> (Ret (), s\<lparr>file_chooser_PROXY := c\<rparr>)))"

definition strip_prefix :: "bytes \<Rightarrow> bytes \<Rightarrow> bytes option" where
  "strip_prefix p b = (if take (length p) b = p then Some (drop (length p) b) else None)"

text \<open>The body of the loop of \<open>transform_uris\<close>.\<close>

definition transform_uri ::
    "('w, 'v) host \<Rightarrow> 'v zv \<Rightarrow> file_chooser \<Rightarrow> bool \<Rightarrow> bytes \<Rightarrow> 'w hs \<Rightarrow> (bytes, portal_error) result outcome \<times> 'w hs" where
  "transform_uri H Z self writable uri s =
     (case strip_prefix ''file://'' uri of
        None \<Rightarrow> (Ret (Err (NotFileUrl uri)), s)
      | Some p \<Rightarrow>
         (let path = percent_decode Z p in
          case share_file H path writable s of (r, s) \<Rightarrow>
           (case r of
              Panic \<Rightarrow> (Panic, s) | Exit n \<Rightarrow> (Exit n, s) | Diverge \<Rightarrow> (Diverge, s)
            | Ret (Err e) \<Rightarrow> (Ret (Err (AddingToDocumentPortal path e)), s)
            | Ret (Ok shared) \<Rightarrow>
                (case url_from_file_path Z (join (guest_share_root self) shared) of
                   None \<Rightarrow> (Panic, s)
                 | Some u \<Rightarrow> (Ret (Ok u), s)))))"

fun transform_each ::
    "('w, 'v) host \<Rightarrow> 'v zv \<Rightarrow> file_chooser \<Rightarrow> bool \<Rightarrow> bytes list \<Rightarrow> 'w hs \<Rightarrow>
     (bytes list, portal_error) result outcome \<times> 'w hs" where
  "transform_each H Z self writable [] s = (Ret (Ok []), s)"
| "transform_each H Z self writable (uri # uris) s =
     (case transform_uri H Z self writable uri s of (r, s) \<Rightarrow>
       (case r of
          Panic \<Rightarrow> (Panic, s) | Exit n \<Rightarrow> (Exit n, s) | Diverge \<Rightarrow> (Diverge, s)
        | Ret (Err e) \<Rightarrow> (Ret (Err e), s)
        | Ret (Ok u) \<Rightarrow>
            (case transform_each H Z self writable uris s of (rs, s) \<Rightarrow>
              (case rs of Ret (Ok us) \<Rightarrow> Ret (Ok (u # us)) | q \<Rightarrow> q, s))))"

definition transform_uris ::
    "('w, 'v) host \<Rightarrow> 'v zv \<Rightarrow> file_chooser \<Rightarrow> 'v \<Rightarrow> bool \<Rightarrow> 'w hs \<Rightarrow> ('v, portal_error) result outcome \<times> 'w hs" where
  "transform_uris H Z self uris writable s =
     (case zv_array Z uris of
        None \<Rightarrow> (Ret (Err UrisNotArray), s)
      | Some arr \<Rightarrow>
         (case zv_strings Z arr of
            None \<Rightarrow> (Ret (Err UrisMembers), s)
          | Some us \<Rightarrow>
             (case transform_each H Z self writable us s of (r, s) \<Rightarrow>
               (case r of
                  Panic \<Rightarrow> (Panic, s) | Exit n \<Rightarrow> (Exit n, s) | Diverge \<Rightarrow> (Diverge, s)
                | Ret (Err e) \<Rightarrow> (Ret (Err e), s)
                | Ret (Ok us) \<Rightarrow> (Ret (Ok (zv_of_strings Z us)), s)))))"

text \<open>\<open>if let Some(uris) = results.get("uris")\<close> and what follows, the same in both implementations.\<close>

definition replace_uris ::
    "('w, 'v) host \<Rightarrow> 'v zv \<Rightarrow> file_chooser \<Rightarrow> bool \<Rightarrow> 'v results \<Rightarrow> 'w hs \<Rightarrow>
     ('v results option, portal_error) result outcome \<times> 'w hs" where
  "replace_uris H Z self writable results s =
     (case results ''uris'' of
        None \<Rightarrow> (Ret (Ok (Some results)), s)
      | Some uris \<Rightarrow>
         (case transform_uris H Z self uris writable s of (r, s) \<Rightarrow>
           (case r of
              Panic \<Rightarrow> (Panic, s) | Exit n \<Rightarrow> (Exit n, s) | Diverge \<Rightarrow> (Diverge, s)
            | Ret (Err e) \<Rightarrow> (Ret (Err e), s)
            | Ret (Ok v) \<Rightarrow> (Ret (Ok (Some (results(''uris'' \<mapsto> v)))), s))))"

definition open_file_impl ::
    "('w, 'v) host \<Rightarrow> 'v zv \<Rightarrow> file_chooser \<Rightarrow> 'v chooser_args \<Rightarrow> 'w hs \<Rightarrow>
     ('v results option, portal_error) result outcome \<times> 'w hs" where
  "open_file_impl H Z self a s =
     (case once_get (file_chooser_PROXY s) of
        None \<Rightarrow> (Panic, s)
      | Some _ \<Rightarrow>
         (case hask (h_open_file H a) (\<lambda>_. HvOpenFile) s of
            (Err e, s) \<Rightarrow> (Ret (Err (Backend e)), s)
          | (Ok (response, results), s) \<Rightarrow>
              if response = XDG_DESKTOP_PORTAL_RESPONSE_SUCCESS then
                (case zv_bool Z (case results ''writable'' of None \<Rightarrow> zv_of_bool Z False | Some v \<Rightarrow> v) of
                   None \<Rightarrow> (Ret (Err WritableFromBackend), s)
                 | Some writable \<Rightarrow> replace_uris H Z self writable results s)
              else if response = XDG_DESKTOP_PORTAL_RESPONSE_CANCELLED then (Ret (Ok None), s)
              else (Ret (Err (EndedWithResponse response)), s)))"

definition save_file_impl ::
    "('w, 'v) host \<Rightarrow> 'v zv \<Rightarrow> file_chooser \<Rightarrow> 'v chooser_args \<Rightarrow> 'w hs \<Rightarrow>
     ('v results option, portal_error) result outcome \<times> 'w hs" where
  "save_file_impl H Z self a s =
     (case once_get (file_chooser_PROXY s) of
        None \<Rightarrow> (Panic, s)
      | Some _ \<Rightarrow>
         (case hask (h_save_file H a) (\<lambda>_. HvSaveFile) s of
            (Err e, s) \<Rightarrow> (Ret (Err (Backend e)), s)
          | (Ok (response, results), s) \<Rightarrow>
              if response = XDG_DESKTOP_PORTAL_RESPONSE_SUCCESS then replace_uris H Z self True results s
              else if response = XDG_DESKTOP_PORTAL_RESPONSE_CANCELLED then (Ret (Ok None), s)
              else (Ret (Err (EndedWithResponse response)), s)))"

text \<open>From the result of an implementation to the reply, the same in both methods.\<close>

definition reply ::
    "('w, 'v) host \<Rightarrow> ('v results option, portal_error) result outcome \<times> 'w hs \<Rightarrow> (u32 \<times> 'v results) outcome \<times> 'w hs" where
  "reply H rs =
     (case rs of (r, s) \<Rightarrow>
       (case r of
          Panic \<Rightarrow> (Panic, s) | Exit n \<Rightarrow> (Exit n, s) | Diverge \<Rightarrow> (Diverge, s)
        | Ret (Ok (Some results)) \<Rightarrow> (Ret (XDG_DESKTOP_PORTAL_RESPONSE_SUCCESS, results), s)
        | Ret (Ok None) \<Rightarrow> (Ret (XDG_DESKTOP_PORTAL_RESPONSE_CANCELLED, Map.empty), s)
        | Ret (Err e) \<Rightarrow> (Ret (XDG_DESKTOP_PORTAL_RESPONSE_OTHER, Map.empty), msg H e s)))"

definition open_file ::
    "('w, 'v) host \<Rightarrow> 'v zv \<Rightarrow> file_chooser \<Rightarrow> 'v chooser_args \<Rightarrow> 'w hs \<Rightarrow> (u32 \<times> 'v results) outcome \<times> 'w hs" where
  "open_file H Z self a s = reply H (open_file_impl H Z self a s)"

definition save_file ::
    "('w, 'v) host \<Rightarrow> 'v zv \<Rightarrow> file_chooser \<Rightarrow> 'v chooser_args \<Rightarrow> 'w hs \<Rightarrow> (u32 \<times> 'v results) outcome \<times> 'w hs" where
  "save_file H Z self a s = reply H (save_file_impl H Z self a s)"

section \<open>What the steps write to the log\<close>

lemmas chooser_splits = option.splits result.splits outcome.splits prod.splits if_splits

text \<open>An event that registers no file and offers no chooser.\<close>

definition no_share :: "hevent \<Rightarrow> bool" where
  "no_share e \<longleftrightarrow> (case e of HvAddNamedFull _ _ _ _ _ _ \<Rightarrow> False | HvServe _ _ _ \<Rightarrow> False | _ \<Rightarrow> True)"

lemma transform_uri_adds: "transform_uri H Z self w uri s = (r, t) \<Longrightarrow> adds (shares_with w) s t"
  by (auto simp: transform_uri_def Let_def dest: share_file_adds split: chooser_splits)

lemma transform_each_adds: "transform_each H Z self w uris s = (r, t) \<Longrightarrow> adds (shares_with w) s t"
proof (induction uris arbitrary: s r t)
  case (Cons uri uris)
  obtain q u where q: "transform_uri H Z self w uri s = (q, u)" by force
  from transform_uri_adds [OF this] have "adds (shares_with w) s u" .
  moreover obtain q' v where v: "transform_each H Z self w uris u = (q', v)" by force
  then have "adds (shares_with w) u v" by (rule Cons.IH)
  ultimately show ?case using Cons.prems q v by (auto split: chooser_splits intro: adds_trans)
qed simp

lemma replace_uris_adds: "replace_uris H Z self w results s = (r, t) \<Longrightarrow> adds (shares_with w) s t"
  by (auto simp: replace_uris_def transform_uris_def dest!: transform_each_adds split: chooser_splits)

section \<open>The URIs the guest gets\<close>

text \<open>The URI a host URI is replaced by, and the two requests it takes to share the file.\<close>

definition guest_uri :: "'v zv \<Rightarrow> path \<Rightarrow> bool \<Rightarrow> bytes \<Rightarrow> bytes \<Rightarrow> hevent list \<Rightarrow> bool" where
  "guest_uri Z root writable uri u evs \<longleftrightarrow> (\<exists>p dir name fd i.
     uri = ''file://'' @ p \<and> parent (percent_decode Z p) = Some dir \<and> file_name (percent_decode Z p) = Some name \<and>
     evs = [HvOpenPath dir (Ok fd), HvAddNamedFull fd (name @ [NUL]) 1 [] (perms writable) (Ok i)] \<and>
     url_from_file_path Z (join root (join (join ''doc'' i) name)) = Some u)"

lemma strip_prefix_Some: "strip_prefix p b = Some r \<longleftrightarrow> b = p @ r"
  unfolding strip_prefix_def by (metis append_eq_conv_conj append_take_drop_id option.inject option.distinct(1))

lemma transform_uri_guest:
  assumes "transform_uri H Z self w uri s = (Ret (Ok u), t)"
  shows "\<exists>evs. hlog t = hlog s @ evs \<and> guest_uri Z (guest_share_root self) w uri u evs"
  using assms
  by (auto simp: transform_uri_def Let_def guest_uri_def share_file_def strip_prefix_Some
      DOCUMENT_ADD_FLAGS_REUSE_EXISTING_def dest!: hask_log split: chooser_splits)

lemma transform_each_guest:
  assumes "transform_each H Z self w uris s = (Ret (Ok us), t)"
  shows "\<exists>evss. hlog t = hlog s @ concat evss \<and> length evss = length us \<and>
    list_all2 (\<lambda>uri (u, evs). guest_uri Z (guest_share_root self) w uri u evs) uris (zip us evss)"
  using assms
proof (induction uris arbitrary: s us)
  case (Cons uri uris)
  from Cons.prems obtain u v us' where
    u: "transform_uri H Z self w uri s = (Ret (Ok u), v)" and
    us: "transform_each H Z self w uris v = (Ret (Ok us'), t)" "us = u # us'"
    by (auto split: chooser_splits)
  from transform_uri_guest [OF u] obtain evs where
    evs: "hlog v = hlog s @ evs" "guest_uri Z (guest_share_root self) w uri u evs" by blast
  from Cons.IH [OF us(1)] obtain evss where
    "hlog t = hlog v @ concat evss" "length evss = length us'"
    "list_all2 (\<lambda>uri (u, evs). guest_uri Z (guest_share_root self) w uri u evs) uris (zip us' evss)" by blast
  with evs us(2) show ?case by (intro exI [of _ "evs # evss"]) simp
qed simp

text \<open>The results of the host's file chooser, and the results that are passed on to the guest.\<close>

definition guest_results ::
    "'v zv \<Rightarrow> path \<Rightarrow> bool \<Rightarrow> 'v results \<Rightarrow> 'v results \<Rightarrow> hevent list \<Rightarrow> bool" where
  "guest_results Z root writable results results' evs \<longleftrightarrow>
     (case results ''uris'' of
        None \<Rightarrow> results' = results \<and> evs = []
      | Some v \<Rightarrow> (\<exists>arr uris us evss. zv_array Z v = Some arr \<and> zv_strings Z arr = Some uris \<and>
          results' = results(''uris'' \<mapsto> zv_of_strings Z us) \<and> evs = concat evss \<and> length evss = length us \<and>
          list_all2 (\<lambda>uri (u, evs). guest_uri Z root writable uri u evs) uris (zip us evss)))"

lemma replace_uris_guest:
  assumes "replace_uris H Z self w results s = (Ret (Ok (Some results')), t)"
  shows "\<exists>evs. hlog t = hlog s @ evs \<and> guest_results Z (guest_share_root self) w results results' evs"
proof (cases "results ''uris''")
  case None
  with assms show ?thesis by (simp add: replace_uris_def guest_results_def)
next
  case (Some v)
  with assms obtain arr uris us where
    a: "zv_array Z v = Some arr" "zv_strings Z arr = Some uris"
      "transform_each H Z self w uris s = (Ret (Ok us), t)" "results' = results(''uris'' \<mapsto> zv_of_strings Z us)"
    by (auto simp: replace_uris_def transform_uris_def split: chooser_splits)
  from transform_each_guest [OF a(3)] a Some show ?thesis by (auto simp: guest_results_def)
qed

section \<open>No panics\<close>

text \<open>
  The documented behaviour of \<open>Url::from_file_path\<close>: it fails on relative paths only. And what the
  code relies on of the host's file chooser: the URIs it returns name files.
\<close>

definition urls_total :: "'v zv \<Rightarrow> bool" where
  "urls_total Z \<longleftrightarrow> (\<forall>p. is_absolute p \<longrightarrow> url_from_file_path Z p \<noteq> None)"

definition names_file :: "'v zv \<Rightarrow> bytes \<Rightarrow> bool" where
  "names_file Z uri \<longleftrightarrow> (case strip_prefix ''file://'' uri of
      None \<Rightarrow> True | Some p \<Rightarrow> parent (percent_decode Z p) \<noteq> None \<and> file_name (percent_decode Z p) \<noteq> None)"

definition results_name_files :: "'v zv \<Rightarrow> 'v results \<Rightarrow> bool" where
  "results_name_files Z results \<longleftrightarrow> (case results ''uris'' of None \<Rightarrow> True | Some v \<Rightarrow>
     (case zv_array Z v of None \<Rightarrow> True | Some arr \<Rightarrow>
       (case zv_strings Z arr of None \<Rightarrow> True | Some us \<Rightarrow> list_all (names_file Z) us)))"

definition backend_names_files :: "('w, 'v) host \<Rightarrow> 'v zv \<Rightarrow> bool" where
  "backend_names_files H Z \<longleftrightarrow>
     (\<forall>a w n results w'. h_open_file H a w = (Ok (n, results), w') \<or> h_save_file H a w = (Ok (n, results), w') \<longrightarrow>
        results_name_files Z results)"

lemma transform_uri_total:
  assumes "urls_total Z" "is_absolute (guest_share_root self)" "documents_PROXY s \<noteq> None" "names_file Z uri"
  shows "\<exists>r t. transform_uri H Z self w uri s = (Ret r, t)"
proof (cases "strip_prefix ''file://'' uri")
  case None
  then show ?thesis by (simp add: transform_uri_def)
next
  case (Some p)
  with assms(4) have "parent (percent_decode Z p) \<noteq> None" "file_name (percent_decode Z p) \<noteq> None"
    by (simp_all add: names_file_def)
  with share_file_no_panic [OF assms(3)] obtain r t where
    "share_file H (percent_decode Z p) w s = (Ret r, t)" by blast
  moreover have "\<exists>u. url_from_file_path Z (join (guest_share_root self) q) = Some u" for q
    using assms(1,2) by (auto simp: urls_total_def)
  ultimately show ?thesis using Some by (cases r) (auto simp: transform_uri_def split: option.split)
qed

lemma transform_each_total:
  assumes "urls_total Z" "is_absolute (guest_share_root self)"
  shows "documents_PROXY s \<noteq> None \<Longrightarrow> list_all (names_file Z) uris \<Longrightarrow>
    \<exists>r t. transform_each H Z self w uris s = (Ret r, t)"
proof (induction uris arbitrary: s)
  case (Cons uri uris)
  from transform_uri_total [OF assms, of s uri H w] Cons.prems obtain r u where
    u: "transform_uri H Z self w uri s = (Ret r, u)" by auto
  with transform_uri_adds [OF this] Cons.prems have "documents_PROXY u \<noteq> None"
    by (simp add: adds_def same_cells_def)
  with Cons.IH [of u] Cons.prems obtain r' t where "transform_each H Z self w uris u = (Ret r', t)" by auto
  with u show ?case by (auto split: result.splits)
qed simp

lemma transform_uris_total:
  assumes "urls_total Z" "is_absolute (guest_share_root self)" "documents_PROXY s \<noteq> None"
    "\<And>arr us. zv_array Z v = Some arr \<Longrightarrow> zv_strings Z arr = Some us \<Longrightarrow> list_all (names_file Z) us"
  shows "\<exists>r t. transform_uris H Z self v w s = (Ret r, t)"
proof -
  consider "zv_array Z v = None" | arr where "zv_array Z v = Some arr" "zv_strings Z arr = None"
    | arr us where "zv_array Z v = Some arr" "zv_strings Z arr = Some us" by (metis option.exhaust)
  then show ?thesis
  proof cases
    case 3
    from transform_each_total [OF assms(1-3) assms(4) [OF this]] obtain r t where
      "transform_each H Z self w us s = (Ret r, t)" by blast
    with 3 show ?thesis by (cases r) (simp_all add: transform_uris_def)
  qed (simp_all add: transform_uris_def)
qed

lemma replace_uris_total:
  assumes "urls_total Z" "is_absolute (guest_share_root self)" "documents_PROXY s \<noteq> None" "results_name_files Z results"
  shows "\<exists>r t. replace_uris H Z self w results s = (Ret r, t) \<and> r \<noteq> Ok None"
proof (cases "results ''uris''")
  case None
  then show ?thesis by (simp add: replace_uris_def)
next
  case (Some v)
  have "\<exists>r t. transform_uris H Z self v w s = (Ret r, t)"
    using assms(4) Some by (intro transform_uris_total [OF assms(1-3)]) (simp add: results_name_files_def)
  then obtain r t where "transform_uris H Z self v w s = (Ret r, t)" by blast
  with Some show ?thesis by (cases r) (simp_all add: replace_uris_def)
qed

section \<open>The two methods\<close>

text \<open>The answer of a request to the host's file chooser, and of the implementations.\<close>

lemma reply_cases:
  assumes "reply H (r, s) = (Ret (n, results), t)"
  obtains "r = Ret (Ok (Some results))" "n = 0" "t = s"
    | "r = Ret (Ok None)" "n = 1" "results = Map.empty" "t = s"
    | e where "r = Ret (Err e)" "n = 2" "results = Map.empty" "t = msg H e s"
  using assms by (auto simp: reply_def response_defs split: chooser_splits)

text \<open>The permission the answer of the backend to a request to open files gives.\<close>

definition backend_writable :: "'v zv \<Rightarrow> 'v results \<Rightarrow> bool option" where
  "backend_writable Z results = zv_bool Z (case results ''writable'' of None \<Rightarrow> zv_of_bool Z False | Some v \<Rightarrow> v)"

lemma open_file_impl_cases:
  assumes "file_chooser_PROXY s \<noteq> None" "h_open_file H a (hworld s) = (q, w)" "open_file_impl H Z self a s = (r, t)"
  defines "u \<equiv> s\<lparr>hworld := w, hlog := hlog s @ [HvOpenFile]\<rparr>"
  obtains e where "q = Err e" "r = Ret (Err (Backend e))" "t = u"
    | results where "q = Ok (0, results)" "backend_writable Z results = None" "r = Ret (Err WritableFromBackend)" "t = u"
    | results writable where "q = Ok (0, results)" "backend_writable Z results = Some writable"
        "replace_uris H Z self writable results u = (r, t)"
    | results where "q = Ok (1, results)" "r = Ret (Ok None)" "t = u"
    | n results where "q = Ok (n, results)" "n \<noteq> 0" "n \<noteq> 1" "r = Ret (Err (EndedWithResponse n))" "t = u"
  using assms
  by (auto simp: open_file_impl_def once_get_def hask_def response_defs backend_writable_def split: chooser_splits)

lemma save_file_impl_cases:
  assumes "file_chooser_PROXY s \<noteq> None" "h_save_file H a (hworld s) = (q, w)" "save_file_impl H Z self a s = (r, t)"
  defines "u \<equiv> s\<lparr>hworld := w, hlog := hlog s @ [HvSaveFile]\<rparr>"
  obtains e where "q = Err e" "r = Ret (Err (Backend e))" "t = u"
    | results where "q = Ok (0, results)" "replace_uris H Z self True results u = (r, t)"
    | results where "q = Ok (1, results)" "r = Ret (Ok None)" "t = u"
    | n results where "q = Ok (n, results)" "n \<noteq> 0" "n \<noteq> 1" "r = Ret (Err (EndedWithResponse n))" "t = u"
  using assms by (auto simp: save_file_impl_def once_get_def hask_def response_defs split: chooser_splits)

lemma open_file_unset: "file_chooser_PROXY s = None \<Longrightarrow> open_file H Z self a s = (Panic, s)"
  by (simp add: open_file_def open_file_impl_def once_get_def reply_def)

lemma save_file_unset: "file_chooser_PROXY s = None \<Longrightarrow> save_file H Z self a s = (Panic, s)"
  by (simp add: save_file_def save_file_impl_def once_get_def reply_def)

lemma reply_adds: "reply H (r, s) = (q, t) \<Longrightarrow> (\<And>prog e. P (HvMsg prog e)) \<Longrightarrow> adds P s t"
  by (auto simp: reply_def intro: msg_adds split: chooser_splits)

text \<open>What a method adds to the log, given what its implementation adds.\<close>

lemma open_file_adds:
  assumes "open_file H Z self a s = (r, t)"
  shows "adds no_share s t \<or> (\<exists>results w writable. h_open_file H a (hworld s) = (Ok (0, results), w) \<and>
    backend_writable Z results = Some writable \<and> adds (shares_with writable) s t)"
proof (cases "file_chooser_PROXY s = None")
  case True
  with assms show ?thesis by (simp add: open_file_unset)
next
  case False
  obtain q w where q: "h_open_file H a (hworld s) = (q, w)" by force
  obtain r' u where u: "open_file_impl H Z self a s = (r', u)" by force
  let ?u = "s\<lparr>hworld := w, hlog := hlog s @ [HvOpenFile]\<rparr>"
  have s: "adds P s ?u" if "P HvOpenFile" for P using that by (simp add: adds_def same_cells_def)
  from assms u have "reply H (r', u) = (r, t)" by (simp add: open_file_def)
  note rep = reply_adds [OF this]
  from False q u show ?thesis
  proof (cases rule: open_file_impl_cases)
    case (3 results writable)
    have "adds (shares_with writable) s t"
      by (rule adds_trans [OF s adds_trans [OF replace_uris_adds [OF 3(3)] rep]]) (simp_all add: shares_with_def)
    with 3(1,2) q show ?thesis by blast
  qed (use s [of no_share] rep [of no_share] in \<open>auto simp: no_share_def intro: adds_trans\<close>)
qed

lemma save_file_adds:
  assumes "save_file H Z self a s = (r, t)"
  shows "adds no_share s t \<or> (\<exists>results w. h_save_file H a (hworld s) = (Ok (0, results), w) \<and> adds (shares_with True) s t)"
proof (cases "file_chooser_PROXY s = None")
  case True
  with assms show ?thesis by (simp add: save_file_unset)
next
  case False
  obtain q w where q: "h_save_file H a (hworld s) = (q, w)" by force
  obtain r' u where u: "save_file_impl H Z self a s = (r', u)" by force
  let ?u = "s\<lparr>hworld := w, hlog := hlog s @ [HvSaveFile]\<rparr>"
  have s: "adds P s ?u" if "P HvSaveFile" for P using that by (simp add: adds_def same_cells_def)
  from assms u have "reply H (r', u) = (r, t)" by (simp add: save_file_def)
  note rep = reply_adds [OF this]
  from False q u show ?thesis
  proof (cases rule: save_file_impl_cases)
    case (2 results)
    have "adds (shares_with True) s t"
      by (rule adds_trans [OF s adds_trans [OF replace_uris_adds [OF 2(2)] rep]]) (simp_all add: shares_with_def)
    with 2(1) q show ?thesis by blast
  qed (use s [of no_share] rep [of no_share] in \<open>auto simp: no_share_def intro: adds_trans\<close>)
qed

text \<open>Reading the log: no registration, or all of them with the same permissions.\<close>

lemma adds_no_share: "adds no_share s t \<Longrightarrow> hlog t = hlog s @ evs \<Longrightarrow> HvAddNamedFull fd b f ap ps q \<notin> set evs"
  by (auto simp: adds_def list_all_iff no_share_def split: hevent.splits)

lemma adds_shares_with:
  assumes "adds (shares_with w) s t" "hlog t = hlog s @ evs" "HvAddNamedFull fd b f ap ps q \<in> set evs"
  shows "''write'' \<in> set ps \<longleftrightarrow> w"
proof -
  have "shares_with w (HvAddNamedFull fd b f ap ps q)" using assms by (auto simp: adds_def list_all_iff)
  then show ?thesis by (simp add: shares_with_def)
qed

lemma chooser_cells: "open_file H Z self a s = (r, t) \<Longrightarrow> same_cells s t"
  "save_file H Z self a s = (r, t) \<Longrightarrow> same_cells s t"
  using open_file_adds [of H Z self a s r t] save_file_adds [of H Z self a s r t] by (auto simp: adds_def)

lemma open_file_replies:
  assumes "urls_total Z" "is_absolute (guest_share_root self)" "documents_PROXY s \<noteq> None"
    "file_chooser_PROXY s \<noteq> None" "backend_names_files H Z"
  shows "\<exists>n results t. open_file H Z self a s = (Ret (n, results), t) \<and> n \<in> {0, 1, 2} \<and>
    (n = 1 \<longleftrightarrow> (\<exists>results. fst (h_open_file H a (hworld s)) = Ok (1, results))) \<and> (n = 0 \<or> results = Map.empty)"
proof -
  obtain q w where q: "h_open_file H a (hworld s) = (q, w)" by force
  obtain r u where u: "open_file_impl H Z self a s = (r, u)" by force
  let ?u = "s\<lparr>hworld := w, hlog := hlog s @ [HvOpenFile]\<rparr>"
  from assms(4) q u show ?thesis
  proof (cases rule: open_file_impl_cases)
    case (3 results writable)
    have "results_name_files Z results" using assms(5) q 3(1) by (auto simp: backend_names_files_def)
    then obtain r' t where "replace_uris H Z self writable results ?u = (Ret r', t)" "r' \<noteq> Ok None"
      using replace_uris_total [OF assms(1,2), of ?u results H writable] assms(3) by auto
    then have "r = Ret r'" "r' \<noteq> Ok None" using 3(3) by simp_all
    with 3(1) q u show ?thesis
      by (auto simp: open_file_def reply_def response_defs split: result.splits option.splits)
  qed (use q u in \<open>simp_all add: open_file_def reply_def response_defs\<close>)
qed

lemma save_file_replies:
  assumes "urls_total Z" "is_absolute (guest_share_root self)" "documents_PROXY s \<noteq> None"
    "file_chooser_PROXY s \<noteq> None" "backend_names_files H Z"
  shows "\<exists>n results t. save_file H Z self a s = (Ret (n, results), t) \<and> n \<in> {0, 1, 2} \<and>
    (n = 1 \<longleftrightarrow> (\<exists>results. fst (h_save_file H a (hworld s)) = Ok (1, results))) \<and> (n = 0 \<or> results = Map.empty)"
proof -
  obtain q w where q: "h_save_file H a (hworld s) = (q, w)" by force
  obtain r u where u: "save_file_impl H Z self a s = (r, u)" by force
  let ?u = "s\<lparr>hworld := w, hlog := hlog s @ [HvSaveFile]\<rparr>"
  from assms(4) q u show ?thesis
  proof (cases rule: save_file_impl_cases)
    case (2 results)
    have "results_name_files Z results" using assms(5) q 2(1) by (auto simp: backend_names_files_def)
    then obtain r' t where "replace_uris H Z self True results ?u = (Ret r', t)" "r' \<noteq> Ok None"
      using replace_uris_total [OF assms(1,2), of ?u results H True] assms(3) by auto
    then have "r = Ret r'" "r' \<noteq> Ok None" using 2(2) by simp_all
    with 2(1) q u show ?thesis
      by (auto simp: save_file_def reply_def response_defs split: result.splits option.splits)
  qed (use q u in \<open>simp_all add: save_file_def reply_def response_defs\<close>)
qed

section \<open>Properties\<close>

text \<open>A file chooser that always answers with one file, and the values of the examples.\<close>

definition xzv :: "xv zv" where
  "xzv = \<lparr>zv_array = \<lambda>v. (case v of XArray xs \<Rightarrow> Some xs | _ \<Rightarrow> None),
     zv_strings = (\<lambda>xs. those (map (\<lambda>v. case v of XString b \<Rightarrow> Some b | _ \<Rightarrow> None) xs)),
     zv_bool = \<lambda>v. (case v of XBool b \<Rightarrow> Some b | _ \<Rightarrow> None), zv_of_bool = XBool,
     zv_of_strings = (\<lambda>bs. XArray (map XString bs)), percent_decode = (\<lambda>b. b),
     url_from_file_path = \<lambda>p. (if is_absolute p then Some (''file://'' @ p) else None)\<rparr>"

lemma xzv_simps:
  "zv_array xzv (XArray xs) = Some xs" "zv_strings xzv [XString b] = Some [b]"
  "zv_bool xzv (XBool c) = Some c" "zv_of_bool xzv = XBool" "zv_of_strings xzv bs = XArray (map XString bs)"
  "percent_decode xzv b = b" "url_from_file_path xzv p = (if is_absolute p then Some (''file://'' @ p) else None)"
  by (simp_all add: xzv_def)

definition picked :: "xv results" where
  "picked = [''uris'' \<mapsto> XArray [XString ''file:///home/u/a.txt'']]"

definition pick_host :: "(bytes, xv) host" where
  "pick_host = line_host\<lparr>h_open_file := \<lambda>_ w. (Ok (0, picked), w)\<rparr>"

definition args0 :: "xv chooser_args" where
  "args0 = \<lparr>arg_handle = ''/h'', arg_app_id = ''app'', arg_parent_window = [], arg_title = ''Open'', arg_options = Map.empty\<rparr>"

definition chooser0 :: file_chooser where
  "chooser0 = file_chooser_new ''/mnt''"

lemma pick_host_simps:
  "h_open_file pick_host a w = (Ok (0, picked), w)" "h_save_file pick_host a w = (Err (ZbusOther 0), w)"
  "h_exists pick_host p w" "h_is_file pick_host p w"
  "h_open_path pick_host p w = (Ok 9, w)" "h_add_named_full pick_host fd b f ap ps w = (Ok ''a1b2'', w)"
  by (simp_all add: pick_host_def line_host_def Let_def)

lemma picked_file: "parent ''/home/u/a.txt'' = Some ''/home/u''" "file_name ''/home/u/a.txt'' = Some ''a.txt''"
  "strip_prefix ''file://'' ''file:///home/u/a.txt'' = Some ''/home/u/a.txt''"
  "picked ''uris'' = Some (XArray [XString ''file:///home/u/a.txt''])" "picked ''writable'' = None"
  by (simp_all add: path_eval strip_prefix_def picked_def)

lemma pick_run:
  "\<exists>t. open_file pick_host xzv chooser0 args0 (hs0 []) = (Ret (0, picked(''uris'' \<mapsto> XArray [XString ''file:///mnt/doc/a1b2/a.txt''])), t)"
proof -
  have j: "join ''/mnt'' (join (join ''doc'' ''a1b2'') ''a.txt'') = ''/mnt/doc/a1b2/a.txt''"
    by (simp add: join_def is_absolute_def has_root_def)
  have s: "\<exists>t. share_file pick_host ''/home/u/a.txt'' False s = (Ret (Ok (join (join ''doc'' ''a1b2'') ''a.txt'')), t)"
    if "documents_PROXY s = Some ()" for s
    using that by (simp add: share_file_def pick_host_simps picked_file Let_def hask_def once_get_def)
  have e: "\<exists>t. transform_each pick_host xzv chooser0 False [''file:///home/u/a.txt''] s = (Ret (Ok [''file:///mnt/doc/a1b2/a.txt'']), t)"
    if "documents_PROXY s = Some ()" for s
    using s [OF that] j
    by (auto simp: transform_uri_def picked_file xzv_simps Let_def chooser0_def file_chooser_new_def is_absolute_def has_root_def)
  let ?u = "hs0 []\<lparr>hworld := [], hlog := [HvOpenFile]\<rparr>"
  have "documents_PROXY ?u = Some ()" by (simp add: hs0_def)
  from e [OF this] obtain t where "transform_each pick_host xzv chooser0 False [''file:///home/u/a.txt''] ?u =
    (Ret (Ok [''file:///mnt/doc/a1b2/a.txt'']), t)" by blast
  then show ?thesis
    by (simp add: open_file_def open_file_impl_def once_get_def hs0_def hask_def pick_host_simps response_defs
        picked_file xzv_simps replace_uris_def transform_uris_def reply_def)
qed

lemma pick_hyps: "urls_total xzv" "is_absolute (guest_share_root chooser0)" "documents_PROXY (hs0 w) \<noteq> None"
  "file_chooser_PROXY (hs0 w) \<noteq> None" "backend_names_files pick_host xzv"
proof -
  have "names_file xzv ''file:///home/u/a.txt''" by (simp add: names_file_def picked_file xzv_simps)
  then have "results_name_files xzv picked" by (simp add: results_name_files_def picked_file xzv_simps)
  then show "backend_names_files pick_host xzv" by (simp add: backend_names_files_def pick_host_simps)
qed (simp_all add: urls_total_def xzv_simps chooser0_def file_chooser_new_def is_absolute_def has_root_def hs0_def)

text \<open>
  C8. What the guest gets when a file is opened: a reply with the code of success comes from an answer of the host's
  file chooser with that code. It carries the same results, except that each URI of \<open>uris\<close> is replaced, in order, by
  the URI of the document below the guest's share root, and each such file, and no other, was registered with the document
  portal under its own name with the permissions the backend gave.
\<close>

theorem open_file_success:
  assumes "open_file H Z self a s = (Ret (0, results'), t)"
  shows "\<exists>results w writable evs. h_open_file H a (hworld s) = (Ok (0, results), w) \<and>
    backend_writable Z results = Some writable \<and> hlog t = hlog s @ HvOpenFile # evs \<and>
    guest_results Z (guest_share_root self) writable results results' evs"
proof -
  have p: "file_chooser_PROXY s \<noteq> None"
    using assms open_file_unset [of s H Z self a] by (metis outcome.distinct(1) prod.inject)
  obtain q w where q: "h_open_file H a (hworld s) = (q, w)" by force
  obtain r u where u: "open_file_impl H Z self a s = (r, u)" by force
  with assms have "reply H (r, u) = (Ret (0, results'), t)" by (simp add: open_file_def)
  then have r: "r = Ret (Ok (Some results'))" "t = u" by (auto elim: reply_cases)
  from p q u show ?thesis
  proof (cases rule: open_file_impl_cases)
    case (3 results writable)
    from replace_uris_guest [OF 3(3) [unfolded r]] 3(1,2) q r(2) show ?thesis by auto
  qed (use r in simp_all)
qed

theorem open_file_success_witness:
  "\<exists>t evs. open_file pick_host xzv chooser0 args0 (hs0 []) =
       (Ret (0, picked(''uris'' \<mapsto> XArray [XString ''file:///mnt/doc/a1b2/a.txt''])), t) \<and> hlog t = HvOpenFile # evs"
proof -
  from pick_run obtain t where t: "open_file pick_host xzv chooser0 args0 (hs0 []) =
    (Ret (0, picked(''uris'' \<mapsto> XArray [XString ''file:///mnt/doc/a1b2/a.txt''])), t)" by blast
  from open_file_success [OF t] obtain evs where "hlog t = HvOpenFile # evs" by (auto simp: hs0_def)
  with t show ?thesis by blast
qed



text \<open>
  C25. Every request is answered: with both proxies in place, a share root that is absolute and a backend that
  returns URIs of files, neither method panics. The code is one of the three of the portal, it is that of cancellation
  exactly if the user cancelled, and a reply without success carries no results.
\<close>

theorem chooser_replies:
  assumes "urls_total Z" "is_absolute (guest_share_root self)" "documents_PROXY s \<noteq> None"
    "file_chooser_PROXY s \<noteq> None" "backend_names_files H Z"
  shows "(\<exists>n results t. open_file H Z self a s = (Ret (n, results), t) \<and> n \<in> {0, 1, 2} \<and>
      (n = 1 \<longleftrightarrow> (\<exists>results. fst (h_open_file H a (hworld s)) = Ok (1, results))) \<and> (n = 0 \<or> results = Map.empty)) \<and>
    (\<exists>n results t. save_file H Z self a s = (Ret (n, results), t) \<and> n \<in> {0, 1, 2} \<and>
      (n = 1 \<longleftrightarrow> (\<exists>results. fst (h_save_file H a (hworld s)) = Ok (1, results))) \<and> (n = 0 \<or> results = Map.empty))"
  using open_file_replies [OF assms, of a] save_file_replies [OF assms, of a] by blast

theorem chooser_replies_witness:
  "urls_total xzv \<and> backend_names_files pick_host xzv \<and>
   (\<exists>n results t. save_file pick_host xzv chooser0 args0 (hs0 []) = (Ret (n, results), t) \<and> n \<in> {0, 1, 2})"
  using chooser_replies [OF pick_hyps, of args0 "[]"] pick_hyps(1,5) by blast

end
