(* ===== verification/PortalHost.thy ===== *)
theory PortalHost
  imports Wire FileChooser
begin

text \<open>
  The main program of \<open>tools/xdg-desktop-portal-spectrum-host/src/main.rs\<close>: setting up the
  connection to a guest, and the process as a state machine.

  The executor interleaves the accept loop, one task per connection, and the handlers of the
  requests of the guests. A state \<open>portal\<close> holds the state of the process, the flag \<open>initialized\<close> of the loop and the
  tasks. A step is one iteration of the accept loop, the set-up of one connection, one message or one request of a guest,
  or a change of the world by somebody else. A step contains several awaited calls. What other tasks do to the world
  between them is part of the arbitrary functions of \<open>host\<close>; the cells, which are all else the tasks share, are
  written by the accept loop only.
\<close>

section \<open>Setting up a connection\<close>

text \<open>The \<open>async\<close> block of \<open>run_guest_connection\<close>. The socket is given away to the connection to the bus.\<close>

definition serve_guest :: "('w, 'v) host \<Rightarrow> u32 \<Rightarrow> path \<Rightarrow> 'w hs \<Rightarrow> (dbus, portal_error) result outcome \<times> 'w hs" where
  "serve_guest H port share_root s =
     (if is_relative share_root then (Ret (Err (NonAbsoluteShareRoot share_root)), s)
      else
        (case connect_to_guest H port s of (r, s) \<Rightarrow>
          (case r of
             Panic \<Rightarrow> (Panic, s) | Exit n \<Rightarrow> (Exit n, s) | Diverge \<Rightarrow> (Diverge, s)
           | Ret (Err e) \<Rightarrow> (Ret (Err e), s)
           | Ret (Ok vsock) \<Rightarrow>
               (let imp = file_chooser_new share_root; root = guest_share_root imp in
                case hask (h_serve H vsock root) (HvServe vsock root) s of
                  (Err e, s) \<Rightarrow> (Ret (Err (SettingUpGuestBus e)), s)
                | (Ok guest_dbus_conn, s) \<Rightarrow> (Ret (Ok guest_dbus_conn), s)))))"

text \<open>After the block: tell the guest, close its connection, and report.\<close>

definition finish_setup ::
    "('w, 'v) host \<Rightarrow> conn \<Rightarrow> path \<Rightarrow> (dbus, portal_error) result outcome \<times> 'w hs \<Rightarrow>
     (dbus \<times> path, portal_error) result outcome \<times> 'w hs" where
  "finish_setup H conn root rs =
     (case rs of (r, s) \<Rightarrow>
       (case r of
          Panic \<Rightarrow> (Panic, s) | Exit n \<Rightarrow> (Exit n, s) | Diverge \<Rightarrow> (Diverge, s)
        | Ret res \<Rightarrow>
            (case write_all_to H conn [if is_err res then CHR 0x01 else NUL] s of
               (Err e, s) \<Rightarrow>
                 (case res of
                    Err e' \<Rightarrow> (Ret (Err e'), drop_conn H conn (msg H (SendingSetupResponse e) s))
                  | Ok _ \<Rightarrow> (Ret (Err (SendingSetupResponse e)), drop_conn H conn s))
             | (Ok _, s) \<Rightarrow>
                 (let s = drop_conn H conn s in
                  case res of
                    Err e' \<Rightarrow> (Ret (Err e'), s)
                  | Ok guest_dbus_conn \<Rightarrow> (Ret (Ok (guest_dbus_conn, root)), msg H CreatedOnGuestBus s)))))"

text \<open>\<open>run_guest_connection\<close> up to its loop. An early return drops the connection.\<close>

definition setup_guest_connection ::
    "('w, 'v) host \<Rightarrow> conn \<Rightarrow> 'w hs \<Rightarrow> (dbus \<times> path, portal_error) result outcome \<times> 'w hs" where
  "setup_guest_connection H conn s =
     (case negotiate_version H conn s of
        (Err e, s) \<Rightarrow> (Ret (Err e), drop_conn H conn s)
      | (Ok _, s) \<Rightarrow>
         (case receive_u32 H conn s of
            (Err e, s) \<Rightarrow> (Ret (Err (ReceivingPort e)), drop_conn H conn s)
          | (Ok port, s) \<Rightarrow>
             (case receive_bytestring H conn s of
                (Err e, s) \<Rightarrow> (Ret (Err (ReceivingShareRoot e)), drop_conn H conn s)
              | (Ok share_root, s) \<Rightarrow>
                  finish_setup H conn share_root (serve_guest H port share_root s))))"

text \<open>One iteration of the loop of \<open>run_guest_connection\<close>: none if it goes on.\<close>

definition message_step :: "('w, 'v) host \<Rightarrow> dbus \<Rightarrow> 'w hs \<Rightarrow> (unit, portal_error) result option \<times> 'w hs" where
  "message_step H guest_dbus_conn s =
     (case hask (h_next_message H guest_dbus_conn) (HvNextMessage guest_dbus_conn) s of
        (Ok _, s) \<Rightarrow> (None, s)
      | (Err e, s) \<Rightarrow>
          (case e of
             InputOutput io \<Rightarrow>
               if err_kind io = BrokenPipe then (Some (Ok ()), s) else (Some (Err (CommunicatingGuestBus e)), s)
           | _ \<Rightarrow> (Some (Err (CommunicatingGuestBus e)), s)))"

section \<open>The process\<close>

definition read_argv :: "('w, 'v) host \<Rightarrow> 'w hs \<Rightarrow> unit outcome \<times> 'w hs" where
  "read_argv H s = (if 1 < length (h_args H) then (Exit 1, msg H TooManyArguments s) else (Ret (), s))"

text \<open>\<open>run\<close> up to its loop.\<close>

definition listen :: "('w, 'v) host \<Rightarrow> 'w hs \<Rightarrow> (unit, portal_error) result outcome \<times> 'w hs" where
  "listen H s =
     (case hask (h_async_new H) HvAsyncNew s of
        (Err e, s) \<Rightarrow> (Ret (Err (ListeningOnStdin e)), s)
      | (Ok _, s) \<Rightarrow>
         (case listening_vsock_path H s of (r, s) \<Rightarrow>
           (case r of
              Panic \<Rightarrow> (Panic, s) | Exit n \<Rightarrow> (Exit n, s) | Diverge \<Rightarrow> (Diverge, s)
            | Ret (Err e) \<Rightarrow> (Ret (Err e), s)
            | Ret (Ok path) \<Rightarrow>
                (case once_set path (vsock_unix_path s) of
                   (Err _, _) \<Rightarrow> (Panic, s)
                 | (Ok _, c) \<Rightarrow> (Ret (Ok ()), s\<lparr>vsock_unix_path := c\<rparr>)))))"

text \<open>
  One iteration of the accept loop: the connection a task is to be spawned for, if any, and the flag \<open>initialized\<close>.
\<close>

definition accept_step ::
    "('w, 'v) host \<Rightarrow> bool \<Rightarrow> 'w hs \<Rightarrow> (conn option, portal_error) result outcome \<times> bool \<times> 'w hs" where
  "accept_step H initialized s =
     (case hask (h_accept H) HvAccept s of
        (Err e, s) \<Rightarrow> (Ret (Ok None), initialized, msg H (AcceptingConnection e) s)
      | (Ok conn, s) \<Rightarrow>
          if initialized then (Ret (Ok (Some conn)), True, s)
          else
            (case hask (h_session H) HvSession s of
               (Err e, s) \<Rightarrow> (Ret (Err (ConnectingSessionBus e)), False, drop_conn H conn s)
             | (Ok _, s) \<Rightarrow>
                (case documents_init H s of (r, s) \<Rightarrow>
                  (case r of
                     Panic \<Rightarrow> (Panic, False, s) | Exit n \<Rightarrow> (Exit n, False, s) | Diverge \<Rightarrow> (Diverge, False, s)
                   | Ret _ \<Rightarrow>
                      (case file_chooser_init H s of (r, s) \<Rightarrow>
                        (case r of
                           Panic \<Rightarrow> (Panic, False, s) | Exit n \<Rightarrow> (Exit n, False, s) | Diverge \<Rightarrow> (Diverge, False, s)
                         | Ret _ \<Rightarrow> (Ret (Ok (Some conn)), True, s)))))))"

text \<open>
  A task sets up its connection and then serves the guest: the connection to its bus, and the chooser
  registered there. \<open>p_end\<close> is how the process ended; the panic of any task is such an end.
\<close>

datatype task = Setup conn | Serving dbus path

record 'w portal =
  p_state :: "'w hs"
  p_initialized :: bool
  p_tasks :: "task list"
  p_end :: "unit outcome option"

definition remove_task :: "nat \<Rightarrow> task list \<Rightarrow> task list" where
  "remove_task i ts = take i ts @ drop (Suc i) ts"

text \<open>The end of \<open>main\<close> when \<open>run\<close> returns an error.\<close>

definition main_error :: "('w, 'v) host \<Rightarrow> portal_error \<Rightarrow> 'w hs \<Rightarrow> unit outcome option \<times> 'w hs" where
  "main_error H e s = (Some (Exit 1), msg H e s)"

definition start_portal :: "('w, 'v) host \<Rightarrow> 'w \<Rightarrow> 'w portal" where
  "start_portal H w =
     (let mk = \<lambda>(e, s). \<lparr>p_state = s, p_initialized = False, p_tasks = [], p_end = e\<rparr> in
      case read_argv H \<lparr>hworld = w, hlog = [], vsock_unix_path = None, documents_PROXY = None, file_chooser_PROXY = None\<rparr> of
        (r, s) \<Rightarrow>
          (case r of
             Panic \<Rightarrow> mk (Some Panic, s) | Exit n \<Rightarrow> mk (Some (Exit n), s) | Diverge \<Rightarrow> mk (Some Diverge, s)
           | Ret _ \<Rightarrow>
               (case listen H s of (r, s) \<Rightarrow>
                 (case r of
                    Panic \<Rightarrow> mk (Some Panic, s) | Exit n \<Rightarrow> mk (Some (Exit n), s) | Diverge \<Rightarrow> mk (Some Diverge, s)
                  | Ret (Err e) \<Rightarrow> mk (main_error H e s)
                  | Ret (Ok _) \<Rightarrow> mk (None, s)))))"

definition accept_portal :: "('w, 'v) host \<Rightarrow> 'w portal \<Rightarrow> 'w portal" where
  "accept_portal H p =
     (case accept_step H (p_initialized p) (p_state p) of (r, i, s) \<Rightarrow>
       (case r of
          Panic \<Rightarrow> p\<lparr>p_state := s, p_end := Some Panic\<rparr>
        | Exit n \<Rightarrow> p\<lparr>p_state := s, p_end := Some (Exit n)\<rparr>
        | Diverge \<Rightarrow> p\<lparr>p_state := s, p_end := Some Diverge\<rparr>
        | Ret (Err e) \<Rightarrow> (case main_error H e s of (x, s) \<Rightarrow> p\<lparr>p_state := s, p_end := x\<rparr>)
        | Ret (Ok None) \<Rightarrow> p\<lparr>p_state := s, p_initialized := i\<rparr>
        | Ret (Ok (Some conn)) \<Rightarrow> p\<lparr>p_state := s, p_initialized := i, p_tasks := p_tasks p @ [Setup conn]\<rparr>))"

text \<open>The task of a connection returns: an error is printed.\<close>

definition end_task :: "('w, 'v) host \<Rightarrow> nat \<Rightarrow> (unit, portal_error) result \<Rightarrow> 'w hs \<Rightarrow> 'w portal \<Rightarrow> 'w portal" where
  "end_task H i r s p =
     p\<lparr>p_state := (case r of Err e \<Rightarrow> msg H (GuestConnectionError e) s | Ok _ \<Rightarrow> s), p_tasks := remove_task i (p_tasks p)\<rparr>"

definition setup_portal :: "('w, 'v) host \<Rightarrow> nat \<Rightarrow> conn \<Rightarrow> 'w portal \<Rightarrow> 'w portal" where
  "setup_portal H i conn p =
     (case setup_guest_connection H conn (p_state p) of (r, s) \<Rightarrow>
       (case r of
          Panic \<Rightarrow> p\<lparr>p_state := s, p_end := Some Panic\<rparr>
        | Exit n \<Rightarrow> p\<lparr>p_state := s, p_end := Some (Exit n)\<rparr>
        | Diverge \<Rightarrow> p\<lparr>p_state := s, p_end := Some Diverge\<rparr>
        | Ret (Err e) \<Rightarrow> end_task H i (Err e) s p
        | Ret (Ok (d, root)) \<Rightarrow> p\<lparr>p_state := s, p_tasks := (p_tasks p)[i := Serving d root]\<rparr>))"

definition message_portal :: "('w, 'v) host \<Rightarrow> nat \<Rightarrow> dbus \<Rightarrow> 'w portal \<Rightarrow> 'w portal" where
  "message_portal H i d p =
     (case message_step H d (p_state p) of
        (None, s) \<Rightarrow> p\<lparr>p_state := s\<rparr>
      | (Some r, s) \<Rightarrow> end_task H i r s p)"

text \<open>A request of a guest, on the file chooser registered for it.\<close>

definition request_portal ::
    "(file_chooser \<Rightarrow> 'v chooser_args \<Rightarrow> 'w hs \<Rightarrow> (u32 \<times> 'v results) outcome \<times> 'w hs) \<Rightarrow>
     path \<Rightarrow> 'v chooser_args \<Rightarrow> 'w portal \<Rightarrow> 'w portal" where
  "request_portal method root a p =
     (case method (file_chooser_new root) a (p_state p) of (r, s) \<Rightarrow>
       (case r of
          Panic \<Rightarrow> p\<lparr>p_state := s, p_end := Some Panic\<rparr>
        | Exit n \<Rightarrow> p\<lparr>p_state := s, p_end := Some (Exit n)\<rparr>
        | Diverge \<Rightarrow> p\<lparr>p_state := s, p_end := Some Diverge\<rparr>
        | Ret _ \<Rightarrow> p\<lparr>p_state := s\<rparr>))"

inductive portal_step :: "('w, 'v) host \<Rightarrow> 'v zv \<Rightarrow> 'w portal \<Rightarrow> 'w portal \<Rightarrow> bool" for H Z where
  accepts: "p_end p = None \<Longrightarrow> portal_step H Z p (accept_portal H p)"
| sets_up: "p_end p = None \<Longrightarrow> i < length (p_tasks p) \<Longrightarrow> p_tasks p ! i = Setup conn \<Longrightarrow>
    portal_step H Z p (setup_portal H i conn p)"
| receives: "p_end p = None \<Longrightarrow> i < length (p_tasks p) \<Longrightarrow> p_tasks p ! i = Serving d root \<Longrightarrow>
    portal_step H Z p (message_portal H i d p)"
| open_request: "p_end p = None \<Longrightarrow> Serving d root \<in> set (p_tasks p) \<Longrightarrow>
    portal_step H Z p (request_portal (open_file H Z) root a p)"
| save_request: "p_end p = None \<Longrightarrow> Serving d root \<in> set (p_tasks p) \<Longrightarrow>
    portal_step H Z p (request_portal (save_file H Z) root a p)"
| others: "p_end p = None \<Longrightarrow> portal_step H Z p (p\<lparr>p_state := (p_state p)\<lparr>hworld := w\<rparr>\<rparr>)"

inductive reachable :: "('w, 'v) host \<Rightarrow> 'v zv \<Rightarrow> 'w \<Rightarrow> 'w portal \<Rightarrow> bool" for H Z w where
  start: "reachable H Z w (start_portal H w)"
| step: "reachable H Z w p \<Longrightarrow> portal_step H Z p q \<Longrightarrow> reachable H Z w q"

inductive_cases portal_stepE: "portal_step H Z p q"

section \<open>Setting up a connection: lemmas\<close>

lemmas portal_splits = option.splits result.splits outcome.splits prod.splits if_splits

text \<open>Choosers are served with absolute roots only.\<close>

definition served_absolute :: "hevent \<Rightarrow> bool" where
  "served_absolute e \<longleftrightarrow> (case e of HvServe _ root _ \<Rightarrow> is_absolute root | _ \<Rightarrow> True)"

lemma talks_served: "talks W e \<Longrightarrow> served_absolute e"
  by (auto simp: talks_def served_absolute_def split: hevent.splits)

lemma serve_guest_cases:
  assumes "serve_guest H port root s = (r, t)"
  obtains "is_relative root" "r = Ret (Err (NonAbsoluteShareRoot root))" "t = s"
    | r' where "is_absolute root" "connect_to_guest H port s = (r', t)" "\<And>d. r \<noteq> Ret (Ok d)"
        "r = Panic \<longleftrightarrow> r' = Panic"
    | v u q where "is_absolute root" "connect_to_guest H port s = (Ret (Ok v), u)"
        "hask (h_serve H v root) (HvServe v root) u = (q, t)"
        "r = Ret (case q of Ok d \<Rightarrow> Ok d | Err e \<Rightarrow> Err (SettingUpGuestBus e))"
proof (cases "is_relative root")
  case True
  with assms that(1) show thesis by (simp add: serve_guest_def)
next
  case False
  obtain r' u where u: "connect_to_guest H port s = (r', u)" by force
  show thesis
  proof (cases "\<exists>v. r' = Ret (Ok v)")
    case True
    then obtain v where v: "r' = Ret (Ok v)" by blast
    obtain q x where x: "hask (h_serve H v root) (HvServe v root) u = (q, x)" by force
    with assms False u v have "t = x" "r = Ret (case q of Ok d \<Rightarrow> Ok d | Err e \<Rightarrow> Err (SettingUpGuestBus e))"
      by (cases q; simp add: serve_guest_def file_chooser_new_def Let_def)+
    with False u v x that(3) show thesis by (simp add: is_relative_def)
  next
    case no: False
    with assms False u have "t = u \<and> (\<forall>d. r \<noteq> Ret (Ok d)) \<and> (r = Panic \<longleftrightarrow> r' = Panic)"
      by (auto simp: serve_guest_def split: outcome.splits result.splits)
    with False u that(2) show thesis by (simp add: is_relative_def)
  qed
qed

text \<open>The events before the status: the status of success is not among them.\<close>

definition before_status :: "hevent \<Rightarrow> bool" where
  "before_status e \<longleftrightarrow> (case e of HvServe _ root _ \<Rightarrow> is_absolute root | _ \<Rightarrow> talks (\<lambda>b. b \<noteq> [NUL]) e)"

lemma talks_before: "talks (\<lambda>b. b \<noteq> [NUL]) e \<Longrightarrow> before_status e"
  by (auto simp: talks_def before_status_def split: hevent.splits)

lemma before_served: "before_status e \<Longrightarrow> served_absolute e"
  by (auto simp: before_status_def served_absolute_def split: hevent.splits)

lemma before_not_status: "list_all before_status evs \<Longrightarrow> HvWriteAll c [NUL] x \<notin> set evs"
  by (auto simp: list_all_iff before_status_def)

lemma connect_before: "connect_to_guest H port s = (r, t) \<Longrightarrow> adds before_status s t"
  by (rule adds_mono [OF connect_to_guest_adds [OF _ connect_writes] talks_before])

lemma serve_guest_adds:
  assumes "serve_guest H port root s = (r, t)"
  shows "adds before_status s t"
    and "r = Ret (Ok d) \<Longrightarrow> is_absolute root \<and> (\<exists>v evs. hlog t = hlog s @ evs @ [HvServe v root (Ok d)] \<and> list_all before_status evs)"
proof -
  from assms show "adds before_status s t"
  proof (cases rule: serve_guest_cases)
    case (2 r')
    then show ?thesis by (blast intro: connect_before)
  next
    case (3 v u q)
    have "adds before_status u t" by (rule hask_adds [OF 3(3)]) (use 3(1) in \<open>simp add: before_status_def\<close>)
    with connect_before [OF 3(2)] show ?thesis by (rule adds_trans)
  qed simp
  show "is_absolute root \<and> (\<exists>v evs. hlog t = hlog s @ evs @ [HvServe v root (Ok d)] \<and> list_all before_status evs)"
    if "r = Ret (Ok d)"
    using assms
  proof (cases rule: serve_guest_cases)
    case (3 v u q)
    then have "q = Ok d" using that by (cases q) auto
    with hask_log [OF 3(3)] connect_before [OF 3(2)] 3(1) show ?thesis by (auto simp: adds_def)
  qed (use that in \<open>simp, blast\<close>)
qed

text \<open>The part of the set-up that receives the port and the share root.\<close>

lemma setup_cases:
  assumes "setup_guest_connection H conn s = (r, t)"
  obtains e u where "adds (talks (\<lambda>b. b \<noteq> [NUL])) s u" "r = Ret (Err e)" "t = drop_conn H conn u"
    | port root u where "adds (talks (\<lambda>b. b \<noteq> [NUL])) s u" "finish_setup H conn root (serve_guest H port root u) = (r, t)"
proof -
  let ?P = "talks (\<lambda>b. b \<noteq> [NUL])"
  obtain q1 s1 where 1: "negotiate_version H conn s = (q1, s1)" by force
  have a1: "adds ?P s s1" by (rule negotiate_version_adds [OF 1]) simp
  obtain q2 s2 where 2: "receive_u32 H conn s1 = (q2, s2)" by force
  note a2 = adds_trans [OF a1 receive_u32_adds [OF 2]]
  obtain q3 s3 where 3: "receive_bytestring H conn s2 = (q3, s3)" by force
  note a3 = adds_trans [OF a2 receive_bytestring_adds [OF 3]]
  show thesis
  proof (cases "is_err q1 \<or> is_err q2 \<or> is_err q3")
    case True
    with assms 1 2 3 obtain e u where "r = Ret (Err e)" "t = drop_conn H conn u" "u \<in> {s1, s2, s3}"
      by (cases q1; cases q2; cases q3) (auto simp: setup_guest_connection_def)
    with a1 a2 a3 that(1) show thesis by blast
  next
    case False
    then obtain port root where "q2 = Ok port" "q3 = Ok root" "q1 = Ok ()"
      by (cases q1; cases q2; cases q3) auto
    with assms 1 2 3 have "finish_setup H conn root (serve_guest H port root s3) = (r, t)"
      by (simp add: setup_guest_connection_def)
    with a3 that(2) show thesis by blast
  qed
qed

text \<open>The end of the set-up: the status, the messages and the drop.\<close>

definition closing :: "conn \<Rightarrow> hevent \<Rightarrow> bool" where
  "closing conn e \<longleftrightarrow> e = HvDrop conn \<or> (\<exists>prog m. e = HvMsg prog m)"

lemma finish_setup_cases:
  assumes "finish_setup H conn root (q, u) = (r, t)"
  obtains "q = Panic \<or> (\<exists>n. q = Exit n) \<or> q = Diverge" "\<nexists>x. r = Ret x" "t = u" "r = Panic \<longleftrightarrow> q = Panic"
    | e x post where "q = Ret (Err e)" "r = Ret (Err e)" "hlog t = hlog u @ HvWriteAll conn [CHR 0x01] x # post"
        "list_all (closing conn) post" "HvDrop conn \<in> set post" "same_cells u t"
    | d x post where "q = Ret (Ok d)" "r = Ret (case x of Ok _ \<Rightarrow> Ok (d, root) | Err e \<Rightarrow> Err (SendingSetupResponse e))"
        "hlog t = hlog u @ HvWriteAll conn [NUL] x # post" "list_all (closing conn) post" "HvDrop conn \<in> set post"
        "same_cells u t"
proof (cases q)
  case (Ret res)
  obtain x v where x: "write_all_to H conn [if is_err res then CHR 0x01 else NUL] u = (x, v)" by force
  then have v: "hlog v = hlog u @ [HvWriteAll conn [if is_err res then CHR 0x01 else NUL] x]" "same_cells u v"
    by (auto simp: write_all_to_def hask_def same_cells_def split: prod.splits)
  have m: "\<exists>prog. hlog (msg H e s) = hlog s @ [HvMsg prog e]" for e s
    by (simp add: msg_def hemit_def Let_def)
  have c: "same_cells s (msg H e s)" "same_cells s (drop_conn H conn s)" "hlog (drop_conn H conn s) = hlog s @ [HvDrop conn]" for e s
    by (simp_all add: msg_def drop_conn_def hemit_def Let_def same_cells_def)
  have post: "\<exists>post. hlog t = hlog v @ post \<and> list_all (closing conn) post \<and> HvDrop conn \<in> set post \<and> same_cells v t"
  proof -
    from assms Ret x obtain e where
      "t = drop_conn H conn v \<or> t = drop_conn H conn (msg H e v) \<or> t = msg H e (drop_conn H conn v)"
      by (cases res; cases x) (auto simp: finish_setup_def Let_def)
    moreover obtain p1 where "hlog (msg H e v) = hlog v @ [HvMsg p1 e]" using m by blast
    moreover obtain p2 where "hlog (msg H e (drop_conn H conn v)) = hlog v @ [HvDrop conn, HvMsg p2 e]"
      using m [of e "drop_conn H conn v"] c(3) [of v] by auto
    ultimately show ?thesis
      using c same_cells_trans [OF c(1) c(2)] same_cells_trans [OF c(2) c(1)] by (auto simp: closing_def)
  qed
  then obtain post where p: "hlog t = hlog v @ post" "list_all (closing conn) post" "HvDrop conn \<in> set post" "same_cells v t"
    by blast
  note s = same_cells_trans [OF v(2) p(4)]
  show thesis
  proof (cases res)
    case (Err e)
    with assms Ret x have "r = Ret (Err e)" by (cases x) (auto simp: finish_setup_def Let_def)
    with Ret Err p v s show thesis by (intro that(2)) simp_all
  next
    case (Ok d)
    with assms Ret x have "r = Ret (case x of Ok _ \<Rightarrow> Ok (d, root) | Err e \<Rightarrow> Err (SendingSetupResponse e))"
      by (cases x) (auto simp: finish_setup_def Let_def)
    with Ret Ok p v s show thesis by (intro that(3)) simp_all
  qed
qed (use assms that(1) in \<open>auto simp: finish_setup_def\<close>)

lemma closing_props: "list_all (closing conn) post \<Longrightarrow> HvWriteAll c b x \<notin> set post \<and> list_all served_absolute post"
  by (auto simp: list_all_iff closing_def served_absolute_def)

lemma adds_before: "adds (talks (\<lambda>b. b \<noteq> [NUL])) s t \<Longrightarrow> adds before_status s t"
  by (erule adds_mono) (rule talks_before)

lemma list_all_before: "list_all before_status evs \<Longrightarrow> list_all served_absolute evs"
  using before_served by (auto simp: list_all_iff)

text \<open>
  The log \<open>evs\<close> of a set-up with the outcome \<open>r\<close>: there is no status of success and no chooser, or the
  status directly follows the registration of the chooser and is the only one.
\<close>

definition setup_trace :: "conn \<Rightarrow> (dbus \<times> path, portal_error) result outcome \<Rightarrow> hevent list \<Rightarrow> bool" where
  "setup_trace conn r evs \<longleftrightarrow> list_all served_absolute evs \<and> ((\<exists>x. r = Ret x) \<longrightarrow> HvDrop conn \<in> set evs) \<and>
    ((\<forall>c x. HvWriteAll c [NUL] x \<notin> set evs) \<and> (\<nexists>y. r = Ret (Ok y)) \<or>
     (\<exists>pre v root d x post. evs = pre @ HvServe v root (Ok d) # HvWriteAll conn [NUL] x # post \<and> is_absolute root \<and>
        (\<forall>c x. HvWriteAll c [NUL] x \<notin> set (pre @ post)) \<and>
        r = Ret (case x of Ok _ \<Rightarrow> Ok (d, root) | Err e \<Rightarrow> Err (SendingSetupResponse e))))"

lemma setup_trace_none:
  assumes "list_all before_status evs" "list_all (closing conn) post" "st \<noteq> [NUL]" "\<nexists>y. r = Ret (Ok y)"
    "\<exists>x. r = Ret x \<Longrightarrow> HvDrop conn \<in> set post"
  shows "setup_trace conn r (evs @ HvWriteAll conn st x # post)"
  using closing_props [OF assms(2)] before_not_status [OF assms(1)] list_all_before [OF assms(1)] assms(3-5)
  by (simp add: setup_trace_def served_absolute_def)

lemma finish_trace:
  assumes "serve_guest H port root u = (q, w)" "finish_setup H conn root (q, w) = (r, t)"
    "hlog u = hlog s @ evs1" "list_all before_status evs1"
  shows "same_cells w t \<and> (\<exists>evs. hlog t = hlog s @ evs \<and> setup_trace conn r evs)"
proof -
  obtain evs2 where e2: "hlog w = hlog u @ evs2" "list_all before_status evs2"
    using serve_guest_adds(1) [OF assms(1)] by (auto simp: adds_def)
  then have b: "list_all before_status (evs1 @ evs2)" "hlog w = hlog s @ evs1 @ evs2" using assms(3,4) by simp_all
  from assms(2) show ?thesis
  proof (cases rule: finish_setup_cases)
    case 1
    then have "setup_trace conn r (evs1 @ evs2)"
      using list_all_before [OF b(1)] before_not_status [OF b(1)] by (auto simp: setup_trace_def)
    with 1(3) b(2) show ?thesis by auto
  next
    case (2 e x post)
    then have "setup_trace conn r ((evs1 @ evs2) @ HvWriteAll conn [CHR 0x01] x # post)"
      using b(1) by (intro setup_trace_none) auto
    with 2(3,6) b(2) show ?thesis by auto
  next
    case (3 d x post)
    from serve_guest_adds(2) [OF assms(1) 3(1)] obtain v evs where
      v: "is_absolute root" "hlog w = hlog u @ evs @ [HvServe v root (Ok d)]" "list_all before_status evs" by blast
    have b: "list_all before_status (evs1 @ evs)" using assms(4) v by simp
    note cp = closing_props [OF 3(4)]
    let ?evs = "(evs1 @ evs) @ HvServe v root (Ok d) # HvWriteAll conn [NUL] x # post"
    have "list_all served_absolute ?evs" using list_all_before [OF b] cp v(1) by (simp add: served_absolute_def)
    moreover have "\<forall>c x. HvWriteAll c [NUL] x \<notin> set ((evs1 @ evs) @ post)" using before_not_status [OF b] cp by simp
    moreover have "HvDrop conn \<in> set ?evs" using 3(5) by simp
    ultimately have "setup_trace conn r ?evs" using 3(2) v(1) unfolding setup_trace_def by blast
    moreover have "hlog t = hlog s @ ?evs" using assms(3) v(2) 3(3) by simp
    ultimately show ?thesis using 3(6) by blast
  qed
qed

lemma setup_log:
  assumes "setup_guest_connection H conn s = (r, t)"
  shows "same_cells s t \<and> (\<exists>evs. hlog t = hlog s @ evs \<and> setup_trace conn r evs)"
  using assms
proof (cases rule: setup_cases)
  case (1 e u)
  obtain evs where e: "hlog u = hlog s @ evs" "list_all before_status evs" "same_cells s u"
    using adds_before [OF 1(1)] by (auto simp: adds_def)
  then have "setup_trace conn r (evs @ [HvDrop conn])"
    using 1(2) list_all_before [OF e(2)] before_not_status [OF e(2)] by (simp add: setup_trace_def served_absolute_def)
  moreover have "hlog t = hlog s @ evs @ [HvDrop conn]" "same_cells s t"
    using 1(3) e by (simp_all add: drop_conn_def hemit_def same_cells_def)
  ultimately show ?thesis by blast
next
  case (2 port root u)
  obtain evs1 where e1: "hlog u = hlog s @ evs1" "list_all before_status evs1" "same_cells s u"
    using adds_before [OF 2(1)] by (auto simp: adds_def)
  obtain q w where w: "serve_guest H port root u = (q, w)" by force
  with 2(2) have "finish_setup H conn root (q, w) = (r, t)" by simp
  from finish_trace [OF w this e1(1,2)] serve_guest_adds(1) [OF w] e1(3) show ?thesis
    by (auto simp: adds_def intro: same_cells_trans)
qed

lemma setup_root: "setup_guest_connection H conn s = (Ret (Ok (d, root)), t) \<Longrightarrow> is_absolute root"
proof (drule setup_log, elim conjE exE)
  fix evs assume "setup_trace conn (Ret (Ok (d, root))) evs"
  then obtain root' d' x where "is_absolute root'"
    "Ret (Ok (d, root)) = Ret (case x of Ok (_ :: unit) \<Rightarrow> Ok (d', root') | Err e \<Rightarrow> Err (SendingSetupResponse e))"
    unfolding setup_trace_def by blast
  then show "is_absolute root" by (cases x) auto
qed

section \<open>The invariant of the process\<close>

text \<open>
  The invariant: the guests are served with absolute share roots; while the process runs, it knows the path of its socket,
  both proxies are in place exactly if it is initialized, and there are tasks only then.
\<close>

definition portal_inv :: "'w portal \<Rightarrow> bool" where
  "portal_inv p \<longleftrightarrow> list_all served_absolute (hlog (p_state p)) \<and>
     (\<forall>d root. Serving d root \<in> set (p_tasks p) \<longrightarrow> is_absolute root) \<and>
     (p_end p = None \<longrightarrow> vsock_unix_path (p_state p) \<noteq> None \<and>
       (documents_PROXY (p_state p) \<noteq> None \<longleftrightarrow> p_initialized p) \<and>
       (file_chooser_PROXY (p_state p) \<noteq> None \<longleftrightarrow> p_initialized p) \<and> (p_tasks p \<noteq> [] \<longrightarrow> p_initialized p))"

text \<open>A step that leaves the cells alone, serves nothing relative and adds no task.\<close>

lemma inv_step:
  assumes "portal_inv p" "p_end p = None" "adds served_absolute (p_state p) (p_state q)" "p_initialized q = p_initialized p"
    "\<And>d root. Serving d root \<in> set (p_tasks q) \<Longrightarrow> Serving d root \<in> set (p_tasks p) \<or> is_absolute root"
    "p_tasks q \<noteq> [] \<Longrightarrow> p_tasks p \<noteq> []"
  shows "portal_inv q"
proof -
  have "list_all served_absolute (hlog (p_state q))" "same_cells (p_state p) (p_state q)"
    using assms(1,3) by (auto simp: portal_inv_def adds_def)
  with assms show ?thesis unfolding portal_inv_def same_cells_def by metis
qed

lemma msg_served: "adds served_absolute s (msg H e s)"
  by (rule msg_adds) (simp add: served_absolute_def)

lemma hask_served: "hask f ev s = (r, t) \<Longrightarrow> served_absolute (ev r) \<Longrightarrow> adds served_absolute s t"
  by (rule hask_adds)

lemma set_remove_task: "set (remove_task i ts) \<subseteq> set ts"
  by (auto simp: remove_task_def dest: in_set_takeD in_set_dropD)

lemma end_task_inv:
  assumes "portal_inv p" "p_end p = None" "adds served_absolute (p_state p) s"
  shows "portal_inv (end_task H i r s p)"
proof (rule inv_step [OF assms(1,2)])
  show "adds served_absolute (p_state p) (p_state (end_task H i r s p))"
    using assms(3) adds_trans [OF assms(3) msg_served [where H = H]] by (simp add: end_task_def split: result.split)
qed (use set_remove_task [of i "p_tasks p"] in \<open>auto simp: end_task_def\<close>)

lemma setup_inv:
  assumes "portal_inv p" "p_end p = None" "i < length (p_tasks p)"
  shows "portal_inv (setup_portal H i conn p)"
proof -
  obtain r s where r: "setup_guest_connection H conn (p_state p) = (r, s)" by force
  have a: "adds served_absolute (p_state p) s"
    using setup_log [OF r] by (auto simp: adds_def setup_trace_def)
  have stop: "portal_inv (p\<lparr>p_state := s, p_end := x\<rparr>)" if "x \<noteq> None" for x
    using assms a that by (auto simp: portal_inv_def adds_def)
  show ?thesis
  proof (cases "\<exists>d root. r = Ret (Ok (d, root))")
    case True
    then obtain d root where ok: "r = Ret (Ok (d, root))" by blast
    let ?q = "p\<lparr>p_state := s, p_tasks := (p_tasks p)[i := Serving d root]\<rparr>"
    have abs: "is_absolute root" using r ok by (auto dest: setup_root)
    have "portal_inv ?q"
      using a abs set_update_subset_insert [of "p_tasks p" i "Serving d root"]
      by (intro inv_step [OF assms(1,2)]) auto
    with r ok show ?thesis by (simp add: setup_portal_def)
  next
    case False
    with r stop end_task_inv [OF assms(1,2) a] show ?thesis
      by (auto simp: setup_portal_def split: outcome.splits result.splits)
  qed
qed

lemma message_inv:
  assumes "portal_inv p" "p_end p = None"
  shows "portal_inv (message_portal H i d p)"
proof -
  obtain q s where q: "hask (h_next_message H d) (HvNextMessage d) (p_state p) = (q, s)" by force
  have a: "adds served_absolute (p_state p) s" by (rule hask_served [OF q]) (simp add: served_absolute_def)
  have "portal_inv (p\<lparr>p_state := s\<rparr>)" by (rule inv_step [OF assms]) (use a in simp_all)
  with q end_task_inv [OF assms a] show ?thesis
    by (auto simp: message_portal_def message_step_def split: result.splits zbus_error.splits)
qed

lemma request_inv:
  assumes "portal_inv p" "p_end p = None" "\<And>self r t. method self a (p_state p) = (r, t) \<Longrightarrow> adds served_absolute (p_state p) t"
  shows "portal_inv (request_portal method root a p)"
proof -
  obtain r s where r: "method (file_chooser_new root) a (p_state p) = (r, s)" by force
  note a = assms(3) [OF r]
  have "portal_inv (p\<lparr>p_state := s\<rparr>)" by (rule inv_step [OF assms(1,2)]) (use a in simp_all)
  moreover have "portal_inv (p\<lparr>p_state := s, p_end := x\<rparr>)" if "x \<noteq> None" for x
    using assms a that by (auto simp: portal_inv_def adds_def)
  ultimately show ?thesis using r by (auto simp: request_portal_def split: outcome.splits)
qed

text \<open>One iteration of the accept loop.\<close>

lemma accept_step_cases:
  assumes "accept_step H b s = (r, b', t)" "documents_PROXY s \<noteq> None \<longleftrightarrow> b" "file_chooser_PROXY s \<noteq> None \<longleftrightarrow> b"
  shows "(\<exists>evs. hlog t = hlog s @ evs \<and> list_all served_absolute evs) \<and> vsock_unix_path t = vsock_unix_path s \<and>
    (\<forall>c. r = Ret (Ok c) \<longrightarrow> (documents_PROXY t \<noteq> None \<longleftrightarrow> b') \<and> (file_chooser_PROXY t \<noteq> None \<longleftrightarrow> b') \<and>
      (b \<longrightarrow> b') \<and> (c \<noteq> None \<longrightarrow> b'))"
  using assms
  by (auto simp: accept_step_def documents_init_def file_chooser_init_def hask_def once_set_def msg_def hemit_def
      drop_conn_def Let_def served_absolute_def split: portal_splits)

lemma accept_inv:
  assumes "portal_inv p" "p_end p = None"
  shows "portal_inv (accept_portal H p)"
proof -
  obtain r b s where r: "accept_step H (p_initialized p) (p_state p) = (r, b, s)" by (metis prod_cases3)
  from assms have p: "documents_PROXY (p_state p) \<noteq> None \<longleftrightarrow> p_initialized p"
    "file_chooser_PROXY (p_state p) \<noteq> None \<longleftrightarrow> p_initialized p" by (simp_all add: portal_inv_def)
  note c = accept_step_cases [OF r p]
  show ?thesis
  proof (cases "\<exists>c. r = Ret (Ok c)")
    case True
    then obtain x where x: "r = Ret (Ok x)" by blast
    with r c assms show ?thesis
      by (cases x) (auto simp: accept_portal_def portal_inv_def)
  next
    case False
    with r c assms show ?thesis
      by (auto simp: accept_portal_def main_error_def portal_inv_def msg_def hemit_def Let_def served_absolute_def
          split: outcome.splits result.splits)
  qed
qed

lemma start_inv: "portal_inv (start_portal H w)"
  by (auto simp: start_portal_def read_argv_def listen_def main_error_def listening_vsock_path_def hask_def once_set_def
      msg_def hemit_def Let_def served_absolute_def portal_inv_def split: portal_splits)

lemma chooser_served: "open_file H Z self a s = (r, t) \<Longrightarrow> adds served_absolute s t"
  "save_file H Z self a s = (r, t) \<Longrightarrow> adds served_absolute s t"
proof -
  have "adds served_absolute s t" if "adds no_share s t \<or> (\<exists>w. adds (shares_with w) s t)"
    using that by (auto elim!: adds_mono simp: no_share_def shares_with_def served_absolute_def split: hevent.splits)
  then show "open_file H Z self a s = (r, t) \<Longrightarrow> adds served_absolute s t"
    "save_file H Z self a s = (r, t) \<Longrightarrow> adds served_absolute s t"
    using open_file_adds [of H Z self a s r t] save_file_adds [of H Z self a s r t] by blast+
qed

lemma step_inv:
  assumes "portal_step H Z p q" "portal_inv p"
  shows "portal_inv q"
  using assms(1)
proof (cases rule: portal_step.cases)
  case accepts
  with accept_inv assms(2) show ?thesis by blast
next
  case (sets_up i conn)
  with setup_inv assms(2) show ?thesis by blast
next
  case (receives i d root)
  with message_inv assms(2) show ?thesis by blast
next
  case (open_request d root a)
  with request_inv [OF assms(2)] chooser_served(1) show ?thesis by blast
next
  case (save_request d root a)
  with request_inv [OF assms(2)] chooser_served(2) show ?thesis by blast
next
  case (others w)
  with assms(2) show ?thesis by (simp add: portal_inv_def)
qed

lemma reachable_inv: "reachable H Z w p \<Longrightarrow> portal_inv p"
  by (induction rule: reachable.induct) (auto intro: start_inv step_inv)

section \<open>No panics\<close>

text \<open>
  What the program relies on of the crates it calls: \<open>read_exact\<close> fills its buffer, a socket bound to a path has a
  path with bytes, and a proxy for a well-known name of the session bus can be made.
\<close>

definition sound_host :: "('w, 'v) host \<Rightarrow> bool" where
  "sound_host H \<longleftrightarrow> reads_exactly H \<and> (\<forall>w. fst (h_local_addr H w) \<noteq> Ok (Some [])) \<and>
     (\<forall>w. \<not> is_err (fst (h_documents_proxy H w)) \<and> \<not> is_err (fst (h_chooser_proxy H w)))"

definition calm :: "'w portal \<Rightarrow> bool" where
  "calm p \<longleftrightarrow> p_end p \<in> {None, Some (Exit 1)}"

lemma accept_calm:
  assumes "sound_host H" "portal_inv p" "p_end p = None"
  shows "calm (accept_portal H p)"
  using assms
  by (auto simp: calm_def sound_host_def portal_inv_def accept_portal_def main_error_def accept_step_def documents_init_def
      file_chooser_init_def hask_def once_set_def drop_conn_def hemit_def split: portal_splits)
    (metis fst_conv is_err_iff)+

lemma start_calm:
  assumes "sound_host H"
  shows "calm (start_portal H w)"
proof -
  have "infer_vsock_path a \<noteq> Panic \<and> infer_vsock_path a \<noteq> Diverge \<and> infer_vsock_path a \<noteq> Exit n" if "a \<noteq> []" for a n
    using that by (simp add: infer_vsock_path_def split: option.split)
  then show ?thesis
    using assms
    by (auto simp: calm_def sound_host_def start_portal_def read_argv_def listen_def main_error_def listening_vsock_path_def
        hask_def once_set_def msg_def hemit_def Let_def split: portal_splits) (metis fst_conv)+
qed

lemma setup_total:
  assumes "reads_exactly H" "vsock_unix_path s \<noteq> None"
  shows "\<exists>x t. setup_guest_connection H conn s = (Ret x, t)"
proof -
  obtain r t where r: "setup_guest_connection H conn s = (r, t)" by force
  then show ?thesis
  proof (cases rule: setup_cases)
    case (2 port root u)
    then have "vsock_unix_path u \<noteq> None" using assms(2) by (auto simp: adds_def same_cells_def)
    then obtain r' t' where "connect_to_guest H port u = (Ret r', t')"
      using connect_to_guest_total [OF assms(1)] by blast
    then have "\<exists>q w. serve_guest H port root u = (Ret q, w)"
      by (cases r') (auto simp: serve_guest_def Let_def split: prod.split result.split)
    then obtain q w where w: "serve_guest H port root u = (Ret q, w)" by blast
    with 2(2) have "finish_setup H conn root (Ret q, w) = (r, t)" by simp
    then show ?thesis using r by (cases rule: finish_setup_cases) auto
  qed (use r in auto)
qed

lemma request_calm:
  assumes "\<exists>x t. method (file_chooser_new root) a (p_state p) = (Ret x, t)" "p_end p = None"
  shows "calm (request_portal method root a p)"
  using assms by (auto simp: calm_def request_portal_def)

lemma step_calm:
  assumes "sound_host H" "urls_total Z" "backend_names_files H Z" "portal_step H Z p q" "portal_inv p"
  shows "calm q"
  using assms(4)
proof (cases rule: portal_step.cases)
  case accepts
  with accept_calm assms(1,5) show ?thesis by blast
next
  case (sets_up i conn)
  then have "vsock_unix_path (p_state p) \<noteq> None" "reads_exactly H" using assms(1,5) by (simp_all add: portal_inv_def sound_host_def)
  from setup_total [OF this(2,1), of conn] obtain x t where "setup_guest_connection H conn (p_state p) = (Ret x, t)" by blast
  with sets_up show ?thesis by (auto simp: calm_def setup_portal_def end_task_def split: result.split)
next
  case (receives i d root)
  then show ?thesis by (auto simp: calm_def message_portal_def end_task_def split: prod.split option.split)
next
  case (open_request d root a)
  then have "p_tasks p \<noteq> []" by auto
  then have "documents_PROXY (p_state p) \<noteq> None" "file_chooser_PROXY (p_state p) \<noteq> None" "is_absolute (guest_share_root (file_chooser_new root))"
    using assms(5) open_request by (auto simp: portal_inv_def file_chooser_new_def)
  from open_file_replies [OF assms(2) this(3,1,2) assms(3), of a] open_request request_calm show ?thesis by blast
next
  case (save_request d root a)
  then have "p_tasks p \<noteq> []" by auto
  then have "documents_PROXY (p_state p) \<noteq> None" "file_chooser_PROXY (p_state p) \<noteq> None" "is_absolute (guest_share_root (file_chooser_new root))"
    using assms(5) save_request by (auto simp: portal_inv_def file_chooser_new_def)
  from save_file_replies [OF assms(2) this(3,1,2) assms(3), of a] save_request request_calm show ?thesis by blast
next
  case (others w)
  then show ?thesis by (simp add: calm_def)
qed

section \<open>Progress\<close>

text \<open>The connections that wait to be set up, and the steps that set one of them up.\<close>

fun is_setup :: "task \<Rightarrow> bool" where
  "is_setup (Setup conn) = True"
| "is_setup (Serving d root) = False"

definition pending :: "'w portal \<Rightarrow> nat" where
  "pending p = length (filter is_setup (p_tasks p))"

definition setup_step :: "('w, 'v) host \<Rightarrow> 'w portal \<Rightarrow> 'w portal \<Rightarrow> bool" where
  "setup_step H p q \<longleftrightarrow> p_end p = None \<and>
     (\<exists>i conn. i < length (p_tasks p) \<and> p_tasks p ! i = Setup conn \<and> q = setup_portal H i conn p)"

lemma setup_step_is_step: "setup_step H p q \<Longrightarrow> portal_step H Z p q"
  by (auto simp: setup_step_def intro: sets_up)

lemma setup_step_enabled:
  assumes "p_end p = None" "0 < pending p"
  shows "\<exists>q. setup_step H p q"
proof -
  from assms(2) obtain x where "x \<in> set (p_tasks p)" "is_setup x" by (auto simp: pending_def filter_empty_conv)
  then obtain conn where "Setup conn \<in> set (p_tasks p)" by (cases x rule: task.exhaust) auto
  then obtain i where "i < length (p_tasks p)" "p_tasks p ! i = Setup conn" by (metis in_set_conv_nth)
  with assms(1) show ?thesis unfolding setup_step_def by blast
qed

text \<open>A step takes one connection off the list of those that wait, and no guest that is served.\<close>

lemma setup_tasks:
  assumes "i < length ts" "ts ! i = Setup conn"
  shows "length (filter is_setup ts) = Suc (length (filter is_setup (remove_task i ts)))"
    and "length (filter is_setup ts) = Suc (length (filter is_setup (ts[i := Serving d root])))"
    and "Serving e r \<in> set ts \<Longrightarrow> Serving e r \<in> set (remove_task i ts) \<and> Serving e r \<in> set (ts[i := Serving d root])"
proof -
  have ts: "ts = take i ts @ Setup conn # drop (Suc i) ts" using id_take_nth_drop [OF assms(1)] assms(2) by simp
  have up: "ts[i := Serving d root] = take i ts @ Serving d root # drop (Suc i) ts" using assms(1) by (rule upd_conv_take_nth_drop)
  show "length (filter is_setup ts) = Suc (length (filter is_setup (remove_task i ts)))"
    by (subst ts) (simp add: remove_task_def)
  show "length (filter is_setup ts) = Suc (length (filter is_setup (ts[i := Serving d root])))"
    by (subst ts, subst up) simp
  assume "Serving e r \<in> set ts"
  then have "Serving e r \<in> set (take i ts @ Setup conn # drop (Suc i) ts)" using ts by simp
  then show "Serving e r \<in> set (remove_task i ts) \<and> Serving e r \<in> set (ts[i := Serving d root])"
    unfolding up remove_task_def by auto
qed

lemma setup_step_progress:
  assumes "sound_host H" "portal_inv p" "setup_step H p q"
  shows "p_end q = None" "pending p = Suc (pending q)" "Serving d root \<in> set (p_tasks p) \<Longrightarrow> Serving d root \<in> set (p_tasks q)"
proof -
  from assms(3) obtain i conn where i: "i < length (p_tasks p)" "p_tasks p ! i = Setup conn" "q = setup_portal H i conn p" and e: "p_end p = None"
    by (auto simp: setup_step_def)
  from assms(1,2) e have "reads_exactly H" "vsock_unix_path (p_state p) \<noteq> None" by (simp_all add: portal_inv_def sound_host_def)
  from setup_total [OF this, of conn] obtain x t where x: "setup_guest_connection H conn (p_state p) = (Ret x, t)" by blast
  note tasks = setup_tasks [OF i(1,2)]
  show "p_end q = None" using x i(3) e by (auto simp: setup_portal_def end_task_def split: result.split)
  show "pending p = Suc (pending q)"
    unfolding i(3) using x tasks(1,2) by (auto simp: setup_portal_def end_task_def pending_def split: result.split)
  show "Serving d root \<in> set (p_tasks p) \<Longrightarrow> Serving d root \<in> set (p_tasks q)"
    unfolding i(3) using x tasks(3) by (auto simp: setup_portal_def end_task_def split: result.split)
qed

lemma setup_steps_progress:
  assumes "sound_host H" "portal_inv p" "p_end p = None" "(setup_step H ^^ n) p q"
  shows "portal_inv q \<and> p_end q = None \<and> n + pending q = pending p \<and> (\<forall>d root. Serving d root \<in> set (p_tasks p) \<longrightarrow> Serving d root \<in> set (p_tasks q))"
  using assms(4)
proof (induction n arbitrary: q)
  case 0
  with assms show ?case by simp
next
  case (Suc n)
  then obtain r where r: "(setup_step H ^^ n) p r" "setup_step H r q" by auto
  note IH = Suc.IH [OF r(1)]
  have "portal_inv q" using r(2) IH setup_inv by (auto simp: setup_step_def)
  with IH setup_step_progress [OF assms(1) _ r(2)] show ?case by auto
qed

lemma setup_steps_exist:
  assumes "sound_host H" "portal_inv p" "p_end p = None"
  shows "n \<le> pending p \<Longrightarrow> \<exists>q. (setup_step H ^^ n) p q"
proof (induction n)
  case (Suc n)
  then obtain q where q: "(setup_step H ^^ n) p q" by auto
  with setup_steps_progress [OF assms q] Suc.prems setup_step_enabled [of q H] show ?case by (auto intro: relcompp.intros)
qed simp

section \<open>What is received\<close>

text \<open>The bytes a guest sends: its versions, the port, the length of the share root and the share root.\<close>

definition guest_message :: "u32 \<Rightarrow> path \<Rightarrow> bytes" where
  "guest_message port root = [CHR 0x01, CHR 0x01] @ be_bytes port @ be_bytes (of_nat (length root)) @ root"

lemma receive_u32_stream:
  assumes "stream H c view" "view (hworld s) = be_bytes v @ rest"
  shows "\<exists>t. receive_u32 H c s = (Ok v, t) \<and> view (hworld t) = rest \<and> same_cells s t \<and>
    hlog t = hlog s @ [HvReadExact c (Ok (be_bytes v))]"
proof -
  have "length (be_bytes v) = 4" by simp
  from read_exact_stream [OF assms this] obtain t where "read_exact H c 4 s = (Ok (be_bytes v), t)" "view (hworld t) = rest"
    "hlog t = hlog s @ [HvReadExact c (Ok (be_bytes v))]" "same_cells s t" by (auto simp: same_cells_def)
  then show ?thesis by (simp add: receive_u32_def)
qed

lemma receive_bytestring_stream:
  assumes "stream H c view" "view (hworld s) = be_bytes (of_nat (length b)) @ b @ rest" "length b < 2 ^ 32"
  shows "\<exists>t evs. receive_bytestring H c s = (Ok b, t) \<and> view (hworld t) = rest \<and> same_cells s t \<and>
    hlog t = hlog s @ evs \<and> (\<forall>c'. sent c' evs = [])"
proof -
  from receive_u32_stream [OF assms(1,2)] obtain u where
    u: "receive_u32 H c s = (Ok (of_nat (length b)), u)" "view (hworld u) = b @ rest" "same_cells s u"
      "hlog u = hlog s @ [HvReadExact c (Ok (be_bytes (of_nat (length b))))]" by blast
  have n: "unat (of_nat (length b) :: u32) = length b" using assms(3) by (simp add: unsigned_of_nat take_bit_nat_eq_self)
  from read_exact_stream [OF assms(1) u(2) refl] obtain t where t: "read_exact H c (length b) u = (Ok b, t)"
    "view (hworld t) = rest" "hlog t = hlog u @ [HvReadExact c (Ok b)]" "same_cells u t" by (auto simp: same_cells_def)
  have "receive_bytestring H c s = (Ok b, t)" using u(1) t(1) n by (simp add: receive_bytestring_def)
  moreover have "hlog t = hlog s @ [HvReadExact c (Ok (be_bytes (of_nat (length b)))), HvReadExact c (Ok b)]"
    using t(3) u(4) by simp
  ultimately show ?thesis using t(2) same_cells_trans [OF u(3) t(4)]
    by (intro exI [of _ t] exI [of _ "[HvReadExact c (Ok (be_bytes (of_nat (length b)))), HvReadExact c (Ok b)]"]) simp
qed

lemma negotiate_version_stream:
  assumes "stream H c view" "duplex H c view" "view (hworld s) = [CHR 0x01, CHR 0x01] @ rest"
  shows "\<exists>t evs. negotiate_version H c s = (Ok (), t) \<and> view (hworld t) = rest \<and> same_cells s t \<and>
    hlog t = hlog s @ evs \<and> (\<forall>c'. sent c' evs = (if c' = c then [CHR 0x01] else []))"
proof -
  have "view (hworld s) = [CHR 0x01] @ ([CHR 0x01] @ rest)" using assms(3) by simp
  from read_exact_stream [OF assms(1) this, of 1] obtain u where u: "read_exact H c 1 s = (Ok [CHR 0x01], u)"
    "view (hworld u) = [CHR 0x01] @ rest" "hlog u = hlog s @ [HvReadExact c (Ok [CHR 0x01])]" "same_cells s u"
    by (auto simp: same_cells_def)
  from read_exact_stream [OF assms(1) u(2), of 1] obtain v where v: "read_exact H c 1 u = (Ok [CHR 0x01], v)"
    "view (hworld v) = rest" "hlog v = hlog u @ [HvReadExact c (Ok [CHR 0x01])]" "same_cells u v"
    by (auto simp: same_cells_def)
  from write_all_duplex [OF assms(2), of "[CHR 0x01]" v] obtain t where t: "write_all_to H c [CHR 0x01] v = (Ok (), t)"
    "view (hworld t) = rest" "hlog t = hlog v @ [HvWriteAll c [CHR 0x01] (Ok ())]" "same_cells v t"
    using v(2) by (auto simp: same_cells_def)
  have one: "of_char (CHR 0x01 :: char) = (1 :: nat)" by simp
  have "negotiate_version H c s = (Ok (), t)" using u(1) v(1) t(1) one by (simp add: negotiate_version_def)
  moreover have "same_cells s t" using u(4) v(4) t(4) by (blast intro: same_cells_trans)
  moreover have "hlog t = hlog s @ [HvReadExact c (Ok [CHR 0x01]), HvReadExact c (Ok [CHR 0x01]), HvWriteAll c [CHR 0x01] (Ok ())]"
    using t(3) v(3) u(3) by simp
  ultimately show ?thesis using t(2)
    by (intro exI [of _ t] exI [of _ "[HvReadExact c (Ok [CHR 0x01]), HvReadExact c (Ok [CHR 0x01]), HvWriteAll c [CHR 0x01] (Ok ())]"])
      simp
qed

lemma setup_receives:
  assumes str: "stream H c view" "duplex H c view" and msg: "view (hworld s) = guest_message port root @ rest"
    and len: "length root < 2 ^ 32"
  shows "\<exists>u evs. setup_guest_connection H c s = finish_setup H c root (serve_guest H port root u) \<and>
    view (hworld u) = rest \<and> same_cells s u \<and> hlog u = hlog s @ evs \<and> (\<forall>c'. sent c' evs = (if c' = c then [CHR 0x01] else []))"
proof -
  have "view (hworld s) = [CHR 0x01, CHR 0x01] @ be_bytes port @ be_bytes (of_nat (length root)) @ root @ rest"
    using msg by (simp add: guest_message_def)
  from negotiate_version_stream [OF str this] obtain u1 e1 where
    1: "negotiate_version H c s = (Ok (), u1)" "view (hworld u1) = be_bytes port @ be_bytes (of_nat (length root)) @ root @ rest"
      "same_cells s u1" "hlog u1 = hlog s @ e1" "\<forall>c'. sent c' e1 = (if c' = c then [CHR 0x01] else [])" by blast
  from receive_u32_stream [OF str(1) 1(2)] obtain u2 where
    2: "receive_u32 H c u1 = (Ok port, u2)" "view (hworld u2) = be_bytes (of_nat (length root)) @ root @ rest"
      "same_cells u1 u2" "hlog u2 = hlog u1 @ [HvReadExact c (Ok (be_bytes port))]" by blast
  from receive_bytestring_stream [OF str(1) 2(2) len] obtain u3 e3 where
    3: "receive_bytestring H c u2 = (Ok root, u3)" "view (hworld u3) = rest" "same_cells u2 u3" "hlog u3 = hlog u2 @ e3"
      "\<forall>c'. sent c' e3 = []" by blast
  have "setup_guest_connection H c s = finish_setup H c root (serve_guest H port root u3)"
    using 1(1) 2(1) 3(1) by (simp add: setup_guest_connection_def)
  moreover have "hlog u3 = hlog s @ e1 @ HvReadExact c (Ok (be_bytes port)) # e3" using 1(4) 2(4) 3(4) by simp
  moreover have "\<forall>c'. sent c' (e1 @ HvReadExact c (Ok (be_bytes port)) # e3) = (if c' = c then [CHR 0x01] else [])" using 1(5) 3(5) by simp
  moreover have "same_cells s u3" using 1(3) 2(3) 3(3) by (blast intro: same_cells_trans)
  ultimately show ?thesis using 3(2) by blast
qed

text \<open>
  A set-up that succeeds, with everything the host sends: the connection of the guest is \<open>c\<close>, and \<open>v\<close> is the
  one Cloud Hypervisor answers on.
\<close>

lemma setup_served:
  assumes str: "stream H c view" "duplex H c view" and msg: "view (hworld s) = guest_message port root @ rest"
    and root: "length root < 2 ^ 32" "is_absolute root" and path: "vsock_unix_path s = Some path"
    and vmm: "\<And>w. \<exists>w'. h_connect H path w = (Ok v, w') \<and> view' w' = ''OK '' @ dec (unat (n :: u32)) @ [newline]"
    and str': "stream H v view'" "duplex H v view'" and bus: "\<And>w. fst (h_serve H v root w) = Ok d" and "c \<noteq> v"
  shows "\<exists>t evs. setup_guest_connection H c s = (Ret (Ok (d, root)), t) \<and> hlog t = hlog s @ evs \<and>
    sent c evs = [CHR 0x01, NUL] \<and> sent v evs = ''CONNECT '' @ dec (unat port) @ [newline]"
proof -
  from setup_receives [OF str msg root(1)] obtain u e1 where
    u: "setup_guest_connection H c s = finish_setup H c root (serve_guest H port root u)" "same_cells s u"
      "hlog u = hlog s @ e1" "\<forall>c'. sent c' e1 = (if c' = c then [CHR 0x01] else [])" by blast
  have pu: "vsock_unix_path u = Some path" using u(2) path by (simp add: same_cells_def)
  obtain w where w: "h_connect H path (hworld u) = (Ok v, w)" "view' w = ''OK '' @ dec (unat n) @ [newline] @ []"
    using vmm by auto
  obtain x e2 where x: "connect_to_guest H port u = (Ret (Ok v), x)" "hlog x = hlog u @ e2"
    "\<forall>c'. sent c' e2 = (if c' = v then ''CONNECT '' @ dec (unat port) @ [newline] else [])"
    using connect_to_guest_handshake [OF pu w(1) str' w(2), of port] by blast
  obtain y where y: "hask (h_serve H v root) (HvServe v root) x = (Ok d, y)" "hlog y = hlog x @ [HvServe v root (Ok d)]"
    using bus [of "hworld x"] by (cases "h_serve H v root (hworld x)") (simp add: hask_def)
  have "serve_guest H port root u = (Ret (Ok d), y)"
    using x(1) y(1) root(2) by (simp add: serve_guest_def is_relative_def file_chooser_new_def)
  moreover obtain z where z: "write_all_to H c [NUL] y = (Ok (), z)" "hlog z = hlog y @ [HvWriteAll c [NUL] (Ok ())]"
    using write_all_duplex [OF str(2)] by blast
  ultimately have "setup_guest_connection H c s = (Ret (Ok (d, root)), PortalEnv.msg H CreatedOnGuestBus (drop_conn H c z))"
    using u(1) by (simp add: finish_setup_def Let_def)
  moreover obtain prog where "hlog (PortalEnv.msg H CreatedOnGuestBus (drop_conn H c z)) = hlog s @ e1 @ e2 @
      [HvServe v root (Ok d), HvWriteAll c [NUL] (Ok ()), HvDrop c, HvMsg prog CreatedOnGuestBus]"
    using u(3) x(2) y(2) z(2) by (simp add: PortalEnv.msg_def drop_conn_def hemit_def Let_def)
  ultimately show ?thesis using u(4) x(3) \<open>c \<noteq> v\<close> by auto
qed

section \<open>The path of the socket\<close>

text \<open>The path inferred at the start is never changed.\<close>

lemma step_vsock:
  assumes "portal_step H Z p q" "portal_inv p"
  shows "vsock_unix_path (p_state q) = vsock_unix_path (p_state p)"
  using assms(1)
proof (cases rule: portal_step.cases)
  case accepts
  obtain r b s where r: "accept_step H (p_initialized p) (p_state p) = (r, b, s)" by (metis prod_cases3)
  from assms(2) accepts have "documents_PROXY (p_state p) \<noteq> None \<longleftrightarrow> p_initialized p"
    "file_chooser_PROXY (p_state p) \<noteq> None \<longleftrightarrow> p_initialized p" by (simp_all add: portal_inv_def)
  from accept_step_cases [OF r this] r accepts(1) show ?thesis
    by (auto simp: accept_portal_def main_error_def msg_def hemit_def Let_def split: outcome.splits result.splits option.splits)
next
  case (sets_up i conn)
  obtain r s where r: "setup_guest_connection H conn (p_state p) = (r, s)" by force
  with setup_log [OF r] sets_up(1) show ?thesis
    by (auto simp: setup_portal_def end_task_def same_cells_def msg_def hemit_def Let_def split: outcome.splits result.splits)
next
  case (receives i d root)
  then show ?thesis
    by (auto simp: message_portal_def message_step_def end_task_def hask_def msg_def hemit_def Let_def
        split: prod.splits result.splits zbus_error.splits)
next
  case (open_request d root a)
  obtain r s where r: "open_file H Z (file_chooser_new root) a (p_state p) = (r, s)" by force
  with chooser_cells(1) [OF r] open_request(1) show ?thesis by (auto simp: request_portal_def same_cells_def split: outcome.splits)
next
  case (save_request d root a)
  obtain r s where r: "save_file H Z (file_chooser_new root) a (p_state p) = (r, s)" by force
  with chooser_cells(2) [OF r] save_request(1) show ?thesis by (auto simp: request_portal_def same_cells_def split: outcome.splits)
qed simp

lemma reachable_vsock: "reachable H Z w p \<Longrightarrow> vsock_unix_path (p_state p) = vsock_unix_path (p_state (start_portal H w))"
  by (induction rule: reachable.induct) (auto dest: step_vsock reachable_inv)

lemma start_vsock:
  assumes "p_end (start_portal H w) = None" "\<And>w. fst (h_local_addr H w) = Ok (Some (path @ CHR ''_'' # ds))"
    "path \<noteq> []" "list_all is_digit ds"
  shows "vsock_unix_path (p_state (start_portal H w)) = Some path"
proof -
  have i: "infer_vsock_path (path @ CHR ''_'' # ds) = Ret (Ok path)" using assms(3,4) infer_vsock_path_iff by blast
  have l: "\<exists>t. listening_vsock_path H s = (Ret (Ok path), t) \<and> vsock_unix_path t = vsock_unix_path s" for s
    using assms(2) [of "hworld s"] i by (cases "h_local_addr H (hworld s)") (simp add: listening_vsock_path_def hask_def)
  let ?s = "\<lparr>hworld = w, hlog = [], vsock_unix_path = None, documents_PROXY = None, file_chooser_PROXY = None\<rparr>"
  obtain q u where u: "hask (h_async_new H) HvAsyncNew ?s = (q, u)" by force
  then have n: "vsock_unix_path u = None" by (auto simp: hask_def split: prod.splits)
  obtain t where t: "listening_vsock_path H u = (Ret (Ok path), t)" "vsock_unix_path t = None" using l [of u] n by auto
  show ?thesis
    using assms(1) u t by (cases q) (auto simp: start_portal_def read_argv_def listen_def main_error_def once_set_def Let_def split: if_splits)
qed

section \<open>A run\<close>

text \<open>A process that has accepted one connection.\<close>

definition portal1 :: "bytes portal" where
  "portal1 = accept_portal pick_host (start_portal pick_host (guest_message 1024 ''/mnt''))"

lemma pick_host_more:
  "h_args pick_host = [''/bin/portal'']" "h_local_addr pick_host w = (Ok (Some ''/run/vm/app/vsock_219''), w)"
  "h_async_new pick_host w = (Ok (), w)" "h_accept pick_host w = (Ok 1, w)" "h_session pick_host w = (Ok (), w)"
  "h_documents_proxy pick_host w = (Ok (), w)" "h_chooser_proxy pick_host w = (Ok (), w)"
  "h_read_exact pick_host = h_read_exact line_host" "h_write_all pick_host = h_write_all line_host"
  by (simp_all add: pick_host_def line_host_simps)

lemma pick_host_sound: "sound_host pick_host"
  by (auto simp: sound_host_def reads_exactly_def pick_host_more line_host_simps is_err_iff split: if_splits)

lemma portal1_end: "p_end portal1 = None \<and> p_tasks portal1 = [Setup 1] \<and> reachable pick_host xzv (guest_message 1024 ''/mnt'') portal1"
proof -
  let ?p = "start_portal pick_host (guest_message 1024 ''/mnt'')"
  have "infer_vsock_path ''/run/vm/app/vsock_219'' = Ret (Ok ''/run/vm/app/vsock'')"
    using infer_vsock_path_iff [of "''/run/vm/app/vsock_219''" "''/run/vm/app/vsock''"] by (simp add: is_digit_def)
  then have s: "p_end ?p = None \<and> p_initialized ?p = False \<and> p_tasks ?p = [] \<and> documents_PROXY (p_state ?p) = None \<and> file_chooser_PROXY (p_state ?p) = None"
    by (simp add: start_portal_def read_argv_def pick_host_more listen_def hask_def listening_vsock_path_def once_set_def Let_def)
  then have "portal_step pick_host xzv ?p portal1" unfolding portal1_def by (intro accepts) simp
  then have "reachable pick_host xzv (guest_message 1024 ''/mnt'') portal1" by (blast intro: reachable.intros)
  with s show ?thesis
    by (simp add: portal1_def accept_portal_def accept_step_def hask_def pick_host_more documents_init_def
        file_chooser_init_def once_set_def)
qed

text \<open>
  C6. The portal does not panic: if the crates it uses keep their promises, the state the process
  reaches by any interleaving of connections, set-ups, messages and requests of guests is running or has ended
  with the exit code 1, for any bytes the guests send.
\<close>

theorem portal_no_panic:
  assumes "sound_host H" "urls_total Z" "backend_names_files H Z" "reachable H Z w p"
  shows "p_end p \<in> {None, Some (Exit 1)}"
  using assms(4)
proof (cases rule: reachable.cases)
  case start
  with start_calm [OF assms(1)] show ?thesis by (simp add: calm_def)
next
  case (step q)
  from step_calm [OF assms(1-3) step(2) reachable_inv [OF step(1)]] show ?thesis by (simp add: calm_def)
qed

theorem portal_no_panic_witness:
  "sound_host pick_host \<and> urls_total xzv \<and> backend_names_files pick_host xzv \<and>
   reachable pick_host xzv (guest_message 1024 ''/mnt'') portal1 \<and> p_tasks portal1 = [Setup 1] \<and>
   p_end portal1 \<in> {None, Some (Exit 1)}"
  using portal_no_panic [OF pick_host_sound pick_hyps(1,5), of "guest_message 1024 ''/mnt''" portal1]
    portal1_end pick_host_sound pick_hyps(1,5) by blast

text \<open>
  C10. The invariant of the process: every file chooser that was ever offered to a guest, and every one that is served now,
  has an absolute share root, as \<open>FileChooser::new\<close> asks for. As long as the process runs, the path of the socket is set, and
  while there is a connection both proxies are.
\<close>

theorem portal_invariant:
  assumes "reachable H Z w p"
  shows "(\<forall>v root q. HvServe v root q \<in> set (hlog (p_state p)) \<longrightarrow> is_absolute root) \<and>
    (\<forall>d root. Serving d root \<in> set (p_tasks p) \<longrightarrow> is_absolute root) \<and>
    (p_end p = None \<longrightarrow> vsock_unix_path (p_state p) \<noteq> None \<and>
      (p_tasks p \<noteq> [] \<longrightarrow> documents_PROXY (p_state p) \<noteq> None \<and> file_chooser_PROXY (p_state p) \<noteq> None))"
  using reachable_inv [OF assms] unfolding portal_inv_def list_all_iff served_absolute_def by (metis hevent.simps)

theorem portal_invariant_witness:
  "p_tasks portal1 \<noteq> [] \<and> documents_PROXY (p_state portal1) \<noteq> None \<and> file_chooser_PROXY (p_state portal1) \<noteq> None"
  using portal_invariant [of pick_host xzv "guest_message 1024 ''/mnt''" portal1] portal1_end by simp



text \<open>
  C9. The guest is told of success only if its file chooser is in place: in the log of a set-up, the status zero directly follows the
  registration of the chooser with an absolute root, it is written to the connection of the guest, and it is the
  only one. The set-up succeeds exactly if that write does, and it always ends with the connection closed.
\<close>

theorem setup_status:
  assumes "setup_guest_connection H conn s = (Ret r, t)"
  shows "\<exists>evs. hlog t = hlog s @ evs \<and> HvDrop conn \<in> set evs \<and>
    (\<forall>c x. HvWriteAll c [NUL] x \<in> set evs \<longrightarrow> (\<exists>pre v root d post.
       evs = pre @ HvServe v root (Ok d) # HvWriteAll conn [NUL] x # post \<and> c = conn \<and> is_absolute root \<and>
       (\<forall>c x. HvWriteAll c [NUL] x \<notin> set (pre @ post)) \<and> (x = Ok () \<longleftrightarrow> r = Ok (d, root)))) \<and>
    ((\<exists>y. r = Ok y) \<longrightarrow> HvWriteAll conn [NUL] (Ok ()) \<in> set evs)"
proof -
  from setup_log [OF assms] obtain evs where evs: "hlog t = hlog s @ evs" "setup_trace conn (Ret r) evs" by blast
  then have drop: "HvDrop conn \<in> set evs" by (simp add: setup_trace_def)
  consider "\<forall>c x. HvWriteAll c [NUL] x \<notin> set evs" "\<nexists>y. r = Ok y"
    | pre v root d x post where "evs = pre @ HvServe v root (Ok d) # HvWriteAll conn [NUL] x # post" "is_absolute root"
        "\<forall>c x. HvWriteAll c [NUL] x \<notin> set (pre @ post)"
        "r = (case x of Ok _ \<Rightarrow> Ok (d, root) | Err e \<Rightarrow> Err (SendingSetupResponse e))"
    using evs(2) unfolding setup_trace_def by (elim conjE disjE exE) (simp, blast)
  then show ?thesis
  proof cases
    case 1
    with evs(1) drop show ?thesis by blast
  next
    case (2 pre v root d x post)
    have x: "x = Ok () \<longleftrightarrow> r = Ok (d, root)" "(\<exists>y. r = Ok y) \<longrightarrow> x = Ok ()" using 2(4) by (cases x; simp)+
    have "y = x \<and> c = conn" if "HvWriteAll c [NUL] y \<in> set evs" for c y using that 2(1,3) by auto
    with x 2(1-3) have "\<exists>pre v root d post. evs = pre @ HvServe v root (Ok d) # HvWriteAll conn [NUL] y # post \<and> c = conn \<and>
        is_absolute root \<and> (\<forall>c x. HvWriteAll c [NUL] x \<notin> set (pre @ post)) \<and> (y = Ok () \<longleftrightarrow> r = Ok (d, root))"
      if "HvWriteAll c [NUL] y \<in> set evs" for c y using that by blast
    moreover have "HvWriteAll conn [NUL] (Ok ()) \<in> set evs" if "\<exists>y. r = Ok y" using that x 2(1) by simp
    ultimately show ?thesis using evs(1) drop by blast
  qed
qed

text \<open>A host with two connections: the guest's, and the one to Cloud Hypervisor.\<close>

definition two_host :: "(bytes \<times> bytes, xv) host" where
  "two_host = (let io = from_raw_os_error EPERM in
     \<lparr>h_args = [''/bin/portal''],
      h_read_exact = \<lambda>c n (a, b). if c = 1 then (if n \<le> length a then (Ok (take n a), drop n a, b) else (Err io, a, b))
        else (if n \<le> length b then (Ok (take n b), a, drop n b) else (Err io, a, b)),
      h_write_all = \<lambda>_ _ w. (Ok (), w), h_connect = \<lambda>_ (a, b). (Ok 2, a, ''OK 7'' @ [newline]), h_drop = \<lambda>_ w. w,
      h_serve = \<lambda>_ _ w. (Ok 3, w), h_next_message = \<lambda>_ w. (Err (InputOutput (from_raw_os_error EPIPE)), w),
      h_local_addr = \<lambda>w. (Ok (Some ''/run/vm/app/vsock_219''), w), h_async_new = \<lambda>w. (Ok (), w),
      h_accept = \<lambda>w. (Ok 1, w), h_session = \<lambda>w. (Ok (), w), h_documents_proxy = \<lambda>w. (Ok (), w),
      h_chooser_proxy = \<lambda>w. (Ok (), w), h_exists = \<lambda>_ _. True, h_is_file = \<lambda>_ _. True,
      h_open_path = \<lambda>_ w. (Ok 9, w), h_add_named_full = \<lambda>_ _ _ _ _ w. (Ok ''a1b2'', w),
      h_open_file = \<lambda>_ w. (Err (ZbusOther 0), w), h_save_file = \<lambda>_ w. (Err (ZbusOther 0), w)\<rparr>)"

lemma two_host_streams: "stream two_host 1 fst" "duplex two_host 1 fst" "stream two_host 2 snd" "duplex two_host 2 snd"
  by (auto simp: stream_def duplex_def two_host_def Let_def is_err_iff split: prod.splits)

lemma two_host_vmm: "\<exists>w'. h_connect two_host path w = (Ok 2, w') \<and> snd w' = ''OK '' @ dec (unat (7 :: u32)) @ [newline]"
proof -
  have "dec 7 = ''7''" by (simp add: fmt_eval)
  then show ?thesis by (cases w) (simp add: two_host_def Let_def)
qed

definition hs2 :: "bytes \<Rightarrow> (bytes \<times> bytes) hs" where
  "hs2 b = \<lparr>hworld = (b, []), hlog = [], vsock_unix_path = Some ''/run/vm/app/vsock'', documents_PROXY = Some (),
     file_chooser_PROXY = Some ()\<rparr>"

lemma two_host_setup:
  "\<exists>t evs. setup_guest_connection two_host 1 (hs2 (guest_message 1024 ''/mnt'')) = (Ret (Ok (3, ''/mnt'')), t) \<and>
     hlog t = evs \<and> sent 1 evs = [CHR 0x01, NUL]"
proof -
  have m: "fst (hworld (hs2 (guest_message 1024 ''/mnt''))) = guest_message 1024 ''/mnt'' @ []" by (simp add: hs2_def)
  have r: "length ''/mnt'' < 2 ^ 32" "is_absolute ''/mnt''" by (simp_all add: is_absolute_def has_root_def)
  have p: "vsock_unix_path (hs2 (guest_message 1024 ''/mnt'')) = Some ''/run/vm/app/vsock''" by (simp add: hs2_def)
  have b: "fst (h_serve two_host 2 ''/mnt'' w) = Ok 3" for w by (simp add: two_host_def Let_def)
  show ?thesis
    using setup_served [OF two_host_streams(1,2) m r p two_host_vmm two_host_streams(3,4) b] by (auto simp: hs2_def)
qed

theorem setup_status_witness:
  "\<exists>t r evs. setup_guest_connection two_host 1 (hs2 (guest_message 1024 ''/mnt'')) = (Ret r, t) \<and> hlog t = evs \<and>
     HvWriteAll 1 [NUL] (Ok ()) \<in> set evs \<and> HvDrop 1 \<in> set evs"
proof -
  from two_host_setup obtain t where t: "setup_guest_connection two_host 1 (hs2 (guest_message 1024 ''/mnt'')) = (Ret (Ok (3, ''/mnt'')), t)"
    by blast
  obtain evs where "hlog t = hlog (hs2 (guest_message 1024 ''/mnt'')) @ evs" "HvDrop 1 \<in> set evs" "HvWriteAll 1 [NUL] (Ok ()) \<in> set evs"
    using setup_status [OF t] by blast
  with t show ?thesis by (auto simp: hs2_def)
qed

end
