(* ===== verification/Strtol.thy ===== *)
theory Strtol
  imports Format
begin

text \<open>
  The function \<open>strtol\<close> of the C library with base 10, which two of the programs use: it skips white
  space, reads a sign and digits, and stays within the range of a \<open>long\<close>, 64 bits wide.
\<close>

definition LONG_MAX :: int where "LONG_MAX = 2 ^ 63 - 1"
definition LONG_MIN :: int where "LONG_MIN = - (2 ^ 63)"

definition is_space :: "char \<Rightarrow> bool" where
  "is_space c \<longleftrightarrow> (let n = of_char c :: nat in n = 32 \<or> (9 \<le> n \<and> n \<le> 13))"

text \<open>
  How the conversion went. Out of range, \<open>errno\<close> becomes \<open>ERANGE\<close>; without a number, the standard allows \<open>EINVAL\<close>
  and allows \<open>errno\<close> to be left alone.
\<close>

datatype conversion = Converted | OutOfRange | NoNumber

definition strtol :: "bytes \<Rightarrow> int \<times> conversion \<times> bytes" where
  "strtol s =
     (let t = dropWhile is_space s;
          signed = (t \<noteq> [] \<and> (hd t = CHR ''-'' \<or> hd t = CHR ''+''));
          u = (if signed then tl t else t);
          ds = takeWhile is_digit u;
          v = (if signed \<and> hd t = CHR ''-'' then - int (undec ds) else int (undec ds)) in
      if ds = [] then (0, NoNumber, s)
      else if LONG_MAX < v then (LONG_MAX, OutOfRange, dropWhile is_digit u)
      else if v < LONG_MIN then (LONG_MIN, OutOfRange, dropWhile is_digit u)
      else (v, Converted, dropWhile is_digit u))"

section \<open>Lemmas\<close>

lemma digit_not_space [simp]: "is_digit c \<Longrightarrow> \<not> is_space c"
  by (auto simp: is_digit_def is_space_def Let_def)

lemma digit_not_sign [simp]: "is_digit c \<Longrightarrow> c \<noteq> CHR ''-'' \<and> c \<noteq> CHR ''+''"
  by (auto simp: is_digit_def)

lemma takeWhile_digits:
  assumes "list_all is_digit ds" "rest = [] \<or> \<not> is_digit (hd rest)"
  shows "takeWhile is_digit (ds @ rest) = ds" "dropWhile is_digit (ds @ rest) = rest"
  using assms by (induction ds; cases rest; auto)+

lemma takeWhile_dec [simp]: "takeWhile is_digit (dec n) = dec n" "dropWhile is_digit (dec n) = []"
  using takeWhile_digits [of "dec n" "[]"] dec_digits_all [of n] by simp_all

text \<open>On a string that starts with a digit.\<close>

lemma strtol_digits:
  assumes "s \<noteq> []" "is_digit (hd s)"
  shows "strtol s = (let n = int (undec (takeWhile is_digit s)) in
    (min LONG_MAX n, if LONG_MAX < n then OutOfRange else Converted, dropWhile is_digit s))"
proof -
  obtain c r where s: "s = c # r" "is_digit c" using assms by (cases s) auto
  have "\<not> int n < LONG_MIN" for n by (simp add: LONG_MIN_def)
  then show ?thesis using s digit_not_sign [OF s(2)] by (auto simp: strtol_def Let_def min_def)
qed

text \<open>The decimal text of a \<open>long\<close> is read back.\<close>

lemma strtol_dec_int:
  assumes "LONG_MIN \<le> i" "i \<le> LONG_MAX"
  shows "strtol (dec_int i) = (i, Converted, [])"
proof -
  let ?ds = "dec (nat \<bar>i\<bar>)"
  show ?thesis
  proof (cases "0 \<le> i")
    case True
    then have "strtol (dec_int i) = strtol ?ds" "is_digit (hd ?ds)" by (simp_all add: dec_hd_digit)
    with strtol_digits [of ?ds] True assms(2) show ?thesis by (simp add: Let_def)
  next
    case False
    have sp: "\<not> is_space (CHR ''-'')" by (simp add: is_space_def)
    have "dec_int i = CHR ''-'' # ?ds" using False by (simp add: dec_int_def)
    with sp False assms show ?thesis by (simp add: strtol_def Let_def)
  qed
qed

end
