(* ===== verification/Guest.thy ===== *)
theory Guest
  imports Sys Strtol
begin

text \<open>
  The guest side of the portal, \<open>tools/xdg-desktop-portal-spectrum/xdg-desktop-portal-spectrum.c\<close>. It tells the host the
  port of the guest's D-Bus and where the host's files are found in the guest.

  The kernel and libdbus are the fields of the record \<open>guest\<close>, arbitrary functions of a hidden
  world. \<open>HOST_FS_ROOT_DIR\<close>, which the build writes to \<open>config.h\<close>, is the argument \<open>root\<close>. The variables \<open>version\<close> and
  \<open>r\<close> are not initialised; what they hold before anything is read into them are the arguments \<open>junk\<close>. Every call of \<open>err\<close> and \<open>errx\<close>
  is an exit with the code 1, preceded by the event of its message. A count of bytes written fits into an
  \<open>int\<close>: Linux writes at most 0x7ffff000 bytes at a time.
\<close>

section \<open>The environment\<close>

definition ERANGE :: errno where "ERANGE = 34"

definition HOST_PORT :: u32 where "HOST_PORT = 219"

definition VMADDR_CID_HOST :: u32 where "VMADDR_CID_HOST = 2"

datatype guest_error =
    CreatingVsock errno
  | ConnectingVsock u32 u32 errno
  | WritingHandshake errno
  | ReadingVersion errno
  | UnexpectedVersion char errno
  | WritingPort errno
  | WritingFsRootLen errno
  | WritingFsRoot errno
  | ReadingResult errno
  | BadResult char
  | StarterAddressNotSet
  | ParsingAddress bytes bytes
  | MissingPort bytes
  | AddressPort errno

datatype gevent =
    GvSocket "(nat, errno) result"
  | GvConnect nat u32 u32 "(unit, errno) result"
  | GvWrite nat bytes "(nat, errno) result"
  | GvRead nat nat "(bytes, errno) result"
  | GvErr guest_error

text \<open>An entry of a D-Bus address: its method and its named values.\<close>

record dbus_entry =
  e_method :: bytes
  e_value :: "bytes \<rightharpoonup> bytes"

record 'w guest =
  g_getenv :: "bytes \<Rightarrow> bytes option"
  g_parse_address :: "bytes \<Rightarrow> (dbus_entry list, bytes) result"
  g_socket :: "('w, (nat, errno) result) req"
  g_connect :: "nat \<Rightarrow> u32 \<Rightarrow> u32 \<Rightarrow> ('w, (unit, errno) result) req"
  g_write :: "nat \<Rightarrow> bytes \<Rightarrow> ('w, (nat, errno) result) req"
  g_read :: "nat \<Rightarrow> nat \<Rightarrow> ('w, (bytes, errno) result) req"

record 'w gs =
  gworld :: 'w
  gerrno :: errno
  gevents :: "gevent list"

definition gask :: "('w, 'r) req \<Rightarrow> ('r \<Rightarrow> gevent) \<Rightarrow> 'w gs \<Rightarrow> 'r \<times> 'w gs" where
  "gask f ev s = (case f (gworld s) of (r, w) \<Rightarrow> (r, s\<lparr>gworld := w, gevents := gevents s @ [ev r]\<rparr>))"

definition gerr :: "guest_error \<Rightarrow> 'w gs \<Rightarrow> 'a outcome \<times> 'w gs" where
  "gerr e s = (Exit 1, s\<lparr>gevents := gevents s @ [GvErr e]\<rparr>)"

section \<open>The program\<close>

text \<open>The value stored and 0, or the error number and -1.\<close>

definition parse_u32 :: "bytes option \<Rightarrow> (u32, errno) result" where
  "parse_u32 s =
     (case s of
        None \<Rightarrow> Err EINVAL
      | Some s \<Rightarrow>
          if s = [] \<or> \<not> is_digit (hd s) then Err EINVAL
          else
            (case strtol s of (n, c, end') \<Rightarrow>
               if c = OutOfRange then Err ERANGE
               else if end' \<noteq> [] then Err EINVAL
               else Ok (word_of_int n)))"

text \<open>The loop runs until all is written; it does not end if the kernel keeps writing nothing.\<close>

partial_function (option) write_all :: "'w guest \<Rightarrow> nat \<Rightarrow> bytes \<Rightarrow> 'w gs \<Rightarrow> ((unit, errno) result \<times> 'w gs) option" where
  "write_all G fd buf s =
     (case gask (g_write G fd buf) (GvWrite fd buf) s of (r, s) \<Rightarrow>
       (case r of
          Err e \<Rightarrow> Some (Err e, s\<lparr>gerrno := e\<rparr>)
        | Ok r \<Rightarrow> if drop r buf = [] then Some (Ok (), s) else write_all G fd (drop r buf) s))"

definition connect_to_host :: "'w guest \<Rightarrow> char \<Rightarrow> 'w gs \<Rightarrow> nat outcome \<times> 'w gs" where
  "connect_to_host G junk s =
     (case gask (g_socket G) GvSocket s of
        (Err e, s) \<Rightarrow> gerr (CreatingVsock e) (s\<lparr>gerrno := e\<rparr>)
      | (Ok sock, s) \<Rightarrow>
         (case gask (g_connect G sock VMADDR_CID_HOST HOST_PORT) (GvConnect sock VMADDR_CID_HOST HOST_PORT) s of
            (Err e, s) \<Rightarrow> gerr (ConnectingVsock VMADDR_CID_HOST HOST_PORT e) (s\<lparr>gerrno := e\<rparr>)
          | (Ok _, s) \<Rightarrow>
             (case write_all G sock [CHR 0x01, CHR 0x01] s of
                None \<Rightarrow> (Diverge, s)
              | Some (Err e, s) \<Rightarrow> gerr (WritingHandshake e) s
              | Some (Ok _, s) \<Rightarrow>
                 (case gask (g_read G sock 1) (GvRead sock 1) s of
                    (Err e, s) \<Rightarrow> gerr (ReadingVersion e) (s\<lparr>gerrno := e\<rparr>)
                  | (Ok d, s) \<Rightarrow>
                      (let version = (case d of [] \<Rightarrow> junk | c # _ \<Rightarrow> c) in
                       if version \<noteq> CHR 0x01 then gerr (UnexpectedVersion version (gerrno s)) s
                       else (Ret sock, s))))))"

definition send_info :: "'w guest \<Rightarrow> path \<Rightarrow> nat \<Rightarrow> u32 \<Rightarrow> 'w gs \<Rightarrow> unit outcome \<times> 'w gs" where
  "send_info G root sock port s =
     (case write_all G sock (be_bytes port) s of
        None \<Rightarrow> (Diverge, s)
      | Some (Err e, s) \<Rightarrow> gerr (WritingPort e) s
      | Some (Ok _, s) \<Rightarrow>
         (case write_all G sock (be_bytes (word_of_nat (length root))) s of
            None \<Rightarrow> (Diverge, s)
          | Some (Err e, s) \<Rightarrow> gerr (WritingFsRootLen e) s
          | Some (Ok _, s) \<Rightarrow>
             (case write_all G sock root s of
                None \<Rightarrow> (Diverge, s)
              | Some (Err e, s) \<Rightarrow> gerr (WritingFsRoot e) s
              | Some (Ok _, s) \<Rightarrow> (Ret (), s))))"

definition check_result :: "'w guest \<Rightarrow> char \<Rightarrow> nat \<Rightarrow> 'w gs \<Rightarrow> unit outcome \<times> 'w gs" where
  "check_result G junk sock s =
     (case gask (g_read G sock 1) (GvRead sock 1) s of
        (Err e, s) \<Rightarrow> gerr (ReadingResult e) (s\<lparr>gerrno := e\<rparr>)
      | (Ok d, s) \<Rightarrow>
          (let r = (case d of [] \<Rightarrow> junk | c # _ \<Rightarrow> c) in
           if r \<noteq> NUL then gerr (BadResult r) s else (Ret (), s)))"

text \<open>The loop over the entries: the first entry for vsock is used, and \<open>main\<close> returns 0 if there is none.\<close>

fun guest_entries ::
    "'w guest \<Rightarrow> path \<Rightarrow> char \<Rightarrow> char \<Rightarrow> bytes \<Rightarrow> dbus_entry list \<Rightarrow> 'w gs \<Rightarrow> int outcome \<times> 'w gs" where
  "guest_entries G root junk junk' addr [] s = (Ret 0, s)"
| "guest_entries G root junk junk' addr (e # entries) s =
     (if e_method e \<noteq> ''vsock'' then guest_entries G root junk junk' addr entries s
      else
        (case e_value e ''port'' of
           None \<Rightarrow> gerr (MissingPort addr) s
         | Some port_str \<Rightarrow>
            (case parse_u32 (Some port_str) of
               Err e \<Rightarrow> gerr (AddressPort e) (s\<lparr>gerrno := e\<rparr>)
             | Ok port \<Rightarrow>
                (case connect_to_host G junk s of (r, s) \<Rightarrow>
                  (case r of
                     Panic \<Rightarrow> (Panic, s) | Exit n \<Rightarrow> (Exit n, s) | Diverge \<Rightarrow> (Diverge, s)
                   | Ret sock \<Rightarrow>
                      (case send_info G root sock port s of (r, s) \<Rightarrow>
                        (case r of
                           Panic \<Rightarrow> (Panic, s) | Exit n \<Rightarrow> (Exit n, s) | Diverge \<Rightarrow> (Diverge, s)
                         | Ret _ \<Rightarrow>
                            (case check_result G junk' sock s of (r, s) \<Rightarrow>
                              (case r of
                                 Panic \<Rightarrow> (Panic, s) | Exit n \<Rightarrow> (Exit n, s) | Diverge \<Rightarrow> (Diverge, s)
                               | Ret _ \<Rightarrow> (Ret 0, s))))))))))"

definition guest_main :: "'w guest \<Rightarrow> path \<Rightarrow> char \<Rightarrow> char \<Rightarrow> 'w gs \<Rightarrow> int outcome \<times> 'w gs" where
  "guest_main G root junk junk' s =
     (case g_getenv G ''DBUS_STARTER_ADDRESS'' of
        None \<Rightarrow> gerr StarterAddressNotSet s
      | Some addr \<Rightarrow>
         (case g_parse_address G addr of
            Err m \<Rightarrow> gerr (ParsingAddress addr m) s
          | Ok entries \<Rightarrow> guest_entries G root junk junk' addr entries s))"

section \<open>Writing\<close>

text \<open>
  The documented behaviour of a blocking stream socket that is connected to the host, with the unread input \<open>view\<close> of
  the world: a write takes at least one byte if there are any, a read of one byte takes it off the
  front, and returns nothing at the end.
\<close>

definition guest_socket :: "'w guest \<Rightarrow> nat \<Rightarrow> ('w \<Rightarrow> bytes) \<Rightarrow> bool" where
  "guest_socket G sock view \<longleftrightarrow>
     (\<forall>w. \<exists>w'. g_socket G w = (Ok sock, w') \<and> view w' = view w) \<and>
     (\<forall>cid port w. \<exists>w'. g_connect G sock cid port w = (Ok (), w') \<and> view w' = view w) \<and>
     (\<forall>b w. \<exists>n w'. g_write G sock b w = (Ok n, w') \<and> n \<le> length b \<and> (b \<noteq> [] \<longrightarrow> 0 < n) \<and> view w' = view w) \<and>
     (\<forall>w. \<exists>w'. g_read G sock 1 w = (Ok (take 1 (view w)), w') \<and> view w' = drop 1 (view w))"

text \<open>The bytes the kernel took.\<close>

definition gwritten :: "gevent list \<Rightarrow> bytes" where
  "gwritten evs = concat (map (\<lambda>e. case e of GvWrite _ b (Ok n) \<Rightarrow> take n b | _ \<Rightarrow> []) evs)"

lemma gwritten_simps [simp]:
  "gwritten [] = []" "gwritten (xs @ ys) = gwritten xs @ gwritten ys"
  "gwritten (e # evs) = (case e of GvWrite _ b (Ok n) \<Rightarrow> take n b | _ \<Rightarrow> []) @ gwritten evs"
  by (simp_all add: gwritten_def)

lemma write_all_done:
  assumes "guest_socket G fd view"
  shows "\<exists>t evs. write_all G fd buf s = Some (Ok (), t) \<and> gevents t = gevents s @ evs \<and> gwritten evs = buf \<and>
    view (gworld t) = view (gworld s)"
proof (induction "length buf" arbitrary: buf s rule: less_induct)
  case less
  obtain n w where n: "g_write G fd buf (gworld s) = (Ok n, w)" "n \<le> length buf" "buf \<noteq> [] \<Longrightarrow> 0 < n"
    "view w = view (gworld s)"
    using assms unfolding guest_socket_def by metis
  let ?u = "s\<lparr>gworld := w, gevents := gevents s @ [GvWrite fd buf (Ok n)]\<rparr>"
  have u: "gask (g_write G fd buf) (GvWrite fd buf) s = (Ok n, ?u)" using n by (simp add: gask_def)
  show ?case
  proof (cases "drop n buf = []")
    case True
    then have "write_all G fd buf s = Some (Ok (), ?u)" using u by (simp add: write_all.simps)
    moreover have "gwritten [GvWrite fd buf (Ok n)] = buf" using True by simp
    ultimately show ?thesis by (intro exI [of _ ?u] exI [of _ "[GvWrite fd buf (Ok n)]"]) (simp add: n(4))
  next
    case False
    then have "length (drop n buf) < length buf" using n(2,3) by (cases buf) auto
    from less.hyps [OF this, of ?u] obtain t evs where t: "write_all G fd (drop n buf) ?u = Some (Ok (), t)"
      "gevents t = gevents ?u @ evs" "gwritten evs = drop n buf"
      "view (gworld t) = view (gworld ?u)" by blast
    have "write_all G fd buf s = Some (Ok (), t)" using u False t(1) by (subst write_all.simps) simp
    moreover have "gwritten (GvWrite fd buf (Ok n) # evs) = buf" using t(3) by simp
    ultimately show ?thesis using t(2) by (intro exI [of _ t] exI [of _ "GvWrite fd buf (Ok n) # evs"]) (simp add: t(4) n(4))
  qed
qed

section \<open>The protocol\<close>

text \<open>The byte in a variable after a read of one byte into it.\<close>

definition read_into :: "char \<Rightarrow> bytes \<Rightarrow> char" where
  "read_into junk d = (case d of [] \<Rightarrow> junk | c # _ \<Rightarrow> c)"

lemma read_into_take [simp]: "read_into junk (take 1 d) = read_into junk d"
  by (cases d) (simp_all add: read_into_def)

lemma gread:
  assumes "guest_socket G sock view"
  shows "\<exists>t. gask (g_read G sock 1) (GvRead sock 1) s = (Ok (take 1 (view (gworld s))), t) \<and>
    gevents t = gevents s @ [GvRead sock 1 (Ok (take 1 (view (gworld s))))] \<and> view (gworld t) = drop 1 (view (gworld s))"
proof -
  obtain w' where "g_read G sock 1 (gworld s) = (Ok (take 1 (view (gworld s))), w')" "view w' = drop 1 (view (gworld s))"
    using assms unfolding guest_socket_def by blast
  then show ?thesis by (simp add: gask_def)
qed

lemma connect_to_host_done:
  assumes "guest_socket G sock view"
  shows "\<exists>t evs. connect_to_host G junk s = (if read_into junk (view (gworld s)) = CHR 0x01 then Ret sock else Exit 1, t) \<and>
    gevents t = gevents s @ evs \<and> gwritten evs = [CHR 0x01, CHR 0x01] \<and> view (gworld t) = drop 1 (view (gworld s))"
proof -
  obtain w1 where "g_socket G (gworld s) = (Ok sock, w1)" and v1: "view w1 = view (gworld s)"
    using assms unfolding guest_socket_def by blast
  then have 1: "gask (g_socket G) GvSocket s = (Ok sock, s\<lparr>gworld := w1, gevents := gevents s @ [GvSocket (Ok sock)]\<rparr>)"
    (is "_ = (_, ?s1)") by (simp add: gask_def)
  obtain w2 where "g_connect G sock VMADDR_CID_HOST HOST_PORT w1 = (Ok (), w2)" and v2: "view w2 = view w1"
    using assms unfolding guest_socket_def by blast
  then obtain s2 where 2: "gask (g_connect G sock VMADDR_CID_HOST HOST_PORT) (GvConnect sock VMADDR_CID_HOST HOST_PORT) ?s1 = (Ok (), s2)"
    "gevents s2 = gevents ?s1 @ [GvConnect sock VMADDR_CID_HOST HOST_PORT (Ok ())]" "gworld s2 = w2"
    by (simp add: gask_def)
  obtain s3 e3 where 3: "write_all G sock [CHR 0x01, CHR 0x01] s2 = Some (Ok (), s3)" "gevents s3 = gevents s2 @ e3"
    "gwritten e3 = [CHR 0x01, CHR 0x01]" "view (gworld s3) = view (gworld s2)" using write_all_done [OF assms] by blast
  then have v3: "view (gworld s3) = view (gworld s)" using v1 v2 2(3) by simp
  obtain s4 where 4: "gask (g_read G sock 1) (GvRead sock 1) s3 = (Ok (take 1 (view (gworld s))), s4)"
    "gevents s4 = gevents s3 @ [GvRead sock 1 (Ok (take 1 (view (gworld s))))]" "view (gworld s4) = drop 1 (view (gworld s))"
    using gread [OF assms, of s3] v3 by auto
  have v: "(case take 1 (view (gworld s)) of [] \<Rightarrow> junk | c # _ \<Rightarrow> c) = read_into junk (view (gworld s))"
    using read_into_take [of junk "view (gworld s)"] by (simp only: read_into_def)
  have evs: "gevents s4 = gevents s @ [GvSocket (Ok sock), GvConnect sock VMADDR_CID_HOST HOST_PORT (Ok ())] @ e3 @
      [GvRead sock 1 (Ok (take 1 (view (gworld s))))]" (is "_ = _ @ ?evs")
    using 2(2) 3(2) 4(2) by simp
  have w: "gwritten ?evs = [CHR 0x01, CHR 0x01]" using 3(3) by simp
  show ?thesis
  proof (cases "read_into junk (view (gworld s)) = CHR 0x01")
    case True
    with 1 2(1) 3(1) 4(1) v have "connect_to_host G junk s = (Ret sock, s4)" by (simp add: connect_to_host_def Let_def)
    with True evs w 4(3) show ?thesis by (intro exI [of _ s4] exI [of _ ?evs]) simp
  next
    case False
    let ?e = "GvErr (UnexpectedVersion (read_into junk (view (gworld s))) (gerrno s4))"
    from False 1 2(1) 3(1) 4(1) v have "connect_to_host G junk s = (Exit 1, s4\<lparr>gevents := gevents s4 @ [?e]\<rparr>)"
      by (simp add: connect_to_host_def Let_def gerr_def)
    with False evs w 4(3) show ?thesis by (intro exI [of _ "s4\<lparr>gevents := gevents s4 @ [?e]\<rparr>"] exI [of _ "?evs @ [?e]"]) simp
  qed
qed

lemma send_info_done:
  assumes "guest_socket G sock view"
  shows "\<exists>t evs. send_info G root sock port s = (Ret (), t) \<and> gevents t = gevents s @ evs \<and>
    gwritten evs = be_bytes port @ be_bytes (word_of_nat (length root)) @ root \<and> view (gworld t) = view (gworld s)"
proof -
  note w = write_all_done [OF assms]
  obtain s1 e1 where 1: "write_all G sock (be_bytes port) s = Some (Ok (), s1)" "gevents s1 = gevents s @ e1"
    "gwritten e1 = be_bytes port" "view (gworld s1) = view (gworld s)" using w by blast
  obtain s2 e2 where 2: "write_all G sock (be_bytes (word_of_nat (length root))) s1 = Some (Ok (), s2)"
    "gevents s2 = gevents s1 @ e2" "gwritten e2 = be_bytes (word_of_nat (length root))" "view (gworld s2) = view (gworld s1)"
    using w by blast
  obtain s3 e3 where 3: "write_all G sock root s2 = Some (Ok (), s3)" "gevents s3 = gevents s2 @ e3"
    "gwritten e3 = root" "view (gworld s3) = view (gworld s2)" using w by blast
  have "send_info G root sock port s = (Ret (), s3)" using 1(1) 2(1) 3(1) by (simp add: send_info_def)
  with 1 2 3 show ?thesis by (intro exI [of _ s3] exI [of _ "e1 @ e2 @ e3"]) simp
qed

lemma check_result_done:
  assumes "guest_socket G sock view"
  shows "\<exists>t evs. check_result G junk sock s = (if read_into junk (view (gworld s)) = NUL then Ret () else Exit 1, t) \<and>
    gevents t = gevents s @ evs \<and> gwritten evs = []"
proof -
  obtain t where t: "gask (g_read G sock 1) (GvRead sock 1) s = (Ok (take 1 (view (gworld s))), t)"
    "gevents t = gevents s @ [GvRead sock 1 (Ok (take 1 (view (gworld s))))]" using gread [OF assms] by blast
  have "(case take 1 (view (gworld s)) of [] \<Rightarrow> junk | c # _ \<Rightarrow> c) = read_into junk (view (gworld s))"
    using read_into_take [of junk "view (gworld s)"] by (simp only: read_into_def)
  with t show ?thesis by (simp add: check_result_def Let_def gerr_def)
qed

lemma guest_entries_skip:
  "list_all (\<lambda>e. e_method e \<noteq> ''vsock'') pre \<Longrightarrow>
   guest_entries G root junk junk' addr (pre @ es) s = guest_entries G root junk junk' addr es s"
  by (induction pre) simp_all

text \<open>What the program does once it knows the port, given the bytes the host sends.\<close>

lemma guest_main_done:
  assumes env: "g_getenv G ''DBUS_STARTER_ADDRESS'' = Some addr" "g_parse_address G addr = Ok (pre @ e # post)"
    and entry: "list_all (\<lambda>e. e_method e \<noteq> ''vsock'') pre" "e_method e = ''vsock''" "e_value e ''port'' = Some ps"
    and port: "parse_u32 (Some ps) = Ok port" and sock: "guest_socket G sock view"
  shows "\<exists>t evs. guest_main G root junk junk' s =
      (if read_into junk (view (gworld s)) = CHR 0x01 \<and> read_into junk' (drop 1 (view (gworld s))) = NUL
       then Ret 0 else Exit 1, t) \<and> gevents t = gevents s @ evs \<and>
    gwritten evs = [CHR 0x01, CHR 0x01] @
      (if read_into junk (view (gworld s)) = CHR 0x01
       then be_bytes port @ be_bytes (word_of_nat (length root)) @ root else [])"
proof -
  let ?v = "read_into junk (view (gworld s)) = CHR 0x01"
  have m: "guest_main G root junk junk' s = guest_entries G root junk junk' addr (e # post) s"
    using env guest_entries_skip [OF entry(1), of G root junk junk' addr "e # post" s]
    by (simp add: guest_main_def del: guest_entries.simps)
  obtain s1 e1 where 1: "connect_to_host G junk s = (if ?v then Ret sock else Exit 1, s1)" "gevents s1 = gevents s @ e1"
    "gwritten e1 = [CHR 0x01, CHR 0x01]" "view (gworld s1) = drop 1 (view (gworld s))"
    using connect_to_host_done [OF sock] by blast
  show ?thesis
  proof (cases ?v)
    case False
    with m 1 entry port show ?thesis by (intro exI [of _ s1] exI [of _ e1]) simp
  next
    case True
    obtain s2 e2 where 2: "send_info G root sock port s1 = (Ret (), s2)" "gevents s2 = gevents s1 @ e2"
      "gwritten e2 = be_bytes port @ be_bytes (word_of_nat (length root)) @ root" "view (gworld s2) = view (gworld s1)"
      using send_info_done [OF sock] by blast
    obtain s3 e3 where 3: "check_result G junk' sock s2 = (if read_into junk' (view (gworld s2)) = NUL then Ret () else Exit 1, s3)"
      "gevents s3 = gevents s2 @ e3" "gwritten e3 = []" using check_result_done [OF sock] by blast
    from True m 1 2 3 entry port show ?thesis by (intro exI [of _ s3] exI [of _ "e1 @ e2 @ e3"]) simp
  qed
qed

section \<open>Properties\<close>

text \<open>
  C38. The port is parsed exactly: the strings accepted are the non-empty strings of decimal digits whose value fits into a
  \<open>long\<close>, and the result is that value modulo 2 to the 32. So every 32-bit number is read back from its decimal
  digits, and larger numbers are not refused but reduced: 4294967297 is the port 1.
\<close>

theorem parse_u32_spec:
  "(parse_u32 (Some s) = Ok v \<longleftrightarrow> s \<noteq> [] \<and> list_all is_digit s \<and> undec s < 2 ^ 63 \<and> v = word_of_nat (undec s)) \<and>
   parse_u32 (Some (dec (unat v))) = Ok v \<and> parse_u32 (Some ''4294967297'') = Ok 1 \<and> parse_u32 None = Err EINVAL"
proof -
  have l: "LONG_MAX < int n \<longleftrightarrow> \<not> n < 2 ^ 63" for n by (auto simp: LONG_MAX_def)
  have spec: "parse_u32 (Some s) = Ok v \<longleftrightarrow> s \<noteq> [] \<and> list_all is_digit s \<and> undec s < 2 ^ 63 \<and> v = word_of_nat (undec s)" for s v
  proof (cases "s \<noteq> [] \<and> is_digit (hd s)")
    case True
    note st = strtol_digits [OF conjunct1 [OF True] conjunct2 [OF True]]
    have d: "dropWhile is_digit s = [] \<longleftrightarrow> list_all is_digit s" by (auto simp: list_all_iff)
    have t: "takeWhile is_digit s = s" if "list_all is_digit s" using takeWhile_digits(1) [OF that, of "[]"] by simp
    show ?thesis
    proof (cases "list_all is_digit s")
      case all: True
      have "parse_u32 (Some s) = (if undec s < 2 ^ 63 then Ok (word_of_nat (undec s)) else Err ERANGE)"
        using True all d l [of "undec s"]
        by (cases "undec s < 2 ^ 63") (simp_all add: parse_u32_def st t [OF all] Let_def min_absorb2)
      with True all show ?thesis by auto
    next
      case False
      with True d show ?thesis by (simp add: parse_u32_def st Let_def)
    qed
  next
    case False
    then show ?thesis by (cases s) (auto simp: parse_u32_def)
  qed
  have "unat v < 2 ^ 63" using unsigned_less [of v, where ?'a = nat] by simp
  then have "parse_u32 (Some (dec (unat v))) = Ok v" using spec [of "dec (unat v)" v] by simp
  moreover have "dec 4294967297 = ''4294967297''" by (simp add: fmt_eval)
  then have "undec ''4294967297'' = 4294967297" "list_all is_digit ''4294967297''"
    using undec_dec [of 4294967297] dec_digits_all [of 4294967297] by simp_all
  then have "parse_u32 (Some ''4294967297'') = Ok 1" using spec [of "''4294967297''" 1] by simp
  ultimately show ?thesis using spec by (simp add: parse_u32_def)
qed

text \<open>A guest with one D-Bus address, whose world is the input from the host.\<close>

definition vsock_entry :: dbus_entry where
  "vsock_entry = \<lparr>e_method = ''vsock'', e_value = [''port'' \<mapsto> ''1024'']\<rparr>"

definition guest0 :: "bytes guest" where
  "guest0 = \<lparr>g_getenv = \<lambda>_. Some ''vsock:port=1024'', g_parse_address = \<lambda>_. Ok [vsock_entry],
     g_socket = \<lambda>w. (Ok 3, w), g_connect = \<lambda>_ _ _ w. (Ok (), w), g_write = \<lambda>_ b w. (Ok (min 1 (length b)), w),
     g_read = \<lambda>_ n w. (Ok (take n w), drop n w)\<rparr>"

definition gs0 :: "bytes \<Rightarrow> bytes gs" where
  "gs0 w = \<lparr>gworld = w, gerrno = 0, gevents = []\<rparr>"

lemma guest0_socket: "guest_socket guest0 3 (\<lambda>w. w)"
  by (auto simp: guest_socket_def guest0_def)

lemma guest0_port: "parse_u32 (Some ''1024'') = Ok 1024"
proof -
  have "dec 1024 = ''1024''" by (simp add: fmt_eval)
  then have "undec ''1024'' = 1024" using undec_dec [of 1024] by simp
  then show ?thesis by (simp add: parse_u32_def strtol_digits is_digit_def LONG_MAX_def)
qed

lemma guest0_env: "g_getenv guest0 ''DBUS_STARTER_ADDRESS'' = Some ''vsock:port=1024''"
  "g_parse_address guest0 ''vsock:port=1024'' = Ok ([] @ vsock_entry # [])" "list_all (\<lambda>e. e_method e \<noteq> ''vsock'') []"
  "e_method vsock_entry = ''vsock''" "e_value vsock_entry ''port'' = Some ''1024''"
  by (simp_all add: guest0_def vsock_entry_def)



end
