(* ===== verification/RunVm.thy ===== *)
theory RunVm
  imports Sys
begin

text \<open>
  \<open>scripts/run-spectrum-vm.c\<close>: a development tool that runs \<open>start-vmm\<close> in a temporary directory as its root. The kernel is the record
  \<open>runner\<close>. The answers to \<open>fork\<close> decide which process is followed, as in the theory \<open>Fork\<close>. Almost all calls are
  alike: an error is printed and ends the process with the code 1. The names of the other programs, which the build sets, are the record
  \<open>programs\<close>. An answer \<open>Ok\<close> of an exec means that the process is another program from there on. Running out of memory
  in \<open>asprintf\<close> is not modelled.
\<close>

section \<open>The environment\<close>

datatype rv_call =
    RvChdir path
  | RvMkdir path
  | RvCreate path
  | RvSymlink bytes path
  | RvOpenWrite path
  | RvOpenPath path
  | RvDup2 nat nat
  | RvClose nat
  | RvUnshare
  | RvBindMount bytes path bool
  | RvChroot path
  | RvIgnore nat
  | RvSetPdeathsig nat
  | RvSigemptyset
  | RvSigaddset nat
  | RvSigprocmask
  | RvPoll nat

datatype rv_event =
    RvMkdtemp bytes "(path, errno) result"
  | RvPipe "(nat \<times> nat, errno) result"
  | RvFork "(nat, errno) result"
  | RvCall rv_call "(nat, errno) result"
  | RvExecRm "bytes list" "(unit, errno) result"
  | RvExecVirtiofsd bytes "bytes list" "(unit, errno) result"
  | RvExecStartVmm nat "bytes list" "bytes list" "(unit, errno) result"
  | RvWarn rv_call errno
  | RvErr errno

record programs =
  VIRTIOFSD_PATH :: bytes
  CONFIG_PATH :: bytes
  APPVM_PATH :: bytes
  START_VMM_PATH :: bytes
  CLOUD_HYPERVISOR_PATH :: bytes

record 'w runner =
  rv_getenv :: "bytes \<Rightarrow> bytes option"
  rv_getpid :: "'w \<Rightarrow> nat"
  rv_getppid :: "'w \<Rightarrow> nat"
  rv_mkdtemp :: "bytes \<Rightarrow> ('w, (path, errno) result) req"
  rv_pipe :: "('w, (nat \<times> nat, errno) result) req"
  rv_fork :: "('w, (nat, errno) result) req"
  rv_call :: "rv_call \<Rightarrow> ('w, (nat, errno) result) req"
  rv_execlp :: "bytes list \<Rightarrow> ('w, (unit, errno) result) req"
  rv_execv :: "bytes \<Rightarrow> bytes list \<Rightarrow> ('w, (unit, errno) result) req"
  rv_fexecve :: "nat \<Rightarrow> bytes list \<Rightarrow> bytes list \<Rightarrow> ('w, (unit, errno) result) req"

record 'w rs =
  rworld :: 'w
  revents :: "rv_event list"

definition rask :: "('w, 'r) req \<Rightarrow> ('r \<Rightarrow> rv_event) \<Rightarrow> 'w rs \<Rightarrow> 'r \<times> 'w rs" where
  "rask f ev s = (case f (rworld s) of (r, w) \<Rightarrow> (r, s\<lparr>rworld := w, revents := revents s @ [ev r]\<rparr>))"

definition rerr :: "errno \<Rightarrow> 'w rs \<Rightarrow> 'a outcome \<times> 'w rs" where
  "rerr e s = (Exit 1, s\<lparr>revents := revents s @ [RvErr e]\<rparr>)"

definition call :: "'w runner \<Rightarrow> rv_call \<Rightarrow> 'w rs \<Rightarrow> (nat, errno) result \<times> 'w rs" where
  "call K c s = rask (rv_call K c) (RvCall c) s"

text \<open>A call whose failure ends the process, and a sequence of them.\<close>

definition must :: "'w runner \<Rightarrow> rv_call \<Rightarrow> 'w rs \<Rightarrow> nat outcome \<times> 'w rs" where
  "must K c s = (case call K c s of (Err e, s) \<Rightarrow> rerr e s | (Ok n, s) \<Rightarrow> (Ret n, s))"

fun must_all :: "'w runner \<Rightarrow> rv_call list \<Rightarrow> 'w rs \<Rightarrow> unit outcome \<times> 'w rs" where
  "must_all K [] s = (Ret (), s)"
| "must_all K (c # cs) s =
     (case must K c s of (r, s) \<Rightarrow>
       (case r of
          Panic \<Rightarrow> (Panic, s) | Exit n \<Rightarrow> (Exit n, s) | Diverge \<Rightarrow> (Diverge, s)
        | Ret _ \<Rightarrow> must_all K cs s))"

text \<open>
  Sequencing of parts of \<open>main\<close>: the second is run if the first returns.
\<close>

definition andthen :: "('a outcome \<times> 'w rs) \<Rightarrow> ('a \<Rightarrow> 'w rs \<Rightarrow> 'b outcome \<times> 'w rs) \<Rightarrow> 'b outcome \<times> 'w rs" where
  "andthen rs f =
     (case rs of (r, s) \<Rightarrow>
       (case r of Panic \<Rightarrow> (Panic, s) | Exit n \<Rightarrow> (Exit n, s) | Diverge \<Rightarrow> (Diverge, s) | Ret a \<Rightarrow> f a s))"

section \<open>The program\<close>

definition SIGINT :: nat where "SIGINT = 2"
definition SIGTERM :: nat where "SIGTERM = 15"
definition POLLERR :: nat where "POLLERR = 8"

definition tmpdir :: "'w runner \<Rightarrow> path" where
  "tmpdir K = (case rv_getenv K ''TMPDIR'' of None \<Rightarrow> ''/tmp'' | Some d \<Rightarrow> d)"

text \<open>Ignoring a signal; a failure is only a warning.\<close>

definition ignore_signal :: "'w runner \<Rightarrow> nat \<Rightarrow> 'w rs \<Rightarrow> 'w rs" where
  "ignore_signal K sig s =
     (case call K (RvIgnore sig) s of
        (Err e, s) \<Rightarrow> s\<lparr>revents := revents s @ [RvWarn (RvIgnore sig) e]\<rparr>
      | (Ok _, s) \<Rightarrow> s)"

partial_function (option) poll_hangup :: "'w runner \<Rightarrow> nat \<Rightarrow> 'w rs \<Rightarrow> ((nat, errno) result \<times> 'w rs) option" where
  "poll_hangup K fd s =
     (case call K (RvPoll fd) s of (r, s) \<Rightarrow>
       (case r of
          Ok bits \<Rightarrow> Some (Ok bits, s)
        | Err e \<Rightarrow> if e = EINTR \<or> e = EAGAIN then poll_hangup K fd s else Some (Err e, s)))"

text \<open>The failed assertion is a panic. \<open>Ret\<close> is the process having become another program.\<close>

definition exit_listener_main :: "'w runner \<Rightarrow> nat \<Rightarrow> path \<Rightarrow> 'w rs \<Rightarrow> unit outcome \<times> 'w rs" where
  "exit_listener_main K fd dir_path s =
     (let s = ignore_signal K SIGTERM (ignore_signal K SIGINT s) in
      case poll_hangup K fd s of
        None \<Rightarrow> (Diverge, s)
      | Some (Err e, s) \<Rightarrow> rerr e s
      | Some (Ok bits, s) \<Rightarrow>
          if bits \<noteq> POLLERR then (Panic, s)
          else
            (case rask (rv_execlp K [''rm'', ''-rf'', ''--'', dir_path]) (RvExecRm [''rm'', ''-rf'', ''--'', dir_path]) s of
               (Err e, s) \<Rightarrow> rerr e s
             | (Ok _, s) \<Rightarrow> (Ret (), s)))"

text \<open>Whether the process goes on with \<open>main\<close>; the other one has become another program.\<close>

definition exit_listener_setup :: "'w runner \<Rightarrow> path \<Rightarrow> 'w rs \<Rightarrow> bool outcome \<times> 'w rs" where
  "exit_listener_setup K dir_path s =
     (case rask (rv_pipe K) RvPipe s of
        (Err e, s) \<Rightarrow> rerr e s
      | (Ok fd, s) \<Rightarrow>
         (case rask (rv_fork K) RvFork s of
            (Err e, s) \<Rightarrow>
              (case call K (RvClose (fst fd)) s of (_, s) \<Rightarrow> (case call K (RvClose (snd fd)) s of (_, s) \<Rightarrow> rerr e s))
          | (Ok pid, s) \<Rightarrow>
              if pid = 0 then
                (case call K (RvClose (fst fd)) s of (_, s) \<Rightarrow>
                   andthen (exit_listener_main K (snd fd) dir_path s) (\<lambda>_ s. (Ret False, s)))
              else (case call K (RvClose (snd fd)) s of (_, s) \<Rightarrow> (Ret True, s))))"

definition virtiofsd_argv :: "bytes list" where
  "virtiofsd_argv = [''virtiofsd'', ''--socket-path'', ''../vm-fs-virtiofs0/env/virtiofsd.sock'', ''--sandbox'', ''none'',
     ''--shared-dir'', ''/'']"

definition spawn_virtiofsd :: "'w runner \<Rightarrow> programs \<Rightarrow> 'w rs \<Rightarrow> bool outcome \<times> 'w rs" where
  "spawn_virtiofsd K P s =
     (let ppid = rv_getpid K (rworld s) in
      case rask (rv_fork K) RvFork s of
        (Err e, s) \<Rightarrow> rerr e s
      | (Ok pid, s) \<Rightarrow>
          if pid \<noteq> 0 then (Ret True, s)
          else
            andthen (must K (RvSetPdeathsig SIGTERM) s) (\<lambda>_ s.
              if rv_getppid K (rworld s) \<noteq> ppid then (Exit 0, s)
              else
                andthen (must_all K [RvSigemptyset, RvSigaddset SIGINT, RvSigprocmask] s) (\<lambda>_ s.
                  (case rask (rv_execv K (VIRTIOFSD_PATH P) virtiofsd_argv) (RvExecVirtiofsd (VIRTIOFSD_PATH P) virtiofsd_argv) s of
                     (Err e, s) \<Rightarrow> rerr e s
                   | (Ok _, s) \<Rightarrow> (Ret False, s)))))"

text \<open>The calls of \<open>main\<close> that prepare the directory, and those that enter it.\<close>

definition prepare_calls :: "programs \<Rightarrow> path \<Rightarrow> rv_call list" where
  "prepare_calls P dir_path =
     [RvChdir dir_path, RvMkdir ''bin'', RvMkdir ''dev'', RvMkdir ''nix'', RvMkdir ''proc'', RvMkdir ''run'',
      RvMkdir ''vm-fs-virtiofs0'', RvMkdir ''vm-fs-virtiofs0/env'', RvMkdir ''vm'', RvCreate ''bin/cloud-hypervisor'',
      RvChdir ''vm'', RvMkdir ''env'', RvMkdir ''data'', RvSymlink (CONFIG_PATH P) ''data/config'', RvSymlink (APPVM_PATH P) ''../usr'']"

definition enter_calls :: "programs \<Rightarrow> path \<Rightarrow> rv_call list" where
  "enter_calls P dir_path =
     [RvUnshare, RvBindMount (CLOUD_HYPERVISOR_PATH P) ''../bin/cloud-hypervisor'' False, RvBindMount ''/dev'' ''../dev'' True,
      RvBindMount ''/nix'' ''../nix'' True, RvBindMount ''/proc'' ''../proc'' True, RvChroot dir_path]"

text \<open>Descriptor 3, on which readiness is signalled, is \<open>/dev/null\<close>.\<close>

definition null_as_3 :: "'w runner \<Rightarrow> 'w rs \<Rightarrow> unit outcome \<times> 'w rs" where
  "null_as_3 K s =
     andthen (must K (RvOpenWrite ''/dev/null'') s) (\<lambda>fd s.
       andthen (must K (RvDup2 fd 3) s) (\<lambda>_ s.
         if fd \<noteq> 3 then (case call K (RvClose fd) s of (_, s) \<Rightarrow> (Ret (), s)) else (Ret (), s)))"

definition start_vmm_argv :: "bytes list" where
  "start_vmm_argv = [''start-vmm'']"

definition exec_start_vmm :: "'w runner \<Rightarrow> programs \<Rightarrow> path \<Rightarrow> 'w rs \<Rightarrow> unit outcome \<times> 'w rs" where
  "exec_start_vmm K P dir_path s =
     andthen (must K (RvOpenPath (START_VMM_PATH P)) s) (\<lambda>fd s.
       andthen (must_all K (enter_calls P dir_path) s) (\<lambda>_ s.
         (case rask (rv_fexecve K fd start_vmm_argv [''PATH=/bin'']) (RvExecStartVmm fd start_vmm_argv [''PATH=/bin'']) s of
            (Err e, s) \<Rightarrow> rerr e s
          | (Ok _, s) \<Rightarrow> (Ret (), s))))"

definition run_vm_main :: "'w runner \<Rightarrow> programs \<Rightarrow> 'w rs \<Rightarrow> unit outcome \<times> 'w rs" where
  "run_vm_main K P s =
     (let template = tmpdir K @ ''/run-spectrum-vm.XXXXXX'' in
      case rask (rv_mkdtemp K template) (RvMkdtemp template) s of
        (Err e, s) \<Rightarrow> rerr e s
      | (Ok dir_path, s) \<Rightarrow>
          andthen (exit_listener_setup K dir_path s) (\<lambda>go s.
            if \<not> go then (Ret (), s)
            else
              andthen (must_all K (prepare_calls P dir_path) s) (\<lambda>_ s.
                andthen (spawn_virtiofsd K P s) (\<lambda>go s.
                  if \<not> go then (Ret (), s)
                  else andthen (null_as_3 K s) (\<lambda>_ s. exec_start_vmm K P dir_path s)))))"

section \<open>What the parts do\<close>

text \<open>The executions of \<open>start-vmm\<close> and of \<open>rm\<close>, and the calls that succeeded, apart from closing.\<close>

definition is_exec :: "rv_event \<Rightarrow> bool" where
  "is_exec e \<longleftrightarrow> (case e of RvExecStartVmm _ _ _ _ \<Rightarrow> True | RvExecRm _ _ \<Rightarrow> True | _ \<Rightarrow> False)"

definition done_calls :: "rv_event list \<Rightarrow> rv_call list" where
  "done_calls evs = concat (map (\<lambda>e. case e of RvCall c (Ok _) \<Rightarrow> (case c of RvClose _ \<Rightarrow> [] | _ \<Rightarrow> [c]) | _ \<Rightarrow> []) evs)"

lemma done_calls_simps [simp]:
  "done_calls [] = []" "done_calls (xs @ ys) = done_calls xs @ done_calls ys"
  "done_calls (e # evs) = (case e of RvCall c (Ok _) \<Rightarrow> (case c of RvClose _ \<Rightarrow> [] | _ \<Rightarrow> [c]) | _ \<Rightarrow> []) @ done_calls evs"
  by (simp_all add: done_calls_def)

lemma is_exec_simps [simp]:
  "\<not> is_exec (RvMkdtemp tpl d)" "\<not> is_exec (RvPipe p)" "\<not> is_exec (RvFork f)" "\<not> is_exec (RvCall c r)" "is_exec (RvExecRm args q)"
  "\<not> is_exec (RvExecVirtiofsd prog args q)" "is_exec (RvExecStartVmm fd args env q)" "\<not> is_exec (RvWarn c x)" "\<not> is_exec (RvErr x)"
  by (simp_all add: is_exec_def)

text \<open>
  \<open>part_log s go t cs\<close>: from \<open>s\<close> to \<open>t\<close> neither was executed; and if the part of the program goes on after
  that, the calls \<open>cs\<close> have succeeded and nothing has failed, closing apart.
\<close>

definition fails :: "rv_event \<Rightarrow> bool" where
  "fails e \<longleftrightarrow> (case e of RvCall c (Err _) \<Rightarrow> (case c of RvClose _ \<Rightarrow> False | _ \<Rightarrow> True) | RvErr _ \<Rightarrow> True | RvFork (Err _) \<Rightarrow> True
     | RvPipe (Err _) \<Rightarrow> True | RvMkdtemp _ (Err _) \<Rightarrow> True | _ \<Rightarrow> False)"

definition part_log :: "'w rs \<Rightarrow> bool \<Rightarrow> 'w rs \<Rightarrow> rv_call list \<Rightarrow> bool" where
  "part_log s go t cs \<longleftrightarrow> (\<exists>evs. revents t = revents s @ evs \<and> list_all (\<lambda>e. \<not> is_exec e) evs \<and>
     (go \<longrightarrow> done_calls evs = cs \<and> list_all (\<lambda>e. \<not> fails e) evs))"

lemma part_log_refl [simp]: "part_log s True s []"
  by (simp add: part_log_def)

lemma part_log_trans: "part_log s True t cs \<Longrightarrow> part_log t go u ds \<Longrightarrow> part_log s go u (cs @ ds)"
  unfolding part_log_def by force

lemma part_log_stop: "part_log s go t cs \<Longrightarrow> part_log s False t ds"
  unfolding part_log_def by blast

fun plain_call :: "rv_call \<Rightarrow> bool" where
  "plain_call (RvClose _) = False"
| "plain_call _ = True"

lemma must_part:
  assumes "must K c s = (r, t)" "plain_call c"
  shows "part_log s (\<exists>n. r = Ret n) t [c]"
  using assms
  by (cases c) (auto simp: must_def call_def rask_def rerr_def part_log_def fails_def split: prod.splits result.splits)

lemma must_outcome: "must K c s = (r, t) \<Longrightarrow> (\<exists>n. r = Ret n) \<or> r = Exit 1"
  by (auto simp: must_def rerr_def split: prod.splits result.splits)

lemma must_all_part:
  assumes "must_all K cs s = (r, t)" "list_all plain_call cs"
  shows "part_log s (r = Ret ()) t cs \<and> (r = Ret () \<or> r = Exit 1)"
  using assms
proof (induction cs arbitrary: s)
  case (Cons c cs)
  obtain q u where u: "must K c s = (q, u)" by force
  from must_part [OF u] Cons.prems have p: "part_log s (\<exists>n. q = Ret n) u [c]" by simp
  show ?case
  proof (cases "\<exists>n. q = Ret n")
    case True
    with Cons.prems u have "must_all K cs u = (r, t)" by auto
    with Cons.IH Cons.prems have "part_log u (r = Ret ()) t cs \<and> (r = Ret () \<or> r = Exit 1)" by simp
    with p True part_log_trans [of s u "[c]"] show ?thesis by auto
  next
    case False
    with must_outcome [OF u] Cons.prems(1) u have "r = Exit 1" "t = u" by auto
    with p show ?thesis by (auto intro: part_log_stop)
  qed
qed simp

lemma call_close_part: "call K (RvClose fd) s = (r, t) \<Longrightarrow> part_log s True t []"
  by (auto simp: call_def rask_def part_log_def fails_def split: prod.splits result.splits)

lemma ignore_signal_part: "part_log s False (ignore_signal K sig s) []"
  by (auto simp: ignore_signal_def call_def rask_def part_log_def split: prod.splits result.splits)

lemma part_log_trans_stop: "part_log s go t cs \<Longrightarrow> part_log t go' u ds \<Longrightarrow> part_log s False u []"
  unfolding part_log_def by force

lemma poll_hangup_log:
  assumes ret: "poll_hangup K fd s = Some (r, t)"
  shows "\<exists>evs. revents t = revents s @ evs \<and> list_all (\<lambda>e. \<not> is_exec e) evs \<and> RvCall (RvPoll fd) r \<in> set evs"
proof -
  let ?P = "\<lambda>K fd s x. \<exists>evs. revents (snd x) = revents s @ evs \<and> list_all (\<lambda>e. \<not> is_exec e) evs \<and>
    RvCall (RvPoll fd) (fst x) \<in> set evs"
  have "?P K fd s (r, t)"
  proof (rule poll_hangup.raw_induct [where P = ?P, OF _ ret])
    fix f K fd s x
    assume IH: "\<And>K fd s y. f K fd s = Some y \<Longrightarrow> ?P K fd s y"
      and eq: "(case call K (RvPoll fd) s of (r, s) \<Rightarrow>
         (case r of Ok bits \<Rightarrow> Some (Ok bits, s)
          | Err e \<Rightarrow> if e = EINTR \<or> e = EAGAIN then f K fd s else Some (Err e, s))) = Some x"
    obtain q u where u: "call K (RvPoll fd) s = (q, u)" by force
    then have ev: "revents u = revents s @ [RvCall (RvPoll fd) q]" by (auto simp: call_def rask_def split: prod.splits)
    show "?P K fd s x"
    proof (cases "f K fd u = Some x")
      case True
      from IH [OF this] obtain evs where "revents (snd x) = revents u @ evs" "list_all (\<lambda>e. \<not> is_exec e) evs"
        "RvCall (RvPoll fd) (fst x) \<in> set evs" by blast
      with ev show ?thesis by (intro exI [of _ "RvCall (RvPoll fd) q # evs"]) simp
    next
      case False
      then have "x = (q, u)" using eq u by (auto split: result.splits if_splits)
      with ev show ?thesis by simp
    qed
  qed
  then show ?thesis by simp
qed

text \<open>The wait ends with the first answer that is not an interruption.\<close>

definition retried :: "(nat, errno) result \<Rightarrow> bool" where
  "retried r \<longleftrightarrow> r = Err EINTR \<or> r = Err EAGAIN"

lemma poll_hangup_returns:
  assumes "\<And>k. w (Suc k) = snd (rv_call K (RvPoll fd) (w k))" "w 0 = rworld s"
    "\<And>k. k < n \<Longrightarrow> retried (fst (rv_call K (RvPoll fd) (w k)))" "\<not> retried (fst (rv_call K (RvPoll fd) (w n)))"
  shows "\<exists>t. poll_hangup K fd s = Some (fst (rv_call K (RvPoll fd) (w n)), t)"
  using assms
proof (induction n arbitrary: w s)
  case 0
  then show ?case
    by (subst poll_hangup.simps) (auto simp: call_def rask_def retried_def split: prod.splits result.splits)
next
  case (Suc n)
  obtain q u where u: "call K (RvPoll fd) s = (q, u)" by force
  with Suc.prems(1,2) have w: "q = fst (rv_call K (RvPoll fd) (w 0))" "rworld u = w (Suc 0)"
    by (auto simp: call_def rask_def split: prod.splits)
  have "retried q" using Suc.prems(3) [of 0] w(1) by simp
  with u have "poll_hangup K fd s = poll_hangup K fd u" by (subst poll_hangup.simps) (auto simp: retried_def)
  moreover have "\<exists>t. poll_hangup K fd u = Some (fst (rv_call K (RvPoll fd) (w (Suc n))), t)"
  proof (intro Suc.IH [of "\<lambda>k. w (Suc k)"])
    show "retried (fst (rv_call K (RvPoll fd) (w (Suc k))))" if "k < n" for k using that by (intro Suc.prems(3)) simp
  qed (rule Suc.prems(1) w(2) [symmetric] Suc.prems(4))+
  ultimately show ?case by simp
qed

text \<open>A log in which \<open>rm\<close> is executed at most once, on \<open>dir\<close>, and only after the other end of the pipe was closed.\<close>

definition removes_once :: "path \<Rightarrow> rv_event list \<Rightarrow> bool" where
  "removes_once dir evs \<longleftrightarrow> list_all (\<lambda>e. \<not> is_exec e) evs \<or>
     (\<exists>pre post q fd. evs = pre @ RvExecRm [''rm'', ''-rf'', ''--'', dir] q # post \<and> list_all (\<lambda>e. \<not> is_exec e) (pre @ post) \<and>
        RvCall (RvPoll fd) (Ok POLLERR) \<in> set pre)"

lemma removes_once_extend:
  assumes "list_all (\<lambda>e. \<not> is_exec e) xs" "removes_once dir evs"
  shows "removes_once dir (xs @ evs)"
  using assms(2) unfolding removes_once_def
proof (elim disjE exE conjE)
  fix pre post q fd
  assume "evs = pre @ RvExecRm [''rm'', ''-rf'', ''--'', dir] q # post" "list_all (\<lambda>e. \<not> is_exec e) (pre @ post)"
    "RvCall (RvPoll fd) (Ok POLLERR) \<in> set pre"
  with assms(1) show "list_all (\<lambda>e. \<not> is_exec e) (xs @ evs) \<or> (\<exists>pre post q fd. xs @ evs = pre @ RvExecRm [''rm'', ''-rf'', ''--'', dir] q # post \<and>
      list_all (\<lambda>e. \<not> is_exec e) (pre @ post) \<and> RvCall (RvPoll fd) (Ok POLLERR) \<in> set pre)"
    by (intro disjI2 exI [of _ "xs @ pre"] exI [of _ post] exI [of _ q] exI [of _ fd]) simp
qed (use assms(1) in simp)

lemma hangup_log:
  assumes "exit_listener_main K fd dir s = (r, t)"
  shows "\<exists>evs. revents t = revents s @ evs \<and> removes_once dir evs"
proof -
  define u where "u = ignore_signal K SIGTERM (ignore_signal K SIGINT s)"
  have u: "part_log s False u []" unfolding u_def by (rule part_log_trans_stop [OF ignore_signal_part ignore_signal_part])
  then obtain e0 where e0: "revents u = revents s @ e0" "list_all (\<lambda>e. \<not> is_exec e) e0" by (auto simp: part_log_def)
  show ?thesis
  proof (cases "poll_hangup K fd u")
    case None
    with assms have "t = u" by (simp add: exit_listener_main_def Let_def u_def)
    with e0 show ?thesis by (auto simp: removes_once_def)
  next
    case (Some x)
    obtain q v where x: "x = (q, v)" by force
    with Some poll_hangup_log [of K fd u q v] obtain e1 where
      e1: "revents v = revents u @ e1" "list_all (\<lambda>e. \<not> is_exec e) e1" "RvCall (RvPoll fd) q \<in> set e1" by auto
    let ?rm = "[''rm'', ''-rf'', ''--'', dir]"
    obtain y z where z: "rask (rv_execlp K ?rm) (RvExecRm ?rm) v = (y, z)" by force
    then have rz: "revents z = revents v @ [RvExecRm ?rm y]" by (auto simp: rask_def split: prod.splits)
    have t: "\<exists>post. revents t = revents (if q = Ok POLLERR then z else v) @ post \<and> list_all (\<lambda>e. \<not> is_exec e) post"
      using assms Some x z by (cases q; cases y) (auto simp: exit_listener_main_def Let_def u_def [symmetric] rerr_def)
    then obtain post where post: "revents t = revents (if q = Ok POLLERR then z else v) @ post" "list_all (\<lambda>e. \<not> is_exec e) post" by blast
    have "removes_once dir (e1 @ (if q = Ok POLLERR then [RvExecRm ?rm y] else []) @ post)"
    proof (cases "q = Ok POLLERR")
      case True
      with e1 post(2) show ?thesis unfolding removes_once_def
        by (intro disjI2 exI [of _ e1] exI [of _ post] exI [of _ y] exI [of _ fd]) simp
    next
      case False
      with e1 post(2) show ?thesis by (simp add: removes_once_def)
    qed
    from removes_once_extend [OF e0(2) this] post(1) e0(1) e1(1) rz show ?thesis
      by (intro exI [of _ "e0 @ e1 @ (if q = Ok POLLERR then [RvExecRm ?rm y] else []) @ post"]) simp
  qed
qed

text \<open>The two processes that start from \<open>exit_listener_setup\<close>.\<close>

lemma listener_log:
  assumes "exit_listener_setup K dir s = (r, t)"
  shows "\<exists>evs. revents t = revents s @ evs \<and> removes_once dir evs \<and> (r = Ret True \<longrightarrow> part_log s True t [])"
proof -
  obtain p u where u: "rask (rv_pipe K) RvPipe s = (p, u)" by force
  then have ru: "revents u = revents s @ [RvPipe p]" by (auto simp: rask_def split: prod.splits)
  show ?thesis
  proof (cases p)
    case (Err e)
    with assms u ru show ?thesis by (auto simp: exit_listener_setup_def rerr_def removes_once_def)
  next
    case (Ok fd)
    obtain f v where v: "rask (rv_fork K) RvFork u = (f, v)" by force
    then have rv: "revents v = revents u @ [RvFork f]" by (auto simp: rask_def split: prod.splits)
    have cl: "\<exists>q. revents t = revents s @ [RvCall (RvClose fd) q]" if "call K (RvClose fd) s = (q', t)" for fd s q' t
      using that by (auto simp: call_def rask_def split: prod.splits)
    obtain q1 v1 where v1: "call K (RvClose (fst fd)) v = (q1, v1)" by force
    obtain q2 v2 where v2: "call K (RvClose (snd fd)) v1 = (q2, v2)" by force
    obtain q3 v3 where v3: "call K (RvClose (snd fd)) v = (q3, v3)" by force
    obtain a1 a2 a3 where c: "revents v1 = revents v @ [RvCall (RvClose (fst fd)) a1]" "revents v2 = revents v1 @ [RvCall (RvClose (snd fd)) a2]"
      "revents v3 = revents v @ [RvCall (RvClose (snd fd)) a3]" using cl [OF v1] cl [OF v2] cl [OF v3] by blast
    consider (err) e where "f = Err e" | (child) "f = Ok 0" | (parent) n where "f = Ok n" "n \<noteq> 0" by (cases f) auto
    then show ?thesis
    proof cases
      case err
      with assms u Ok v v1 v2 c rv ru show ?thesis by (auto simp: exit_listener_setup_def rerr_def removes_once_def)
    next
      case child
      obtain q w where w: "exit_listener_main K (snd fd) dir v1 = (q, w)" by force
      from hangup_log [OF w] obtain evs where evs: "revents w = revents v1 @ evs" "removes_once dir evs" by blast
      have "t = w \<and> r \<noteq> Ret True" using assms u Ok v v1 child w
        by (auto simp: exit_listener_setup_def andthen_def split: outcome.splits)
      moreover have "revents w = revents s @ [RvPipe p, RvFork f, RvCall (RvClose (fst fd)) a1] @ evs" using evs(1) c(1) rv ru by simp
      moreover have "removes_once dir ([RvPipe p, RvFork f, RvCall (RvClose (fst fd)) a1] @ evs)"
        by (rule removes_once_extend [OF _ evs(2)]) simp
      ultimately show ?thesis by blast
    next
      case parent
      with assms u Ok v v3 have "t = v3" by (simp add: exit_listener_setup_def)
      with c(3) rv ru have "revents t = revents s @ [RvPipe p, RvFork f, RvCall (RvClose (snd fd)) a3]" by simp
      with Ok parent show ?thesis by (auto simp: removes_once_def part_log_def fails_def split: result.splits)
    qed
  qed
qed

lemma andthen_cases:
  assumes "andthen (q, u) f = (r, t)"
  obtains a where "q = Ret a" "f a u = (r, t)" | "t = u" "\<nexists>a. q = Ret a" "\<nexists>a. r = Ret a"
  using assms by (auto simp: andthen_def split: outcome.splits)

lemma part_log_any: "part_log s go t cs \<Longrightarrow> (go' \<Longrightarrow> go) \<Longrightarrow> part_log s go' t cs"
  unfolding part_log_def by blast

lemma spawn_virtiofsd_part:
  assumes "spawn_virtiofsd K P s = (r, t)"
  shows "part_log s (r = Ret True) t []"
proof -
  obtain f u where u: "rask (rv_fork K) RvFork s = (f, u)" by force
  then have ru: "revents u = revents s @ [RvFork f]" by (auto simp: rask_def split: prod.splits)
  then have pu: "part_log s False u []" by (simp add: part_log_def)
  consider (err) e where "f = Err e" | (child) "f = Ok 0" | (parent) n where "f = Ok n" "n \<noteq> 0" by (cases f) auto
  then show ?thesis
  proof cases
    case err
    with assms u ru show ?thesis by (auto simp: spawn_virtiofsd_def rerr_def part_log_def)
  next
    case child
    obtain q v where v: "must K (RvSetPdeathsig SIGTERM) u = (q, v)" by force
    have pv: "part_log s False v []" by (rule part_log_trans_stop [OF pu must_part [OF v]]) simp
    obtain q' w where w: "must_all K [RvSigemptyset, RvSigaddset SIGINT, RvSigprocmask] v = (q', w)" by force
    have pw: "part_log s False w []"
      using part_log_trans_stop [OF pv conjunct1 [OF must_all_part [OF w]]] by simp
    obtain y z where z: "rask (rv_execv K (VIRTIOFSD_PATH P) virtiofsd_argv) (RvExecVirtiofsd (VIRTIOFSD_PATH P) virtiofsd_argv) w = (y, z)"
      by force
    then have "revents z = revents w @ [RvExecVirtiofsd (VIRTIOFSD_PATH P) virtiofsd_argv y]" by (auto simp: rask_def split: prod.splits)
    then have "part_log w False z []" "part_log w False (z\<lparr>revents := revents z @ [RvErr e]\<rparr>) []" for e
      by (simp_all add: part_log_def)
    with pw have pz: "part_log s False z []" "part_log s False (z\<lparr>revents := revents z @ [RvErr e]\<rparr>) []" for e
      by (blast intro: part_log_trans_stop)+
    have "r \<noteq> Ret True \<and> part_log s False t []"
      using assms u child v w z pv pw pz
      by (auto simp: spawn_virtiofsd_def Let_def andthen_def rerr_def split: outcome.splits result.splits if_splits)
    then show ?thesis by simp
  next
    case parent
    with assms u ru show ?thesis by (auto simp: spawn_virtiofsd_def part_log_def fails_def)
  qed
qed

lemma null_as_3_part:
  assumes "null_as_3 K s = (r, t)"
  shows "\<exists>fd. part_log s (r = Ret ()) t [RvOpenWrite ''/dev/null'', RvDup2 fd 3]"
proof -
  obtain q u where u: "must K (RvOpenWrite ''/dev/null'') s = (q, u)" by force
  note pu = must_part [OF u]
  show ?thesis
  proof (cases "\<exists>fd. q = Ret fd")
    case False
    with assms u have "t = u" "r \<noteq> Ret ()" by (auto simp: null_as_3_def andthen_def split: outcome.splits)
    with pu False show ?thesis by (auto intro: part_log_stop)
  next
    case True
    then obtain fd where fd: "q = Ret fd" by blast
    obtain q' v where v: "must K (RvDup2 fd 3) u = (q', v)" by force
    have pv: "part_log s (\<exists>n. q' = Ret n) v [RvOpenWrite ''/dev/null'', RvDup2 fd 3]"
      using part_log_trans [of s u "[RvOpenWrite ''/dev/null'']", OF _ must_part [OF v]] pu fd by simp
    show ?thesis
    proof (cases "\<exists>n. q' = Ret n")
      case False
      with assms u fd v have "t = v" "r \<noteq> Ret ()" by (auto simp: null_as_3_def andthen_def split: outcome.splits)
      with pv False show ?thesis by (auto intro: part_log_stop)
    next
      case q': True
      obtain x w where w: "call K (RvClose fd) v = (x, w)" by force
      have "part_log v True t []" "r = Ret ()"
        using assms u fd v q' w call_close_part [OF w] by (auto simp: null_as_3_def andthen_def split: if_splits)
      with part_log_trans [of s v "[RvOpenWrite ''/dev/null'', RvDup2 fd 3]" True t "[]"] pv q' show ?thesis by auto
    qed
  qed
qed

lemma exec_start_vmm_log:
  assumes "exec_start_vmm K P dir s = (r, t)"
  shows "part_log s False t [] \<or> (\<exists>u fd q post. part_log s True u (RvOpenPath (START_VMM_PATH P) # enter_calls P dir) \<and>
    revents t = revents u @ RvExecStartVmm fd [''start-vmm''] [''PATH=/bin''] q # post \<and> list_all (\<lambda>e. \<not> is_exec e) post)"
proof -
  obtain q u where u: "must K (RvOpenPath (START_VMM_PATH P)) s = (q, u)" by force
  note pu = must_part [OF u]
  show ?thesis
  proof (cases "\<exists>fd. q = Ret fd")
    case False
    with assms u have "t = u" by (auto simp: exec_start_vmm_def andthen_def split: outcome.splits)
    with pu show ?thesis by (auto intro: part_log_stop)
  next
    case True
    then obtain fd where fd: "q = Ret fd" by blast
    obtain q' v where v: "must_all K (enter_calls P dir) u = (q', v)" by force
    have "list_all plain_call (enter_calls P dir)" by (simp add: enter_calls_def)
    with must_all_part [OF v] have pv: "part_log u (q' = Ret ()) v (enter_calls P dir)" "q' = Ret () \<or> q' = Exit 1" by simp_all
    have sv: "part_log s (q' = Ret ()) v (RvOpenPath (START_VMM_PATH P) # enter_calls P dir)"
      using part_log_trans [of s u "[RvOpenPath (START_VMM_PATH P)]", OF _ pv(1)] pu fd by simp
    show ?thesis
    proof (cases "q' = Ret ()")
      case False
      with assms u fd v pv(2) have "t = v" by (auto simp: exec_start_vmm_def andthen_def)
      with sv show ?thesis by (auto intro: part_log_stop)
    next
      case q': True
      obtain y z where z: "rask (rv_fexecve K fd start_vmm_argv [''PATH=/bin'']) (RvExecStartVmm fd start_vmm_argv [''PATH=/bin'']) v = (y, z)"
        by force
      then have "revents z = revents v @ [RvExecStartVmm fd [''start-vmm''] [''PATH=/bin''] y]"
        by (auto simp: rask_def start_vmm_argv_def split: prod.splits)
      moreover have "\<exists>post. revents t = revents z @ post \<and> list_all (\<lambda>e. \<not> is_exec e) post"
        using assms u fd v q' z by (cases y) (auto simp: exec_start_vmm_def andthen_def rerr_def)
      ultimately show ?thesis using sv q' by force
    qed
  qed
qed

section \<open>The whole run\<close>

text \<open>What leads to the execution of \<open>start-vmm\<close>.\<close>

definition starts_vmm :: "programs \<Rightarrow> path \<Rightarrow> rv_event list \<Rightarrow> bool" where
  "starts_vmm P dir evs \<longleftrightarrow> (\<exists>pre fd null q post.
     evs = pre @ RvExecStartVmm fd [''start-vmm''] [''PATH=/bin''] q # post \<and> list_all (\<lambda>e. \<not> is_exec e) (pre @ post) \<and>
     list_all (\<lambda>e. \<not> fails e) pre \<and>
     done_calls pre = prepare_calls P dir @ [RvOpenWrite ''/dev/null'', RvDup2 null 3, RvOpenPath (START_VMM_PATH P)] @ enter_calls P dir)"

lemma part_log_removes: "part_log s go t cs \<Longrightarrow> \<exists>evs. revents t = revents s @ evs \<and> removes_once dir evs"
  by (auto simp: part_log_def removes_once_def)

lemma enter_log:
  assumes "part_log s True u (prepare_calls P dir)" "andthen (null_as_3 K u) (\<lambda>_ s. exec_start_vmm K P dir s) = (r, t)"
  shows "\<exists>evs. revents t = revents s @ evs \<and> (removes_once dir evs \<or> starts_vmm P dir evs)"
proof -
  obtain q v where v: "null_as_3 K u = (q, v)" by force
  from null_as_3_part [OF v] obtain null where n: "part_log u (q = Ret ()) v [RvOpenWrite ''/dev/null'', RvDup2 null 3]" by blast
  from assms(2) [unfolded v] show ?thesis
  proof (cases rule: andthen_cases)
    case (1 a)
    then have sv: "part_log s True v (prepare_calls P dir @ [RvOpenWrite ''/dev/null'', RvDup2 null 3])"
      using part_log_trans [OF assms(1) n] by simp
    from exec_start_vmm_log [OF 1(2)] show ?thesis
    proof (elim disjE exE conjE)
      assume "part_log v False t []"
      with sv have "part_log s False t []" by (rule part_log_trans_stop)
      with part_log_removes show ?thesis by blast
    next
      fix x fd y post
      assume x: "part_log v True x (RvOpenPath (START_VMM_PATH P) # enter_calls P dir)"
        and t: "revents t = revents x @ RvExecStartVmm fd [''start-vmm''] [''PATH=/bin''] y # post" "list_all (\<lambda>e. \<not> is_exec e) post"
      from part_log_trans [OF sv x] obtain pre where pre: "revents x = revents s @ pre" "list_all (\<lambda>e. \<not> is_exec e) pre"
        "list_all (\<lambda>e. \<not> fails e) pre" "done_calls pre = prepare_calls P dir @
          [RvOpenWrite ''/dev/null'', RvDup2 null 3, RvOpenPath (START_VMM_PATH P)] @ enter_calls P dir"
        by (auto simp: part_log_def)
      have "starts_vmm P dir (pre @ RvExecStartVmm fd [''start-vmm''] [''PATH=/bin''] y # post)"
        unfolding starts_vmm_def using pre t(2) by (metis list_all_append)
      with t(1) pre(1) show ?thesis by auto
    qed
  next
    case 2
    with part_log_trans_stop [OF assms(1) n] part_log_removes show ?thesis by blast
  qed
qed

lemma run_vm_log:
  assumes "run_vm_main K P s = (r, t)"
  shows "\<exists>evs. revents t = revents s @ evs \<and> (list_all (\<lambda>e. \<not> is_exec e) evs \<or>
    (\<exists>template dir. RvMkdtemp template (Ok dir) \<in> set evs \<and> (removes_once dir evs \<or> starts_vmm P dir evs)))"
proof -
  let ?tpl = "tmpdir K @ ''/run-spectrum-vm.XXXXXX''"
  obtain d u where u: "rask (rv_mkdtemp K ?tpl) (RvMkdtemp ?tpl) s = (d, u)" by force
  then have ru: "revents u = revents s @ [RvMkdtemp ?tpl d]" by (auto simp: rask_def split: prod.splits)
  show ?thesis
  proof (cases d)
    case (Err e)
    with assms u ru show ?thesis by (auto simp: run_vm_main_def Let_def rerr_def)
  next
    case (Ok dir)
    let ?go = "\<lambda>s. andthen (must_all K (prepare_calls P dir) s) (\<lambda>_ s. andthen (spawn_virtiofsd K P s) (\<lambda>go s.
      if \<not> go then (Ret (), s) else andthen (null_as_3 K s) (\<lambda>_ s. exec_start_vmm K P dir s)))"
    obtain q v where v: "exit_listener_setup K dir u = (q, v)" by force
    have eq: "andthen (q, v) (\<lambda>go s. if \<not> go then (Ret (), s) else ?go s) = (r, t)"
      using assms u Ok v by (simp add: run_vm_main_def Let_def)
    have "\<exists>evs. revents t = revents u @ evs \<and> (removes_once dir evs \<or> starts_vmm P dir evs)"
    proof (cases "q = Ret True")
      case False
      with eq have "t = v" by (auto simp: andthen_def split: outcome.splits)
      with listener_log [OF v] show ?thesis by blast
    next
      case True
      with listener_log [OF v] have uv: "part_log u True v []" by blast
      obtain q1 w where w: "must_all K (prepare_calls P dir) v = (q1, w)" by force
      have "list_all plain_call (prepare_calls P dir)" by (simp add: prepare_calls_def)
      with must_all_part [OF w] uv have uw: "part_log u (q1 = Ret ()) w (prepare_calls P dir)"
        using part_log_trans [of u v "[]"] by fastforce
      obtain q2 x where x: "spawn_virtiofsd K P w = (q2, x)" by force
      note wx = spawn_virtiofsd_part [OF x]
      show ?thesis
      proof (cases "q1 = Ret () \<and> q2 = Ret True")
        case go: True
        then have "part_log u True x (prepare_calls P dir)" using part_log_trans [of u w "prepare_calls P dir" True x "[]"] uw wx by simp
        moreover have "andthen (null_as_3 K x) (\<lambda>_ s. exec_start_vmm K P dir s) = (r, t)"
          using eq True go w x by (simp add: andthen_def)
        ultimately show ?thesis by (rule enter_log)
      next
        case no: False
        then have "t = w \<or> t = x" using eq True w x by (auto simp: andthen_def split: outcome.splits)
        moreover have "part_log u False x []" by (rule part_log_trans_stop [OF uw wx])
        ultimately show ?thesis using uw part_log_removes by blast
      qed
    qed
    then obtain evs where evs: "revents t = revents u @ evs" "removes_once dir evs \<or> starts_vmm P dir evs" by blast
    let ?m = "RvMkdtemp ?tpl (Ok dir)"
    have "removes_once dir (?m # evs) \<or> starts_vmm P dir (?m # evs)"
    proof (rule disjE [OF evs(2)])
      assume "removes_once dir evs"
      with removes_once_extend [of "[?m]"] show ?thesis by simp
    next
      assume "starts_vmm P dir evs"
      then obtain pre fd null y post where s: "evs = pre @ RvExecStartVmm fd [''start-vmm''] [''PATH=/bin''] y # post"
        "list_all (\<lambda>e. \<not> is_exec e) (pre @ post)" "list_all (\<lambda>e. \<not> fails e) pre"
        "done_calls pre = prepare_calls P dir @ [RvOpenWrite ''/dev/null'', RvDup2 null 3, RvOpenPath (START_VMM_PATH P)] @ enter_calls P dir"
        unfolding starts_vmm_def by blast
      then have "starts_vmm P dir (?m # evs)" unfolding starts_vmm_def
        by (intro exI [of _ "?m # pre"] exI [of _ fd] exI [of _ null] exI [of _ y] exI [of _ post]) (simp add: fails_def)
      then show ?thesis ..
    qed
    with evs(1) ru Ok show ?thesis by (intro exI [of _ "?m # evs"]) auto
  qed
qed

lemma no_exec_vmm: "list_all (\<lambda>e. \<not> is_exec e) evs \<Longrightarrow> RvExecStartVmm fd argv env q \<notin> set evs"
  unfolding list_all_iff using is_exec_simps(7) by blast

lemma removes_once_vmm: "removes_once dir evs \<Longrightarrow> RvExecStartVmm fd argv env q \<notin> set evs"
  unfolding removes_once_def list_all_append by (elim disjE exE conjE) (simp_all add: no_exec_vmm)

lemma starts_vmm_args: "starts_vmm P dir evs \<Longrightarrow> RvExecStartVmm fd argv env q \<in> set evs \<Longrightarrow> argv = [''start-vmm'']"
  unfolding starts_vmm_def list_all_append by (elim exE conjE) (simp add: no_exec_vmm)


text \<open>A kernel on which everything works, seen by the process that starts the others.\<close>

definition runner0 :: "unit runner" where
  "runner0 = \<lparr>rv_getenv = \<lambda>_. None, rv_getpid = \<lambda>_. 100, rv_getppid = \<lambda>_. 1, rv_mkdtemp = \<lambda>_ w. (Ok ''/tmp/run-spectrum-vm.a1b2c3'', w),
     rv_pipe = \<lambda>w. (Ok (4, 5), w), rv_fork = \<lambda>w. (Ok 101, w), rv_call = \<lambda>_ w. (Ok 6, w), rv_execlp = \<lambda>_ w. (Ok (), w),
     rv_execv = \<lambda>_ _ w. (Ok (), w), rv_fexecve = \<lambda>_ _ _ w. (Ok (), w)\<rparr>"

definition programs0 :: programs where
  "programs0 = \<lparr>VIRTIOFSD_PATH = ''/v'', CONFIG_PATH = ''/c'', APPVM_PATH = ''/a'', START_VMM_PATH = ''/s'', CLOUD_HYPERVISOR_PATH = ''/h''\<rparr>"

definition rs0 :: "unit rs" where
  "rs0 = \<lparr>rworld = (), revents = []\<rparr>"

lemma runner0_must [simp]:
  "must runner0 c s = (Ret 6, s\<lparr>rworld := (), revents := revents s @ [RvCall c (Ok 6)]\<rparr>)"
  by (simp add: must_def call_def rask_def runner0_def)

lemma runner0_must_all [simp]:
  "must_all runner0 cs s = (Ret (), s\<lparr>rworld := (), revents := revents s @ map (\<lambda>c. RvCall c (Ok 6)) cs\<rparr>)"
  by (induction cs arbitrary: s) simp_all

lemma runner0_run:
  "\<exists>t. run_vm_main runner0 programs0 rs0 = (Ret (), t) \<and> RvExecStartVmm 6 [''start-vmm''] [''PATH=/bin''] (Ok ()) \<in> set (revents t)"
proof -
  have s: "\<exists>t. exit_listener_setup runner0 dir s = (Ret True, t)" for dir s
    by (simp add: exit_listener_setup_def call_def rask_def runner0_def)
  have v: "\<exists>t. spawn_virtiofsd runner0 P s = (Ret True, t)" for P s
    by (simp add: spawn_virtiofsd_def rask_def runner0_def Let_def)
  have n: "\<exists>t. null_as_3 runner0 s = (Ret (), t)" for s
    by (cases "call runner0 (RvClose 6) (s\<lparr>rworld := (), revents := revents s @ [RvCall (RvOpenWrite ''/dev/null'') (Ok 6), RvCall (RvDup2 6 3) (Ok 6)]\<rparr>)")
      (simp add: null_as_3_def andthen_def)
  have e: "\<exists>t. exec_start_vmm runner0 P dir s = (Ret (), t) \<and> RvExecStartVmm 6 [''start-vmm''] [''PATH=/bin''] (Ok ()) \<in> set (revents t)" for P dir s
  proof -
    have "rv_fexecve runner0 fd a env w = (Ok (), w)" for fd a env w by (simp add: runner0_def)
    then show ?thesis by (simp add: exec_start_vmm_def andthen_def rask_def start_vmm_argv_def)
  qed
  obtain u where u: "rask (rv_mkdtemp runner0 (tmpdir runner0 @ ''/run-spectrum-vm.XXXXXX'')) (RvMkdtemp (tmpdir runner0 @ ''/run-spectrum-vm.XXXXXX'')) rs0 =
    (Ok ''/tmp/run-spectrum-vm.a1b2c3'', u)" by (simp add: rask_def runner0_def)
  obtain a where a: "exit_listener_setup runner0 ''/tmp/run-spectrum-vm.a1b2c3'' u = (Ret True, a)" using s by blast
  obtain b where b: "must_all runner0 (prepare_calls programs0 ''/tmp/run-spectrum-vm.a1b2c3'') a = (Ret (), b)" by simp
  obtain c where c: "spawn_virtiofsd runner0 programs0 b = (Ret True, c)" using v by blast
  obtain d where d: "null_as_3 runner0 c = (Ret (), d)" using n by blast
  show ?thesis
    using e [of programs0 "''/tmp/run-spectrum-vm.a1b2c3''" d]
    by (simp add: run_vm_main_def Let_def u a andthen_def b c d del: runner0_must_all)
qed


end
