(* ===== verification/Execline.thy ===== *)
theory Execline
  imports RPath
begin

text \<open>
  The language of the host's scripts, execline: a script is a chain of programs, each of which runs its blocks and then becomes the
  next one. The scripts are data of the type \<open>script\<close>, and what they do is the relation \<open>runs\<close>.

  \<open>runs B L c tr r\<close> says that \<open>c\<close> can have done \<open>tr\<close>, the list of the programs that were started and have ended, in the
  order of time; \<open>r\<close> is its exit status, or \<open>None\<close> if it has not ended. As a script can be seen at any moment of its run, what holds for
  all \<open>tr\<close> holds always. A program that is not in the table \<open>B\<close> may do anything and end with any status; one that is in
  it is a script itself. \<open>L\<close> says which names \<open>elglob\<close> can find in a directory.

  Blocks that run at the same time have their events interleaved. The status of a loop \<open>forx\<close> is left open, and a
  sequential one may stop after any iteration, so nothing depends on its options for that.
\<close>

section \<open>Scripts\<close>

type_synonym argv = "bytes list"

text \<open>
  \<open>Chain\<close> is a program that changes the state of its process and goes on with the rest of the script, such as \<open>cd\<close>, \<open>redirfd\<close> or \<open>export\<close>.
  \<open>IfTN\<close> is \<open>if -tn\<close>. \<open>Forx\<close> has the body of the loop for every word; its flag is the option \<open>-p\<close>. The block of \<open>Backtick\<close> is a
  program whose output becomes the value of a variable. \<open>Elglob\<close> has the directory in which the pattern \<open>*\<close> is expanded.
\<close>

datatype script =
    Prog argv
  | Chain argv script
  | If script script
  | IfTN script script
  | Foreground script script
  | Background script script
  | Forx bool "script list"
  | Backtick argv "bytes \<Rightarrow> script"
  | Elglob path "bytes list \<Rightarrow> script"

datatype ex_event =
    Started argv
  | Ended argv nat
  | Did argv

inductive runs :: "(argv \<Rightarrow> script option) \<Rightarrow> (path \<Rightarrow> bytes list \<Rightarrow> bool) \<Rightarrow> script \<Rightarrow> ex_event list \<Rightarrow> nat option \<Rightarrow> bool"
  for B L where
  cut: "runs B L c [] None"
| started: "B a = None \<Longrightarrow> runs B L (Prog a) [Started a] None"
| ended: "B a = None \<Longrightarrow> runs B L (Prog a) [Started a, Ended a n] (Some n)"
| running: "B a = Some c \<Longrightarrow> runs B L c tr None \<Longrightarrow> runs B L (Prog a) (Started a # tr) None"
| returned: "B a = Some c \<Longrightarrow> runs B L c tr (Some n) \<Longrightarrow> runs B L (Prog a) (Started a # tr @ [Ended a n]) (Some n)"
| chain: "runs B L c tr r \<Longrightarrow> runs B L (Chain a c) (Did a # tr) r"
| chain_fails: "n \<noteq> 0 \<Longrightarrow> runs B L (Chain a c) [] (Some n)"
| if_true: "runs B L b tr (Some 0) \<Longrightarrow> runs B L c tr' r \<Longrightarrow> runs B L (If b c) (tr @ tr') r"
| if_false: "runs B L b tr (Some n) \<Longrightarrow> n \<noteq> 0 \<Longrightarrow> runs B L (If b c) tr (Some 1)"
| if_waits: "runs B L b tr None \<Longrightarrow> runs B L (If b c) tr None"
| iftn_false: "runs B L b tr (Some n) \<Longrightarrow> n \<noteq> 0 \<Longrightarrow> runs B L c tr' r \<Longrightarrow> runs B L (IfTN b c) (tr @ tr') r"
| iftn_true: "runs B L b tr (Some 0) \<Longrightarrow> runs B L (IfTN b c) tr (Some 0)"
| iftn_waits: "runs B L b tr None \<Longrightarrow> runs B L (IfTN b c) tr None"
| foreground: "runs B L b tr (Some n) \<Longrightarrow> runs B L c tr' r \<Longrightarrow> runs B L (Foreground b c) (tr @ tr') r"
| foreground_waits: "runs B L b tr None \<Longrightarrow> runs B L (Foreground b c) tr None"
| background: "runs B L b tr q \<Longrightarrow> runs B L c tr' r \<Longrightarrow> u \<in> shuffles tr tr' \<Longrightarrow> runs B L (Background b c) u r"
| forx_done: "runs B L (Forx p []) [] (Some n)"
| forx_next: "runs B L c tr (Some m) \<Longrightarrow> runs B L (Forx False cs) tr' r \<Longrightarrow> runs B L (Forx False (c # cs)) (tr @ tr') r"
| forx_stop: "runs B L c tr (Some m) \<Longrightarrow> runs B L (Forx False (c # cs)) tr (Some n)"
| forx_waits: "runs B L c tr None \<Longrightarrow> runs B L (Forx False (c # cs)) tr None"
| forx_parallel: "runs B L c tr q \<Longrightarrow> runs B L (Forx True cs) tr' r \<Longrightarrow> u \<in> shuffles tr tr' \<Longrightarrow>
    runs B L (Forx True (c # cs)) u (if q = None then None else r)"
| backtick: "runs B L (Prog a) tr (Some n) \<Longrightarrow> runs B L (k v) tr' r \<Longrightarrow> runs B L (Backtick a k) (tr @ tr') r"
| backtick_fails: "runs B L (Prog a) tr (Some n) \<Longrightarrow> m \<noteq> 0 \<Longrightarrow> runs B L (Backtick a k) tr (Some m)"
| backtick_waits: "runs B L (Prog a) tr None \<Longrightarrow> runs B L (Backtick a k) tr None"
| elglob: "L d ns \<Longrightarrow> runs B L (k ns) tr r \<Longrightarrow> runs B L (Elglob d k) tr r"
| elglob_fails: "n \<noteq> 0 \<Longrightarrow> runs B L (Elglob d k) [] (Some n)"

text \<open>What a construct can have done.\<close>

inductive_cases runs_ProgE: "runs B L (Prog a) tr r"
inductive_cases runs_ChainE: "runs B L (Chain a c) tr r"
inductive_cases runs_IfE: "runs B L (If b c) tr r"
inductive_cases runs_IfTNE: "runs B L (IfTN b c) tr r"
inductive_cases runs_ForegroundE: "runs B L (Foreground b c) tr r"
inductive_cases runs_BackgroundE: "runs B L (Background b c) tr r"
inductive_cases runs_ForxNilE: "runs B L (Forx p []) tr r"
inductive_cases runs_ForxSeqE: "runs B L (Forx False (c # cs)) tr r"
inductive_cases runs_ForxParE: "runs B L (Forx True (c # cs)) tr r"
inductive_cases runs_BacktickE: "runs B L (Backtick a k) tr r"
inductive_cases runs_ElglobE: "runs B L (Elglob d k) tr r"

section \<open>What happens before what\<close>

text \<open>Every event with \<open>Q\<close> comes after one with \<open>P\<close>.\<close>

fun preceded :: "('a \<Rightarrow> bool) \<Rightarrow> ('a \<Rightarrow> bool) \<Rightarrow> 'a list \<Rightarrow> bool" where
  "preceded P Q [] = True"
| "preceded P Q (e # tr) = (if P e then \<not> Q e else \<not> Q e \<and> preceded P Q tr)"

lemma preceded_iff: "preceded P Q tr \<longleftrightarrow> (\<forall>pre e post. tr = pre @ e # post \<longrightarrow> Q e \<longrightarrow> (\<exists>x \<in> set pre. P x))"
proof (induction tr)
  case (Cons a tr)
  have "(\<forall>pre e post. a # tr = pre @ e # post \<longrightarrow> Q e \<longrightarrow> (\<exists>x \<in> set pre. P x)) \<longleftrightarrow>
      \<not> Q a \<and> (P a \<or> (\<forall>pre e post. tr = pre @ e # post \<longrightarrow> Q e \<longrightarrow> (\<exists>x \<in> set pre. P x)))"
    by (auto simp: Cons_eq_append_conv) (metis set_ConsD)
  with Cons show ?case by auto
qed simp

lemma preceded_append:
  "preceded P Q (xs @ ys) \<longleftrightarrow> preceded P Q xs \<and> ((\<exists>x \<in> set xs. P x) \<or> preceded P Q ys)"
  by (induction xs) auto

lemma preceded_none: "\<forall>x \<in> set xs. \<not> Q x \<Longrightarrow> preceded P Q xs"
  by (induction xs) auto

lemma preceded_shuffle: "u \<in> shuffles xs ys \<Longrightarrow> preceded P Q xs \<Longrightarrow> preceded P Q ys \<Longrightarrow> preceded P Q u"
proof (induction xs ys arbitrary: u rule: shuffles.induct)
  case (3 x xs y ys)
  then show ?case by (auto split: if_splits)
qed auto

section \<open>Reasoning about scripts\<close>

text \<open>
  Three judgements on a script, whatever it has done so far: no event has \<open>Q\<close>; every event with \<open>Q\<close> comes after one with
  \<open>P\<close>; and if it has ended with one of the statuses \<open>S\<close>, there was one with \<open>P\<close>.
\<close>

definition never :: "(argv \<Rightarrow> script option) \<Rightarrow> (path \<Rightarrow> bytes list \<Rightarrow> bool) \<Rightarrow> (ex_event \<Rightarrow> bool) \<Rightarrow> script \<Rightarrow> bool" where
  "never B L Q c \<longleftrightarrow> (\<forall>tr r. runs B L c tr r \<longrightarrow> (\<forall>e \<in> set tr. \<not> Q e))"

definition ordered ::
    "(argv \<Rightarrow> script option) \<Rightarrow> (path \<Rightarrow> bytes list \<Rightarrow> bool) \<Rightarrow> (ex_event \<Rightarrow> bool) \<Rightarrow> (ex_event \<Rightarrow> bool) \<Rightarrow> script \<Rightarrow> bool" where
  "ordered B L P Q c \<longleftrightarrow> (\<forall>tr r. runs B L c tr r \<longrightarrow> preceded P Q tr)"

definition marks ::
    "(argv \<Rightarrow> script option) \<Rightarrow> (path \<Rightarrow> bytes list \<Rightarrow> bool) \<Rightarrow> (nat \<Rightarrow> bool) \<Rightarrow> (ex_event \<Rightarrow> bool) \<Rightarrow> script \<Rightarrow> bool" where
  "marks B L S P c \<longleftrightarrow> (\<forall>tr n. runs B L c tr (Some n) \<longrightarrow> S n \<longrightarrow> (\<exists>e \<in> set tr. P e))"

lemma orderedI: "(\<And>tr r. runs B L c tr r \<Longrightarrow> preceded P Q tr) \<Longrightarrow> ordered B L P Q c"
  by (simp add: ordered_def)

lemma orderedD: "ordered B L P Q c \<Longrightarrow> runs B L c tr r \<Longrightarrow> preceded P Q tr"
  unfolding ordered_def by blast

lemma marksD: "marks B L S P c \<Longrightarrow> runs B L c tr (Some n) \<Longrightarrow> S n \<Longrightarrow> \<exists>e \<in> set tr. P e"
  unfolding marks_def by blast

lemma never_ordered: "never B L Q c \<Longrightarrow> ordered B L P Q c"
  by (simp add: never_def ordered_def preceded_none)

lemma never_iff_ordered: "never B L Q c \<longleftrightarrow> ordered B L (\<lambda>_. False) Q c"
proof -
  have "preceded (\<lambda>_. False) Q tr \<longleftrightarrow> (\<forall>e \<in> set tr. \<not> Q e)" for tr by (induction tr) auto
  then show ?thesis by (simp add: never_def ordered_def)
qed

text \<open>The rules for \<open>ordered\<close>; those for \<open>never\<close> are instances.\<close>

lemma ordered_Prog:
  assumes "\<not> Q (Started a)" "\<And>n. \<not> Q (Ended a n)" "\<And>c. B a = Some c \<Longrightarrow> ordered B L P Q c"
  shows "ordered B L P Q (Prog a)"
proof (rule orderedI)
  fix tr r assume "runs B L (Prog a) tr r"
  then show "preceded P Q tr"
    by (cases rule: runs_ProgE) (use assms in \<open>auto simp: preceded_append intro: orderedD\<close>)
qed

lemma ordered_Chain:
  assumes "\<not> Q (Did a)" "P (Did a) \<or> ordered B L P Q c"
  shows "ordered B L P Q (Chain a c)"
  using assms by (intro orderedI) (auto elim!: runs_ChainE intro: orderedD)

lemma ordered_If:
  assumes "ordered B L P Q b" "marks B L (\<lambda>n. n = 0) P b \<or> ordered B L P Q c"
  shows "ordered B L P Q (If b c)"
proof (rule orderedI)
  fix tr r assume "runs B L (If b c) tr r"
  then show "preceded P Q tr"
    by (cases rule: runs_IfE) (use assms in \<open>auto simp: preceded_append intro: orderedD dest: marksD\<close>)
qed

lemma ordered_IfTN:
  assumes "ordered B L P Q b" "marks B L (\<lambda>n. n \<noteq> 0) P b \<or> ordered B L P Q c"
  shows "ordered B L P Q (IfTN b c)"
proof (rule orderedI)
  fix tr r assume "runs B L (IfTN b c) tr r"
  then show "preceded P Q tr"
    by (cases rule: runs_IfTNE) (use assms in \<open>auto simp: preceded_append intro: orderedD dest: marksD\<close>)
qed

lemma ordered_Foreground:
  assumes "ordered B L P Q b" "marks B L (\<lambda>n. True) P b \<or> ordered B L P Q c"
  shows "ordered B L P Q (Foreground b c)"
proof (rule orderedI)
  fix tr r assume "runs B L (Foreground b c) tr r"
  then show "preceded P Q tr"
    by (cases rule: runs_ForegroundE) (use assms in \<open>auto simp: preceded_append intro: orderedD dest: marksD\<close>)
qed

lemma ordered_Background:
  assumes "ordered B L P Q b" "ordered B L P Q c"
  shows "ordered B L P Q (Background b c)"
  using assms by (intro orderedI) (auto elim!: runs_BackgroundE intro: preceded_shuffle orderedD)

lemma ordered_Forx:
  assumes "\<And>c. c \<in> set cs \<Longrightarrow> ordered B L P Q c"
  shows "ordered B L P Q (Forx p cs)"
  using assms
proof (induction cs)
  case Nil
  show ?case by (intro orderedI) (auto elim!: runs_ForxNilE)
next
  case (Cons c cs)
  then have c: "ordered B L P Q c" "ordered B L P Q (Forx p cs)" by simp_all
  show ?case
  proof (rule orderedI)
    fix tr r assume runs: "runs B L (Forx p (c # cs)) tr r"
    show "preceded P Q tr"
    proof (cases p)
      case True
      with runs c show ?thesis by (auto elim!: runs_ForxParE intro: preceded_shuffle orderedD)
    next
      case False
      with runs have "runs B L (Forx False (c # cs)) tr r" by simp
      then show ?thesis by (cases rule: runs_ForxSeqE) (use c False in \<open>auto simp: preceded_append intro: orderedD\<close>)
    qed
  qed
qed

lemma ordered_Backtick:
  assumes "ordered B L P Q (Prog a)" "\<And>v. ordered B L P Q (k v)"
  shows "ordered B L P Q (Backtick a k)"
proof (rule orderedI)
  fix tr r assume "runs B L (Backtick a k) tr r"
  then show "preceded P Q tr"
  proof (cases rule: runs_BacktickE [consumes 1, case_names cut go fails waits])
    case (go xs n v ys)
    with orderedD [OF assms(1)] orderedD [OF assms(2)] show ?thesis unfolding go(1) preceded_append by blast
  qed (use orderedD [OF assms(1)] in auto)
qed

lemma ordered_Elglob:
  assumes "\<And>ns. L d ns \<Longrightarrow> ordered B L P Q (k ns)"
  shows "ordered B L P Q (Elglob d k)"
  using assms by (intro orderedI) (auto elim!: runs_ElglobE intro: orderedD)

lemma marks_Prog: "(\<And>n. S n \<Longrightarrow> P (Ended a n)) \<Longrightarrow> marks B L S P (Prog a)"
  unfolding marks_def by (auto elim!: runs_ProgE)

lemma marks_Chain: "marks B L (\<lambda>n. n = 0) P c \<Longrightarrow> marks B L (\<lambda>n. n = 0) P (Chain a c)"
  unfolding marks_def by (auto elim!: runs_ChainE)

section \<open>The programs of a script\<close>

text \<open>
  All programs of a script have \<open>R\<close>, and those that it goes on from have \<open>D\<close>. Then the same holds for the events, if it holds for the
  scripts that are called.
\<close>

primrec programs_in :: "(path \<Rightarrow> bytes list \<Rightarrow> bool) \<Rightarrow> (argv \<Rightarrow> bool) \<Rightarrow> (argv \<Rightarrow> bool) \<Rightarrow> script \<Rightarrow> bool" where
  "programs_in L R D (Prog a) = R a"
| "programs_in L R D (Chain a c) = (D a \<and> programs_in L R D c)"
| "programs_in L R D (If b c) = (programs_in L R D b \<and> programs_in L R D c)"
| "programs_in L R D (IfTN b c) = (programs_in L R D b \<and> programs_in L R D c)"
| "programs_in L R D (Foreground b c) = (programs_in L R D b \<and> programs_in L R D c)"
| "programs_in L R D (Background b c) = (programs_in L R D b \<and> programs_in L R D c)"
| "programs_in L R D (Forx p cs) = list_all id (map (programs_in L R D) cs)"
| "programs_in L R D (Backtick a k) = (R a \<and> (\<forall>v. programs_in L R D (k v)))"
| "programs_in L R D (Elglob d k) = (\<forall>ns. L d ns \<longrightarrow> programs_in L R D (k ns))"

fun event_in :: "(argv \<Rightarrow> bool) \<Rightarrow> (argv \<Rightarrow> bool) \<Rightarrow> ex_event \<Rightarrow> bool" where
  "event_in R D (Started a) = R a"
| "event_in R D (Ended a n) = R a"
| "event_in R D (Did a) = D a"

lemma runs_events:
  assumes "runs B L c tr r" "\<And>a d. R a \<Longrightarrow> B a = Some d \<Longrightarrow> programs_in L R D d" "programs_in L R D c"
  shows "list_all (event_in R D) tr"
  using assms(1,3)
proof (induction rule: runs.induct)
  case (running a c tr)
  then show ?case using assms(2) by simp
next
  case (returned a c tr n)
  then show ?case using assms(2) by simp
next
  case (background b tr q c tr' r u)
  then show ?case by (auto simp: list_all_iff set_shuffles)
next
  case (forx_parallel c tr q cs tr' r u)
  then show ?case by (auto simp: list_all_iff set_shuffles)
qed simp_all

lemma never_programs:
  assumes "\<And>a d. R a \<Longrightarrow> B a = Some d \<Longrightarrow> programs_in L R D d" "programs_in L R D c" "\<And>e. event_in R D e \<Longrightarrow> \<not> Q e"
  shows "never B L Q c"
  unfolding never_def using runs_events [OF _ assms(1,2)] assms(3) by (auto simp: list_all_iff)

text \<open>When a script without a background has ended, everything it has started has.\<close>

primrec waits :: "script \<Rightarrow> bool" where
  "waits (Prog a) = True"
| "waits (Chain a c) = waits c"
| "waits (If b c) = (waits b \<and> waits c)"
| "waits (IfTN b c) = (waits b \<and> waits c)"
| "waits (Foreground b c) = (waits b \<and> waits c)"
| "waits (Background b c) = False"
| "waits (Forx p cs) = list_all id (map waits cs)"
| "waits (Backtick a k) = (\<forall>v. waits (k v))"
| "waits (Elglob d k) = (\<forall>ns. waits (k ns))"

definition all_ended :: "ex_event list \<Rightarrow> bool" where
  "all_ended tr \<longleftrightarrow> (\<forall>a. Started a \<in> set tr \<longrightarrow> (\<exists>n. Ended a n \<in> set tr))"

lemma all_ended_simps [simp]: "all_ended []" "all_ended [Started a, Ended a n]" "all_ended (Did a # tr) \<longleftrightarrow> all_ended tr"
  by (auto simp: all_ended_def)

lemma all_ended_append: "all_ended xs \<Longrightarrow> all_ended ys \<Longrightarrow> all_ended (xs @ ys)"
  unfolding all_ended_def set_append by blast

lemma all_ended_shuffle: "u \<in> shuffles xs ys \<Longrightarrow> all_ended xs \<Longrightarrow> all_ended ys \<Longrightarrow> all_ended u"
  unfolding all_ended_def by (drule set_shuffles) (simp only: Un_iff, blast)

lemma runs_waits:
  assumes "runs B L c tr r" "\<And>a d. R a \<Longrightarrow> B a = Some d \<Longrightarrow> programs_in L R D d \<and> waits d" "programs_in L R D c" "waits c" "r \<noteq> None"
  shows "all_ended tr"
  using assms(1,3-5)
proof (induction rule: runs.induct)
  case (returned a c tr n)
  then have "all_ended tr" using assms(2) by simp
  then show ?case by (auto simp: all_ended_def)
next
  case (forx_parallel c tr q cs tr' r u)
  then have "all_ended tr" "all_ended tr'" by (simp_all split: if_splits)
  with forx_parallel(3) show ?case by (rule all_ended_shuffle)
qed (simp_all add: all_ended_append)

section \<open>Checking the order\<close>

text \<open>
  For scripts that call only programs outside of the table, the order of two programs can be computed: \<open>succeeded a c\<close> says that
  \<open>c\<close> succeeds only if \<open>a\<close> has, and \<open>after a x c\<close> that \<open>c\<close> starts \<open>x\<close> only when \<open>a\<close> has succeeded.
\<close>

primrec succeeded :: "argv \<Rightarrow> script \<Rightarrow> bool" where
  "succeeded a (Prog b) = (a = b)"
| "succeeded a (Chain b c) = succeeded a c"
| "succeeded a (If b c) = (succeeded a b \<or> succeeded a c)"
| "succeeded a (IfTN b c) = False"
| "succeeded a (Foreground b c) = succeeded a c"
| "succeeded a (Background b c) = succeeded a c"
| "succeeded a (Forx p cs) = False"
| "succeeded a (Backtick b k) = (\<forall>v. succeeded a (k v))"
| "succeeded a (Elglob d k) = False"

primrec after :: "argv \<Rightarrow> argv \<Rightarrow> script \<Rightarrow> bool" where
  "after a x (Prog b) = (b \<noteq> x)"
| "after a x (Chain b c) = after a x c"
| "after a x (If b c) = (after a x b \<and> (succeeded a b \<or> after a x c))"
| "after a x (IfTN b c) = (after a x b \<and> after a x c)"
| "after a x (Foreground b c) = (after a x b \<and> after a x c)"
| "after a x (Background b c) = (after a x b \<and> after a x c)"
| "after a x (Forx p cs) = list_all id (map (after a x) cs)"
| "after a x (Backtick b k) = (b \<noteq> x \<and> (\<forall>v. after a x (k v)))"
| "after a x (Elglob d k) = (\<forall>ns. after a x (k ns))"

lemma runs_succeeded: "runs B L c tr r \<Longrightarrow> r = Some 0 \<Longrightarrow> succeeded a c \<Longrightarrow> Ended a 0 \<in> set tr"
  by (induction rule: runs.induct) (auto simp: set_shuffles)

lemma succeeded_marks: "succeeded a c \<Longrightarrow> marks B L (\<lambda>n. n = 0) (\<lambda>e. e = Ended a 0) c"
  unfolding marks_def using runs_succeeded by blast

lemma after_ordered: "after a x c \<Longrightarrow> ordered (\<lambda>_. None) L (\<lambda>e. e = Ended a 0) (\<lambda>e. e = Started x) c"
proof (induction c)
  case (If b c)
  then show ?case by (auto intro!: ordered_If intro: succeeded_marks)
next
  case (Forx p cs)
  then show ?case by (auto intro!: ordered_Forx simp: list_all_iff)
next
  case (Backtick b k)
  then show ?case by (auto intro!: ordered_Backtick ordered_Prog)
qed (auto intro!: ordered_Prog ordered_Chain ordered_IfTN ordered_Foreground ordered_Background ordered_Elglob)

text \<open>One way a script can run: every program succeeds, and what is in the background has not begun.\<close>

primrec smooth :: "script \<Rightarrow> ex_event list" where
  "smooth (Prog a) = [Started a, Ended a 0]"
| "smooth (Chain a c) = Did a # smooth c"
| "smooth (If b c) = smooth b @ smooth c"
| "smooth (IfTN b c) = smooth b"
| "smooth (Foreground b c) = smooth b @ smooth c"
| "smooth (Background b c) = smooth c"
| "smooth (Forx p cs) = concat (map smooth cs)"
| "smooth (Backtick a k) = [Started a, Ended a 0] @ smooth (k [])"
| "smooth (Elglob d k) = smooth (k [])"

lemma append_shuffles: "xs @ ys \<in> shuffles xs ys"
  by (induction xs) (simp_all add: Cons_in_shuffles_leftI)

lemma runs_smooth: "(\<And>d. L d []) \<Longrightarrow> runs (\<lambda>_. None) L c (smooth c) (Some 0)"
proof (induction c)
  case (If b c)
  then show ?case by (auto intro: runs.if_true)
next
  case (Foreground b c)
  then show ?case by (auto intro: runs.foreground)
next
  case (Background b c)
  then show ?case using runs.background [OF runs.cut] by fastforce
next
  case (Forx p cs)
  have "\<forall>c \<in> set cs. runs (\<lambda>_. None) L c (smooth c) (Some 0)" using Forx by blast
  then show ?case
  proof (induction cs)
    case Nil
    show ?case by (simp add: runs.forx_done)
  next
    case (Cons c cs)
    then have *: "runs (\<lambda>_. None) L c (smooth c) (Some 0)" "runs (\<lambda>_. None) L (Forx p cs) (concat (map smooth cs)) (Some 0)" by simp_all
    show ?case
    proof (cases p)
      case True
      with *(2) have "runs (\<lambda>_. None) L (Forx True cs) (concat (map smooth cs)) (Some 0)" by simp
      from runs.forx_parallel [OF *(1) this append_shuffles] True show ?thesis by simp
    next
      case False
      with *(2) have "runs (\<lambda>_. None) L (Forx False cs) (concat (map smooth cs)) (Some 0)" by simp
      from runs.forx_next [OF *(1) this] False show ?thesis by simp
    qed
  qed
next
  case (Backtick a k)
  then show ?case using runs.backtick [OF runs.ended [of "\<lambda>_. None" a L 0]] by fastforce
next
  case (Elglob d k)
  then show ?case by (auto intro: runs.elglob)
qed (auto intro: runs.ended runs.chain runs.iftn_true)

end
