(* ===== verification/HostTools.thy ===== *)
theory HostTools
  imports Execline
begin

text \<open>
  The tools of the host that bring virtual machines up (\<open>host/rootfs/usr/bin\<close>): \<open>vm-import\<close>, \<open>create-vm-dependencies\<close>, \<open>vm-start\<close>,
  \<open>vm-stop\<close> and \<open>run-appimage\<close>. They call each other; the table \<open>usr_bin\<close> has them all. What they call besides is outside.
\<close>

section \<open>The scripts\<close>

definition services :: "bytes list" where
  "services = [''dbus'', ''vhost-user-fs'', ''vhost-user-gpu'', ''xdg-desktop-portal-spectrum-host'']"

definition service_up :: "bytes \<Rightarrow> bytes \<Rightarrow> script" where
  "service_up vm service =
     If (Prog [''s6-instance-create'', ''/run/service/'' @ service, vm])
     (Prog [''s6-svwait'', ''-U'', ''/run/service/'' @ service @ ''/instance/'' @ vm])"

definition create_vm_dependencies :: "bytes \<Rightarrow> script" where
  "create_vm_dependencies vm =
     If (Prog [''mount'', ''-m'', ''--rbind'', ''-o'', ''nofail'', ''/run/vm/'' @ vm @ ''/config/fs'', ''/run/vm/'' @ vm @ ''/fs/config''])
     (If (Prog [''mkdir'', ''-p'', ''/run/vm/'' @ vm @ ''/doc-run/doc'', ''/run/vm/'' @ vm @ ''/fs/doc''])
     (If (Prog [''mount'', ''--rbind'', ''/run/vm/'' @ vm @ ''/doc-run/doc'', ''/run/vm/'' @ vm @ ''/fs/doc''])
     (Forx True (map (service_up vm) services))))"

definition import_one :: "bytes \<Rightarrow> path \<Rightarrow> bytes \<Rightarrow> script" where
  "import_one grp dir name =
     (let vm = grp @ ''.'' @ name in
      IfTN (Prog [''test'', ''-d'', ''/run/vm/'' @ vm])
      (If (Prog [''mkdir'', ''/run/vm/'' @ vm])
      (If (Prog [''ln'', ''-s'', dir @ ''/'' @ name, ''/run/vm/'' @ vm @ ''/config''])
      (If (Prog [''create-vm-dependencies'', vm])
      (If (Prog [''s6-instance-create'', ''/run/service/vmm'', vm])
      (Prog [''s6-svwait'', ''-U'', ''/run/service/vmm/instance/'' @ vm]))))))"

definition vm_import :: "bytes \<Rightarrow> path \<Rightarrow> script" where
  "vm_import grp dir = Chain [''cd'', dir] (Elglob dir (\<lambda>names. Forx True (map (import_one grp dir) names)))"

definition provider_dir :: "bytes \<Rightarrow> path" where
  "provider_dir vm = ''/run/vm/'' @ vm @ ''/config/providers/net''"

definition boot :: "bytes \<Rightarrow> argv" where
  "boot vm = [''ch-remote'', ''--api-socket'', ''/run/vm/'' @ vm @ ''/vmm'', ''boot'']"

definition start_providers :: "bytes \<Rightarrow> script" where
  "start_providers vm =
     Chain [''redirfd'', ''-w'', ''2'', ''/dev/null'']
     (Chain [''cd'', provider_dir vm]
     (Elglob (provider_dir vm) (\<lambda>providers. Forx True (map (\<lambda>provider. Prog [''vm-start'', provider]) providers))))"

definition vm_start :: "bytes \<Rightarrow> script" where
  "vm_start vm =
     Foreground (Prog [''s6-rc'', ''-bu'', ''change'', ''ext-rc''])
     (Foreground (start_providers vm)
     (Prog (boot vm)))"

definition vm_stop :: "bytes \<Rightarrow> script" where
  "vm_stop vm = Prog [''ch-remote'', ''--api-socket'', ''/run/vm/'' @ vm @ ''/vmm'', ''shutdown'']"

text \<open>The parts of \<open>run-appimage\<close>: the directories, the process that waits for the VMM, and what is done when it has ended.\<close>

definition boot_when_up :: "bytes \<Rightarrow> script" where
  "boot_when_up vm =
     Chain [''fdclose'', ''3'']
     (Chain [''fdmove'', ''0'', ''4'']
     (If (Chain [''redirfd'', ''-w'', ''1'', ''/dev/null''] (Prog [''head'', ''-1'']))
     (Prog [''vm-start'', vm])))"

definition clean_up :: "bytes \<Rightarrow> script" where
  "clean_up vm_name =
     If (Forx True (map (\<lambda>service. Prog [''s6-instance-delete'', ''/run/service/'' @ service, ''run.'' @ vm_name]) services))
     (If (Forx False (map (\<lambda>dir. Prog [''umount'', dir])
        [''/run/configs/'' @ vm_name @ ''/fs/run'', ''/run/vm/run.'' @ vm_name @ ''/fs/config'', ''/run/vm/run.'' @ vm_name @ ''/fs/doc'']))
     (Prog [''rm'', ''-r'', ''/run/vm/run.'' @ vm_name, ''/run/configs/'' @ vm_name]))"

definition run_appimage_vm :: "bytes \<Rightarrow> script" where
  "run_appimage_vm vm_name =
     Chain [''piperw'', ''4'', ''3'']
     (Background (boot_when_up (''run.'' @ vm_name))
     (Chain [''fdclose'', ''4'']
     (Foreground (Prog [''start-vmm'', ''run.'' @ vm_name])
     (Chain [''fdclose'', ''3'']
     (clean_up vm_name)))))"

definition run_appimage :: "path \<Rightarrow> script" where
  "run_appimage appimage =
     Backtick [''uuidgen''] (\<lambda>vm_name.
       If (Prog [''mkdir'', ''-p'', ''/run/configs/'' @ vm_name @ ''/fs''])
       (If (Chain [''redirfd'', ''-w'', ''1'', ''/run/configs/'' @ vm_name @ ''/fs/type''] (Prog [''echo'', ''appimage'']))
       (If (Prog [''touch'', ''/run/configs/'' @ vm_name @ ''/fs/run''])
       (If (Prog [''mount'', ''--rbind'', appimage, ''/run/configs/'' @ vm_name @ ''/fs/run''])
       (If (Prog [''ln'', ''-s'', ''/usr/img/appvm/blk'', ''/usr/img/appvm/vmlinux'', ''/run/configs/'' @ vm_name])
       (If (Prog [''mkdir'', ''/run/vm/run.'' @ vm_name])
       (If (Prog [''ln'', ''-s'', ''/run/configs/'' @ vm_name, ''/run/vm/run.'' @ vm_name @ ''/config''])
       (If (Prog [''create-vm-dependencies'', ''run.'' @ vm_name])
       (run_appimage_vm vm_name)))))))))"

definition usr_bin :: "argv \<Rightarrow> script option" where
  "usr_bin a =
     (case a of
        [p, x] \<Rightarrow>
          if p = ''vm-start'' then Some (vm_start x)
          else if p = ''vm-stop'' then Some (vm_stop x)
          else if p = ''create-vm-dependencies'' then Some (create_vm_dependencies x)
          else if p = ''run-appimage'' then Some (run_appimage x)
          else None
      | [p, x, y] \<Rightarrow> if p = ''vm-import'' then Some (vm_import x y) else None
      | _ \<Rightarrow> None)"

section \<open>The order of calls\<close>

lemmas script_defs = service_up_def create_vm_dependencies_def import_one_def start_providers_def vm_start_def
  boot_when_up_def clean_up_def run_appimage_vm_def

lemma usr_bin_simps [simp]:
  "usr_bin [p] = None" "usr_bin (p # x # y # z # a) = None"
  "usr_bin [''vm-start'', x] = Some (vm_start x)" "usr_bin [''create-vm-dependencies'', x] = Some (create_vm_dependencies x)"
  by (simp_all add: usr_bin_def)

text \<open>The programs that \<open>vm-start\<close> and \<open>create-vm-dependencies\<close> come to call.\<close>

definition start_programs :: "argv \<Rightarrow> bool" where
  "start_programs a \<longleftrightarrow> a = [''s6-rc'', ''-bu'', ''change'', ''ext-rc''] \<or> (\<exists>v. a = [''vm-start'', v]) \<or> (\<exists>v. a = boot v)"

lemma start_programs_closed: "start_programs a \<Longrightarrow> usr_bin a = Some d \<Longrightarrow> programs_in L start_programs (\<lambda>_. True) d"
  by (auto simp: start_programs_def boot_def vm_start_def start_providers_def list_all_iff)

lemma start_never:
  assumes "\<And>e. event_in start_programs (\<lambda>_. True) e \<Longrightarrow> \<not> Q e"
  shows "never usr_bin L Q (Prog [''vm-start'', v])"
  using assms by (intro never_programs [OF start_programs_closed]) (auto simp: start_programs_def)

definition dependency_programs :: "bytes \<Rightarrow> argv \<Rightarrow> bool" where
  "dependency_programs vm a \<longleftrightarrow> (\<exists>x l. a = ''mount'' # x # l \<and> l \<noteq> []) \<or> (\<exists>x y. a = [''mkdir'', ''-p'', x, y]) \<or>
     (\<exists>service \<in> set services. a = [''s6-instance-create'', ''/run/service/'' @ service, vm] \<or>
        a = [''s6-svwait'', ''-U'', ''/run/service/'' @ service @ ''/instance/'' @ vm])"

lemma dependency_programs_closed: "dependency_programs vm a \<Longrightarrow> usr_bin a = Some d \<Longrightarrow> programs_in L (dependency_programs vm) D d"
  by (auto simp: dependency_programs_def usr_bin_def split: list.splits if_splits)

lemma dependencies_never:
  assumes "\<And>e. event_in (dependency_programs vm) (\<lambda>_. False) e \<Longrightarrow> \<not> Q e"
  shows "never usr_bin L Q (create_vm_dependencies vm)"
  using assms
  by (intro never_programs [OF dependency_programs_closed])
    (auto simp: dependency_programs_def create_vm_dependencies_def service_up_def list_all_iff)

text \<open>Rules that go on to the rest of a chain, or stop at the event that was looked for.\<close>

lemma ordered_If_pass: "ordered B L P Q b \<Longrightarrow> ordered B L P Q c \<Longrightarrow> ordered B L P Q (If b c)"
  by (simp add: ordered_If)

lemma ordered_If_guard: "ordered B L P Q (Prog a) \<Longrightarrow> P (Ended a 0) \<Longrightarrow> ordered B L P Q (If (Prog a) c)"
  by (intro ordered_If disjI1 marks_Prog) simp_all

lemma ordered_IfTN_pass: "ordered B L P Q b \<Longrightarrow> ordered B L P Q c \<Longrightarrow> ordered B L P Q (IfTN b c)"
  by (simp add: ordered_IfTN)

lemma ordered_Chain_pass: "\<not> Q (Did a) \<Longrightarrow> ordered B L P Q c \<Longrightarrow> ordered B L P Q (Chain a c)"
  by (simp add: ordered_Chain)

lemma ordered_Foreground_pass: "ordered B L P Q b \<Longrightarrow> ordered B L P Q c \<Longrightarrow> ordered B L P Q (Foreground b c)"
  by (simp add: ordered_Foreground)

lemmas pass_rules = ordered_If_pass ordered_IfTN_pass ordered_Chain_pass ordered_Foreground_pass ordered_Forx

text \<open>A sequence of \<open>if\<close>.\<close>

primrec ifs :: "script list \<Rightarrow> script \<Rightarrow> script" where
  "ifs [] c = c"
| "ifs (b # bs) c = If b (ifs bs c)"

lemma ordered_ifs_pass: "(\<And>b. b \<in> set bs \<Longrightarrow> ordered B L P Q b) \<Longrightarrow> ordered B L P Q c \<Longrightarrow> ordered B L P Q (ifs bs c)"
  by (induction bs) (simp_all add: ordered_If)

lemma ordered_ifs_guard:
  "(\<And>b. b \<in> set bs \<Longrightarrow> ordered B L P Q b) \<Longrightarrow> ordered B L P Q b \<Longrightarrow> marks B L (\<lambda>n. n = 0) P b \<Longrightarrow> ordered B L P Q (ifs (bs @ b # bs') c)"
  by (induction bs) (simp_all add: ordered_If)

lemma ordered_plain:
  assumes "usr_bin a = None" "\<not> Q (Started a)" "\<And>n. \<not> Q (Ended a n)"
  shows "ordered usr_bin L P Q (Prog a)"
  using assms by (intro ordered_Prog) simp_all

lemma ordered_dependencies:
  assumes "\<And>e. event_in (dependency_programs vm) (\<lambda>_. False) e \<Longrightarrow> \<not> Q e" "\<not> Q (Started [''create-vm-dependencies'', vm])"
    "\<And>n. \<not> Q (Ended [''create-vm-dependencies'', vm] n)"
  shows "ordered usr_bin L P Q (Prog [''create-vm-dependencies'', vm])"
  using assms dependencies_never by (intro ordered_Prog) (auto intro: never_ordered)

section \<open>Importing virtual machines\<close>

lemma vm_import_ordered:
  assumes "\<And>name. ordered usr_bin L P Q (import_one grp dir name)" "\<not> Q (Did [''cd'', dir])"
  shows "ordered usr_bin L P Q (vm_import grp dir)"
  unfolding vm_import_def using assms by (intro ordered_Chain_pass ordered_Elglob ordered_Forx) auto

text \<open>The programs an import calls after the first, in their order.\<close>

definition import_steps :: "bytes \<Rightarrow> path \<Rightarrow> bytes \<Rightarrow> argv list" where
  "import_steps grp dir name =
     (let vm = grp @ ''.'' @ name in
      [[''mkdir'', ''/run/vm/'' @ vm], [''ln'', ''-s'', dir @ ''/'' @ name, ''/run/vm/'' @ vm @ ''/config''], [''create-vm-dependencies'', vm],
       [''s6-instance-create'', ''/run/service/vmm'', vm], [''s6-svwait'', ''-U'', ''/run/service/vmm/instance/'' @ vm]])"

lemma import_one_ifs:
  "import_one grp dir name = IfTN (Prog [''test'', ''-d'', ''/run/vm/'' @ grp @ ''.'' @ name])
     (ifs (map Prog (butlast (import_steps grp dir name))) (Prog (last (import_steps grp dir name))))"
  by (simp add: import_one_def import_steps_def Let_def)

lemma import_steps_inj: "a \<in> set (import_steps grp dir name) \<Longrightarrow> a \<in> set (import_steps grp dir m) \<Longrightarrow> m = name"
  by (auto simp: import_steps_def Let_def)

lemma import_steps_distinct: "distinct (import_steps grp dir name)"
  by (simp add: import_steps_def Let_def)

lemma import_plain:
  assumes "a \<in> set (import_steps grp dir m)" "x \<in> set (import_steps grp dir name)" "a \<noteq> x"
  shows "ordered usr_bin L P (\<lambda>e. e = Started x) (Prog a)"
proof (cases "a = [''create-vm-dependencies'', grp @ ''.'' @ m]")
  case True
  have "x \<noteq> b" if "dependency_programs (grp @ ''.'' @ m) b" for b
    using that assms(2) by (auto simp: dependency_programs_def import_steps_def services_def Let_def)
  then have "\<not> event_in (dependency_programs (grp @ ''.'' @ m)) (\<lambda>_. False) (Started x)" by auto
  with True assms(3) show ?thesis by (auto intro!: ordered_dependencies)
next
  case False
  with assms(1) have "usr_bin a = None" by (auto simp: import_steps_def usr_bin_def Let_def)
  with assms(3) show ?thesis by (intro ordered_plain) auto
qed

lemma import_one_ordered:
  assumes "Suc i < length (import_steps grp dir name)"
  shows "ordered usr_bin L (\<lambda>e. e = Ended (import_steps grp dir name ! i) 0) (\<lambda>e. e = Started (import_steps grp dir name ! Suc i))
    (import_one grp dir m)"
proof -
  let ?steps = "import_steps grp dir name" and ?as = "import_steps grp dir m"
  let ?x = "?steps ! Suc i"
  have x: "?x \<in> set ?steps" using assms by simp
  have "[''test'', ''-d'', ''/run/vm/'' @ grp @ ''.'' @ m] \<noteq> ?x" using x by (auto simp: import_steps_def Let_def)
  then have test: "ordered usr_bin L P (\<lambda>e. e = Started ?x) (Prog [''test'', ''-d'', ''/run/vm/'' @ grp @ ''.'' @ m])" for P
    by (intro ordered_plain) (auto simp: usr_bin_def)
  show ?thesis
  proof (cases "m = name")
    case False
    then have "a \<noteq> ?x" if "a \<in> set ?as" for a using import_steps_inj [OF x, of m] that by auto
    then have "ordered usr_bin L P (\<lambda>e. e = Started ?x) (Prog a)" if "a \<in> set ?as" for P a using import_plain x that by blast
    moreover have "last ?as \<in> set ?as" by (simp add: import_steps_def Let_def)
    ultimately show ?thesis unfolding import_one_ifs
      by (intro ordered_IfTN_pass test ordered_ifs_pass) (auto dest: in_set_butlastD)
  next
    case True
    have l: "butlast ?steps = take i ?steps @ ?steps ! i # drop (Suc i) (butlast ?steps)"
      using assms id_take_nth_drop [of i "butlast ?steps"] by (simp add: nth_butlast take_butlast)
    have "a \<noteq> ?x" if "a \<in> set (take (Suc i) ?steps)" for a
      using that import_steps_distinct [of grp dir name] assms by (auto simp: in_set_conv_nth nth_eq_iff_index_eq)
    then have "ordered usr_bin L P (\<lambda>e. e = Started ?x) (Prog a)" if "a \<in> set (take (Suc i) ?steps)" for P a
      using that import_plain x by (meson in_set_takeD)
    then have "ordered usr_bin L P (\<lambda>e. e = Started ?x) (Prog (?steps ! i))"
      "\<And>a. a \<in> set (take i ?steps) \<Longrightarrow> ordered usr_bin L P (\<lambda>e. e = Started ?x) (Prog a)" for P
      using assms by (simp_all add: take_Suc_conv_app_nth)
    then show ?thesis unfolding import_one_ifs True
      by (subst l) (use test True in \<open>auto intro!: ordered_IfTN_pass ordered_ifs_guard marks_Prog simp: list.map map_append\<close>)
  qed
qed

lemma import_one_test:
  "ordered usr_bin L (\<lambda>e. \<exists>n. n \<noteq> 0 \<and> e = Ended [''test'', ''-d'', ''/run/vm/'' @ grp @ ''.'' @ name] n)
     (\<lambda>e. e = Started [''mkdir'', ''/run/vm/'' @ grp @ ''.'' @ name]) (import_one grp dir m)"
proof -
  let ?x = "[''mkdir'', ''/run/vm/'' @ grp @ ''.'' @ name]"
  have x: "?x \<in> set (import_steps grp dir name)" by (simp add: import_steps_def Let_def)
  have test: "ordered usr_bin L P (\<lambda>e. e = Started ?x) (Prog [''test'', ''-d'', ''/run/vm/'' @ grp @ ''.'' @ m])" for P
    by (intro ordered_plain) (auto simp: usr_bin_def)
  show ?thesis
  proof (cases "m = name")
    case True
    with test show ?thesis unfolding import_one_ifs by (intro ordered_IfTN disjI1 marks_Prog) auto
  next
    case False
    then have "a \<noteq> ?x" if "a \<in> set (import_steps grp dir m)" for a using import_steps_inj [OF x, of m] that by auto
    then have "ordered usr_bin L P (\<lambda>e. e = Started ?x) (Prog a)" if "a \<in> set (import_steps grp dir m)" for P a
      using import_plain x that by blast
    moreover have "last (import_steps grp dir m) \<in> set (import_steps grp dir m)" by (simp add: import_steps_def Let_def)
    ultimately show ?thesis unfolding import_one_ifs
      by (intro ordered_IfTN_pass test ordered_ifs_pass) (auto dest: in_set_butlastD)
  qed
qed

text \<open>
  C14. \<open>vm-import\<close> brings up virtual machines in the right order, although it does so for all at the same time and may fail anywhere: the VMM
  of a machine is created only after its dependencies are in place, those only after its configuration was linked, that only after its
  directory was made, and that only if there was none. At no moment of any run is one of these begun before the one before has succeeded.
\<close>

theorem vm_import_order:
  assumes "runs usr_bin L (vm_import grp dir) tr r"
  defines "steps \<equiv> \<lambda>name. import_steps grp dir name"
  shows "(\<forall>name i. Suc i < length (steps name) \<longrightarrow>
      preceded (\<lambda>e. e = Ended (steps name ! i) 0) (\<lambda>e. e = Started (steps name ! Suc i)) tr) \<and>
    (\<forall>name. preceded (\<lambda>e. \<exists>n. n \<noteq> 0 \<and> e = Ended [''test'', ''-d'', ''/run/vm/'' @ grp @ ''.'' @ name] n)
      (\<lambda>e. e = Started [''mkdir'', ''/run/vm/'' @ grp @ ''.'' @ name]) tr)"
proof -
  have "preceded (\<lambda>e. e = Ended (steps name ! i) 0) (\<lambda>e. e = Started (steps name ! Suc i)) tr" if "Suc i < length (steps name)" for name i
    using that unfolding steps_def by (intro orderedD [OF vm_import_ordered [OF import_one_ordered] assms(1)]) auto
  moreover have "preceded (\<lambda>e. \<exists>n. n \<noteq> 0 \<and> e = Ended [''test'', ''-d'', ''/run/vm/'' @ grp @ ''.'' @ name] n)
      (\<lambda>e. e = Started [''mkdir'', ''/run/vm/'' @ grp @ ''.'' @ name]) tr" for name
    by (intro orderedD [OF vm_import_ordered [OF import_one_test] assms(1)]) simp
  ultimately show ?thesis by blast
qed

section \<open>Running an AppImage\<close>

definition app_blocks :: "path \<Rightarrow> bytes \<Rightarrow> script list" where
  "app_blocks appimage vm_name =
     [Prog [''mkdir'', ''-p'', ''/run/configs/'' @ vm_name @ ''/fs''],
      Chain [''redirfd'', ''-w'', ''1'', ''/run/configs/'' @ vm_name @ ''/fs/type''] (Prog [''echo'', ''appimage'']),
      Prog [''touch'', ''/run/configs/'' @ vm_name @ ''/fs/run''],
      Prog [''mount'', ''--rbind'', appimage, ''/run/configs/'' @ vm_name @ ''/fs/run''],
      Prog [''ln'', ''-s'', ''/usr/img/appvm/blk'', ''/usr/img/appvm/vmlinux'', ''/run/configs/'' @ vm_name],
      Prog [''mkdir'', ''/run/vm/run.'' @ vm_name],
      Prog [''ln'', ''-s'', ''/run/configs/'' @ vm_name, ''/run/vm/run.'' @ vm_name @ ''/config'']]"

lemma run_appimage_ifs:
  "run_appimage appimage = Backtick [''uuidgen''] (\<lambda>v. ifs (app_blocks appimage v @ [Prog [''create-vm-dependencies'', ''run.'' @ v]]) (run_appimage_vm v))"
  by (simp add: run_appimage_def app_blocks_def)

definition app_programs :: "argv \<Rightarrow> bool" where
  "app_programs a \<longleftrightarrow> hd a \<in> {''uuidgen'', ''mkdir'', ''echo'', ''touch'', ''mount'', ''ln'', ''create-vm-dependencies'', ''s6-instance-create'', ''s6-svwait''}"

lemma app_programs_closed: "app_programs a \<Longrightarrow> usr_bin a = Some d \<Longrightarrow> programs_in L app_programs (\<lambda>a. hd a = ''redirfd'') d"
  by (auto simp: app_programs_def usr_bin_def create_vm_dependencies_def service_up_def list_all_iff split: list.splits if_splits)

lemma app_blocks_ordered:
  assumes "\<And>e. Q e \<Longrightarrow> \<not> event_in app_programs (\<lambda>a. hd a = ''redirfd'') e"
    "b \<in> set (Prog [''uuidgen''] # app_blocks appimage v @ [Prog [''create-vm-dependencies'', ''run.'' @ v]])"
  shows "ordered usr_bin L P Q b"
  using assms by (intro never_ordered never_programs [OF app_programs_closed]) (auto simp: app_blocks_def app_programs_def)

text \<open>What comes after the blocks decides about other events.\<close>

lemma run_appimage_ordered:
  assumes "\<And>e. Q e \<Longrightarrow> \<not> event_in app_programs (\<lambda>a. hd a = ''redirfd'') e"
    "\<And>v. P (Ended [''create-vm-dependencies'', ''run.'' @ v] 0) \<or> ordered usr_bin L P Q (run_appimage_vm v)"
  shows "ordered usr_bin L P Q (run_appimage appimage)"
  unfolding run_appimage_ifs
proof (rule ordered_Backtick)
  show "ordered usr_bin L P Q (Prog [''uuidgen''])" using app_blocks_ordered [OF assms(1)] by simp
  fix v
  note b = app_blocks_ordered [OF assms(1), where v = v and appimage = appimage]
  show "ordered usr_bin L P Q (ifs (app_blocks appimage v @ [Prog [''create-vm-dependencies'', ''run.'' @ v]]) (run_appimage_vm v))"
  proof (cases "ordered usr_bin L P Q (run_appimage_vm v)")
    case True
    with b show ?thesis by (intro ordered_ifs_pass) simp_all
  next
    case False
    with assms(2) have "P (Ended [''create-vm-dependencies'', ''run.'' @ v] 0)" by blast
    with b show ?thesis by (intro ordered_ifs_guard marks_Prog) simp_all
  qed
qed

lemma boot_when_up_never:
  assumes "\<And>e. event_in (\<lambda>a. start_programs a \<or> a = [''head'', ''-1'']) (\<lambda>_. True) e \<Longrightarrow> \<not> Q e"
  shows "never usr_bin L Q (boot_when_up vm)"
proof (rule never_programs [where R = "\<lambda>a. start_programs a \<or> a = [''head'', ''-1'']" and D = "\<lambda>_. True"])
  fix a d assume "start_programs a \<or> a = [''head'', ''-1'']" "usr_bin a = Some d"
  then show "programs_in L (\<lambda>a. start_programs a \<or> a = [''head'', ''-1'']) (\<lambda>_. True) d"
    by (auto simp: start_programs_def boot_def usr_bin_def vm_start_def start_providers_def list_all_iff)
qed (use assms in \<open>auto simp: boot_when_up_def start_programs_def\<close>)

lemma clean_up_never:
  assumes "\<And>e. event_in (\<lambda>a. hd a \<in> {''s6-instance-delete'', ''umount''} \<or> a = [''rm'', ''-r'', ''/run/vm/run.'' @ v, ''/run/configs/'' @ v]) (\<lambda>_. False) e \<Longrightarrow> \<not> Q e"
  shows "never usr_bin L Q (clean_up v)"
proof (rule never_programs [where D = "\<lambda>_. False"])
  fix a d assume "hd a \<in> {''s6-instance-delete'', ''umount''} \<or> a = [''rm'', ''-r'', ''/run/vm/run.'' @ v, ''/run/configs/'' @ v]" "usr_bin a = Some d"
  then show "programs_in L (\<lambda>a. hd a \<in> {''s6-instance-delete'', ''umount''} \<or> a = [''rm'', ''-r'', ''/run/vm/run.'' @ v, ''/run/configs/'' @ v]) (\<lambda>_. False) d"
    by (auto simp: usr_bin_def split: list.splits if_splits)
qed (use assms in \<open>auto simp: clean_up_def list_all_iff\<close>)

text \<open>The four orders of \<open>run-appimage\<close>.\<close>

lemma appimage_dependencies_first:
  "ordered usr_bin L (\<lambda>e. e = Ended [''create-vm-dependencies'', ''run.'' @ u] 0) (\<lambda>e. e = Started [''start-vmm'', ''run.'' @ u]) (run_appimage appimage)"
proof (rule run_appimage_ordered)
  let ?P = "\<lambda>e. e = Ended [''create-vm-dependencies'', ''run.'' @ u] 0" and ?Q = "\<lambda>e. e = Started [''start-vmm'', ''run.'' @ u]"
  fix v
  have "ordered usr_bin L ?P ?Q (run_appimage_vm v)" if "v \<noteq> u"
    unfolding run_appimage_vm_def using that
    by (intro ordered_Chain_pass ordered_Background ordered_Foreground_pass never_ordered [OF boot_when_up_never]
        never_ordered [OF clean_up_never] ordered_plain) (auto simp: start_programs_def boot_def usr_bin_def)
  then show "?P (Ended [''create-vm-dependencies'', ''run.'' @ v] 0) \<or> ordered usr_bin L ?P ?Q (run_appimage_vm v)" by auto
qed (auto simp: app_programs_def)

lemma appimage_boots_when_up:
  "ordered usr_bin L (\<lambda>e. e = Ended [''head'', ''-1''] 0) (\<lambda>e. \<exists>a. e = Started (''vm-start'' # a)) (run_appimage appimage)"
proof (rule run_appimage_ordered)
  let ?P = "\<lambda>e. e = Ended [''head'', ''-1''] 0" and ?Q = "\<lambda>e. \<exists>a. e = Started (''vm-start'' # a)"
  fix v
  have "ordered usr_bin L ?P ?Q (boot_when_up (''run.'' @ v))"
    unfolding boot_when_up_def
    by (intro ordered_Chain_pass ordered_If disjI1 marks_Chain marks_Prog ordered_plain) (auto simp: usr_bin_def)
  then have "ordered usr_bin L ?P ?Q (run_appimage_vm v)"
    unfolding run_appimage_vm_def
    by (intro ordered_Chain_pass ordered_Background ordered_Foreground_pass never_ordered [OF clean_up_never] ordered_plain)
      (auto simp: usr_bin_def)
  then show "?P (Ended [''create-vm-dependencies'', ''run.'' @ v] 0) \<or> ordered usr_bin L ?P ?Q (run_appimage_vm v)" ..
qed (auto simp: app_programs_def)

lemma appimage_removed_last:
  "ordered usr_bin L (\<lambda>e. \<exists>n. e = Ended [''start-vmm'', ''run.'' @ u] n)
     (\<lambda>e. e = Started [''rm'', ''-r'', ''/run/vm/run.'' @ u, ''/run/configs/'' @ u]) (run_appimage appimage)"
proof (rule run_appimage_ordered)
  let ?P = "\<lambda>e. \<exists>n. e = Ended [''start-vmm'', ''run.'' @ u] n"
    and ?Q = "\<lambda>e. e = Started [''rm'', ''-r'', ''/run/vm/run.'' @ u, ''/run/configs/'' @ u]"
  fix v
  have b: "ordered usr_bin L ?P ?Q (boot_when_up (''run.'' @ v))"
    by (intro never_ordered [OF boot_when_up_never]) (auto simp: start_programs_def boot_def)
  have s: "ordered usr_bin L ?P ?Q (Prog [''start-vmm'', ''run.'' @ v])" by (intro ordered_plain) (auto simp: usr_bin_def)
  have "marks usr_bin L (\<lambda>_. True) ?P (Prog [''start-vmm'', ''run.'' @ v]) \<or> ordered usr_bin L ?P ?Q (Chain [''fdclose'', ''3''] (clean_up v))"
  proof (cases "v = u")
    case True
    then show ?thesis by (intro disjI1 marks_Prog) auto
  next
    case False
    then show ?thesis by (intro disjI2 ordered_Chain_pass never_ordered [OF clean_up_never]) auto
  qed
  with b s have "ordered usr_bin L ?P ?Q (run_appimage_vm v)"
    unfolding run_appimage_vm_def by (intro ordered_Chain_pass ordered_Background ordered_Foreground) auto
  then show "?P (Ended [''create-vm-dependencies'', ''run.'' @ v] 0) \<or> ordered usr_bin L ?P ?Q (run_appimage_vm v)" ..
qed (auto simp: app_programs_def)

definition vmm_arguments :: "argv \<Rightarrow> bool" where
  "vmm_arguments a \<longleftrightarrow> (hd a = ''start-vmm'' \<longrightarrow> (\<exists>u. a = [''start-vmm'', ''run.'' @ u]))"

lemma appimage_vmm_arguments: "runs usr_bin L (run_appimage appimage) tr r \<Longrightarrow> list_all (event_in vmm_arguments (\<lambda>_. True)) tr"
proof (erule runs_events)
  fix a d assume "usr_bin a = Some d"
  then show "programs_in L vmm_arguments (\<lambda>_. True) d"
    by (auto simp: usr_bin_def vmm_arguments_def vm_start_def start_providers_def boot_def vm_stop_def create_vm_dependencies_def service_up_def
        vm_import_def import_one_def Let_def run_appimage_def run_appimage_vm_def boot_when_up_def clean_up_def list_all_iff split: list.splits if_splits)
qed (auto simp: vmm_arguments_def run_appimage_def run_appimage_vm_def boot_when_up_def clean_up_def list_all_iff)


section \<open>Starting virtual machines\<close>

text \<open>The providers of a machine, if \<open>dirs\<close> are the names in each directory, and a machine with no infinite chain of providers.\<close>

definition provides :: "(path \<Rightarrow> bytes list) \<Rightarrow> (bytes \<times> bytes) set" where
  "provides dirs = {(p, vm). p \<in> set (dirs (provider_dir vm))}"

definition listing :: "(path \<Rightarrow> bytes list) \<Rightarrow> path \<Rightarrow> bytes list \<Rightarrow> bool" where
  "listing dirs d ns \<longleftrightarrow> ns = dirs d"

text \<open>The three parts of a run of \<open>vm-start\<close>.\<close>

lemma boot_plain [simp]: "usr_bin (boot vm) = None" "usr_bin [''s6-rc'', ''-bu'', ''change'', ''ext-rc''] = None"
  by (simp_all add: boot_def)

lemma vm_start_cases:
  assumes "runs usr_bin L (vm_start vm) tr r"
  obtains (early) "r = None" "tr = [] \<or> tr = [Started [''s6-rc'', ''-bu'', ''change'', ''ext-rc'']]"
  | (providers) n ps where "r = None" "tr = [Started [''s6-rc'', ''-bu'', ''change'', ''ext-rc''], Ended [''s6-rc'', ''-bu'', ''change'', ''ext-rc''] n] @ ps"
      "runs usr_bin L (start_providers vm) ps None"
  | (boots) n ps m bs where "tr = [Started [''s6-rc'', ''-bu'', ''change'', ''ext-rc''], Ended [''s6-rc'', ''-bu'', ''change'', ''ext-rc''] n] @ ps @ bs"
      "runs usr_bin L (start_providers vm) ps (Some m)" "runs usr_bin L (Prog (boot vm)) bs r"
proof -
  let ?s = "[''s6-rc'', ''-bu'', ''change'', ''ext-rc'']"
  have s: "xs = [Started ?s, Ended ?s n]" if "runs usr_bin L (Prog ?s) xs (Some n)" for xs n
    using that by (auto elim!: runs_ProgE)
  have s': "xs = [] \<or> xs = [Started ?s]" if "runs usr_bin L (Prog ?s) xs None" for xs
    using that by (auto elim!: runs_ProgE)
  from assms show thesis unfolding vm_start_def
  proof (cases rule: runs_ForegroundE [consumes 1, case_names cut go waits])
    case (go xs n ys)
    from go(3) show thesis
    proof (cases rule: runs_ForegroundE [consumes 1, case_names cut go waits])
      case cut
      with go(1) s [OF go(2)] show thesis by (intro providers [of n "[]"]) (auto intro: runs.cut)
    next
      case (go ps m bs)
      with \<open>tr = xs @ ys\<close> s [OF \<open>runs usr_bin L (Prog ?s) xs (Some n)\<close>] show thesis by (intro boots [of n ps bs m]) auto
    next
      case waits
      with go(1) s [OF go(2)] show thesis by (intro providers [of n ys]) auto
    qed
  qed (use early s' in auto)
qed

text \<open>A machine that was started has been told to boot.\<close>

lemma vm_start_boots:
  assumes "runs usr_bin L (vm_start vm) tr (Some n)"
  shows "Started (boot vm) \<in> set tr"
  using assms by (cases rule: vm_start_cases) (auto elim!: runs_ProgE)

lemma runs_par_length:
  assumes "\<And>c tr r. c \<in> set cs \<Longrightarrow> runs B L c tr r \<Longrightarrow> length tr \<le> N" "runs B L (Forx True cs) tr r"
  shows "length tr \<le> length cs * N"
  using assms
proof (induction cs arbitrary: tr r)
  case Nil
  then show ?case by (auto elim!: runs_ForxNilE)
next
  case (Cons c cs)
  from Cons.prems(2) show ?case
  proof (cases rule: runs_ForxParE [consumes 1, case_names cut go])
    case (go xs q ys r')
    have "length xs \<le> N" by (rule Cons.prems(1) [OF _ \<open>runs B L c xs q\<close>]) simp
    moreover have "length ys \<le> length cs * N"
      by (rule Cons.IH [OF _ \<open>runs B L (Forx True cs) ys r'\<close>]) (rule Cons.prems(1), simp_all)
    ultimately show ?thesis using length_shuffles [OF \<open>tr \<in> shuffles xs ys\<close>] by simp
  qed simp
qed

text \<open>The length of a run is bounded exactly if there is no infinite chain of providers.\<close>

lemma start_providers_length:
  assumes "\<And>p tr r. p \<in> set (dirs (provider_dir vm)) \<Longrightarrow> runs usr_bin (listing dirs) (vm_start p) tr r \<Longrightarrow> length tr \<le> N"
    "runs usr_bin (listing dirs) (start_providers vm) tr r"
  shows "length tr \<le> length (dirs (provider_dir vm)) * (N + 2) + 2"
proof -
  let ?loop = "Forx True (map (\<lambda>p. Prog [''vm-start'', p]) (dirs (provider_dir vm)))"
  have one: "length tr \<le> N + 2" if "c \<in> set (map (\<lambda>p. Prog [''vm-start'', p]) (dirs (provider_dir vm)))" "runs usr_bin (listing dirs) c tr r" for c tr r
  proof -
    from that(1) obtain p where p: "p \<in> set (dirs (provider_dir vm))" "c = Prog [''vm-start'', p]" by auto
    from that(2) [unfolded p(2)] show ?thesis
    proof (cases rule: runs_ProgE [consumes 1, case_names cut started ended running returned])
      case (running d xs)
      then have "runs usr_bin (listing dirs) (vm_start p) xs None" by simp
      from assms(1) [OF p(1) this] running show ?thesis by simp
    next
      case (returned d xs n)
      then have "runs usr_bin (listing dirs) (vm_start p) xs (Some n)" by simp
      from assms(1) [OF p(1) this] returned show ?thesis by simp
    qed simp_all
  qed
  have "length xs \<le> length (dirs (provider_dir vm)) * (N + 2)" if "runs usr_bin (listing dirs) ?loop xs q" for xs q
    using runs_par_length [OF one that] by simp
  note loop = this
  have "length xs \<le> length (dirs (provider_dir vm)) * (N + 2)"
    if "runs usr_bin (listing dirs) (Elglob (provider_dir vm) (\<lambda>ps. Forx True (map (\<lambda>p. Prog [''vm-start'', p]) ps))) xs q" for xs q
    using that by (cases rule: runs_ElglobE [consumes 1]) (use loop in \<open>auto simp: listing_def\<close>)
  then show ?thesis using assms(2) unfolding start_providers_def by (auto elim!: runs_ChainE)
qed

lemma vm_start_bounded:
  assumes "vm \<in> Wellfounded.acc (provides dirs)"
  shows "\<exists>N. \<forall>tr r. runs usr_bin (listing dirs) (vm_start vm) tr r \<longrightarrow> length tr \<le> N"
  using assms
proof (induction rule: Wellfounded.acc.induct)
  case (accI vm)
  let ?ps = "dirs (provider_dir vm)"
  have "\<forall>p \<in> set ?ps. \<exists>N. \<forall>tr r. runs usr_bin (listing dirs) (vm_start p) tr r \<longrightarrow> length tr \<le> N"
    using accI by (simp add: provides_def)
  from bchoice [OF this] obtain f where
    f: "\<And>p tr r. p \<in> set ?ps \<Longrightarrow> runs usr_bin (listing dirs) (vm_start p) tr r \<Longrightarrow> length tr \<le> f p" by blast
  define N where "N = sum_list (map f ?ps)"
  have le: "length tr \<le> N" if "p \<in> set ?ps" "runs usr_bin (listing dirs) (vm_start p) tr r" for p tr r
    using f [OF that] member_le_sum_list [of "f p" "map f ?ps"] that(1) by (simp add: N_def)
  have ps: "length xs \<le> length ?ps * (N + 2) + 2" if "runs usr_bin (listing dirs) (start_providers vm) xs q" for xs q
    by (rule start_providers_length [OF _ that]) (rule le)
  have "length tr \<le> length ?ps * (N + 2) + 6" if "runs usr_bin (listing dirs) (vm_start vm) tr r" for tr r
    using that
  proof (cases rule: vm_start_cases)
    case (boots n xs m bs)
    have "length bs \<le> 2" using boots(3) by (auto elim!: runs_ProgE)
    with ps [OF boots(2)] boots(1) show ?thesis by simp
  next
    case (providers n xs)
    with ps [OF providers(3)] show ?thesis by simp
  qed auto
  then show ?case by blast
qed

lemma Nil_shuffles: "xs \<in> shuffles xs []"
  by (cases xs) simp_all

lemma vm_start_unbounded:
  assumes "vm \<notin> Wellfounded.acc (provides dirs)"
  shows "\<exists>tr. runs usr_bin (listing dirs) (vm_start vm) tr None \<and> N \<le> length tr"
  using assms
proof (induction N arbitrary: vm)
  case 0
  show ?case using runs.cut by blast
next
  case (Suc N)
  let ?s = "[''s6-rc'', ''-bu'', ''change'', ''ext-rc'']"
  have "\<not> (\<forall>p. (p, vm) \<in> provides dirs \<longrightarrow> p \<in> Wellfounded.acc (provides dirs))" using Suc.prems by (auto intro: Wellfounded.accI)
  then obtain p where p: "p \<in> set (dirs (provider_dir vm))" "p \<notin> Wellfounded.acc (provides dirs)" by (auto simp: provides_def)
  from Suc.IH [OF p(2)] obtain tr where tr: "runs usr_bin (listing dirs) (vm_start p) tr None" "N \<le> length tr" by blast
  then have one: "runs usr_bin (listing dirs) (Prog [''vm-start'', p]) (Started [''vm-start'', p] # tr) None" by (intro running) simp_all
  have loop: "runs usr_bin (listing dirs) (Forx True (map (\<lambda>p. Prog [''vm-start'', p]) ps)) (Started [''vm-start'', p] # tr) None" if "p \<in> set ps" for ps
    using that
  proof (induction ps)
    case (Cons q ps)
    show ?case
    proof (cases "q = p")
      case True
      with forx_parallel [OF one cut Nil_shuffles] show ?thesis by simp
    next
      case False
      with Cons have "runs usr_bin (listing dirs) (Forx True (map (\<lambda>p. Prog [''vm-start'', p]) ps)) (Started [''vm-start'', p] # tr) None" by simp
      from forx_parallel [OF cut this] show ?thesis by simp
    qed
  qed simp
  have "runs usr_bin (listing dirs) (start_providers vm)
      (Did [''redirfd'', ''-w'', ''2'', ''/dev/null''] # Did [''cd'', provider_dir vm] # Started [''vm-start'', p] # tr) None"
    unfolding start_providers_def by (intro chain elglob [where ns = "dirs (provider_dir vm)"] loop p(1)) (simp add: listing_def)
  from foreground [OF ended [where a = ?s and n = 0] foreground_waits [OF this]] have
    "runs usr_bin (listing dirs) (vm_start vm) ([Started ?s, Ended ?s 0] @
       Did [''redirfd'', ''-w'', ''2'', ''/dev/null''] # Did [''cd'', provider_dir vm] # Started [''vm-start'', p] # tr) None"
    unfolding vm_start_def by simp
  with tr(2) show ?case by fastforce
qed

text \<open>
  C16. \<open>vm-start\<close> starts the providers of a machine first, and theirs before them. It comes to an end exactly if no chain of providers is
  infinite: then there is a bound on what it and all the processes it starts can ever do. Otherwise, as when two machines are each other's
  provider, there are runs of any length in which more and more processes are started.
\<close>

theorem vm_start_terminates:
  "bdd_above {length tr | tr r. runs usr_bin (listing dirs) (vm_start vm) tr r} \<longleftrightarrow> vm \<in> Wellfounded.acc (provides dirs)"
proof
  assume "bdd_above {length tr | tr r. runs usr_bin (listing dirs) (vm_start vm) tr r}"
  then obtain N where N: "\<And>tr r. runs usr_bin (listing dirs) (vm_start vm) tr r \<Longrightarrow> length tr \<le> N" by (auto simp: bdd_above_def)
  show "vm \<in> Wellfounded.acc (provides dirs)"
  proof (rule ccontr)
    assume "vm \<notin> Wellfounded.acc (provides dirs)"
    from vm_start_unbounded [OF this, of "Suc N"] obtain tr where "runs usr_bin (listing dirs) (vm_start vm) tr None" "Suc N \<le> length tr" by blast
    with N [OF this(1)] show False by simp
  qed
next
  assume "vm \<in> Wellfounded.acc (provides dirs)"
  from vm_start_bounded [OF this] show "bdd_above {length tr | tr r. runs usr_bin (listing dirs) (vm_start vm) tr r}" by (auto simp: bdd_above_def)
qed

text \<open>What is started under \<open>vm-start\<close> has ended when the machine is told to boot.\<close>

lemma start_waits:
  assumes "runs usr_bin L (start_providers vm) tr (Some n)"
  shows "all_ended tr"
proof -
  have "programs_in L start_programs (\<lambda>_. True) d \<and> waits d" if "start_programs a" "usr_bin a = Some d" for a d
    using that start_programs_closed [OF that]
    by (auto simp: start_programs_def boot_def vm_start_def start_providers_def list_all_iff)
  moreover have "programs_in L start_programs (\<lambda>_. True) (start_providers vm)" "waits (start_providers vm)"
    by (auto simp: start_programs_def start_providers_def list_all_iff)
  ultimately show ?thesis using runs_waits [OF assms, of start_programs "\<lambda>_. True"] by blast
qed

lemma started_boots:
  assumes "runs usr_bin L c tr r" "Ended [''vm-start'', p] n \<in> set tr"
  shows "Started (boot p) \<in> set tr"
  using assms
proof (induction rule: runs.induct)
  case (returned a c tr n)
  then show ?case using vm_start_boots by auto
qed (auto simp: set_shuffles)

text \<open>Without a cycle, only other machines are booted as providers.\<close>

definition below :: "(path \<Rightarrow> bytes list) \<Rightarrow> bytes \<Rightarrow> argv \<Rightarrow> bool" where
  "below dirs vm a \<longleftrightarrow> a = [''s6-rc'', ''-bu'', ''change'', ''ext-rc''] \<or> (\<exists>w. (w, vm) \<in> (provides dirs)\<^sup>+ \<and> (a = [''vm-start'', w] \<or> a = boot w))"

lemma below_closed: "below dirs vm a \<Longrightarrow> usr_bin a = Some d \<Longrightarrow> programs_in (listing dirs) (below dirs vm) (\<lambda>_. True) d"
proof -
  assume a: "below dirs vm a" "usr_bin a = Some d"
  then obtain w where w: "(w, vm) \<in> (provides dirs)\<^sup>+" "d = vm_start w" by (auto simp: below_def)
  have "below dirs vm [''vm-start'', p]" if "p \<in> set (dirs (provider_dir w))" for p
  proof -
    have "(p, w) \<in> provides dirs" using that by (simp add: provides_def)
    with w(1) have "(p, vm) \<in> (provides dirs)\<^sup>+" by (rule trancl_into_trancl2 [rotated])
    then show ?thesis by (auto simp: below_def)
  qed
  moreover have "below dirs vm (boot w)" "below dirs vm [''s6-rc'', ''-bu'', ''change'', ''ext-rc'']" using w(1) by (auto simp: below_def)
  ultimately show ?thesis by (simp add: w(2) vm_start_def start_providers_def list_all_iff listing_def)
qed

lemma providers_below: "runs usr_bin (listing dirs) (start_providers vm) tr r \<Longrightarrow> list_all (event_in (below dirs vm) (\<lambda>_. True)) tr"
proof (erule runs_events [OF _ below_closed])
  have "below dirs vm [''vm-start'', p]" if "p \<in> set (dirs (provider_dir vm))" for p
    using that unfolding below_def by (auto simp: provides_def intro: r_into_trancl)
  then show "programs_in (listing dirs) (below dirs vm) (\<lambda>_. True) (start_providers vm)"
    by (simp add: start_providers_def list_all_iff listing_def)
qed

lemma acc_irrefl: "x \<in> Wellfounded.acc r \<Longrightarrow> (x, x) \<notin> r\<^sup>+"
proof (induction rule: Wellfounded.acc.induct)
  case (accI x)
  show ?case
  proof
    assume "(x, x) \<in> r\<^sup>+"
    then obtain y where "(y, x) \<in> r" "(x, y) \<in> r\<^sup>*" by (meson tranclD2)
    then have "(y, y) \<in> r\<^sup>+" by (meson rtrancl_into_trancl2)
    with accI \<open>(y, x) \<in> r\<close> show False by blast
  qed
qed

lemma boot_inject [simp]: "boot v = boot w \<longleftrightarrow> v = w"
  by (simp add: boot_def)

lemma providers_no_boot:
  assumes "vm \<in> Wellfounded.acc (provides dirs)" "runs usr_bin (listing dirs) (start_providers vm) tr r"
  shows "Started (boot vm) \<notin> set tr"
proof
  assume "Started (boot vm) \<in> set tr"
  with providers_below [OF assms(2)] have "below dirs vm (boot vm)" by (auto simp: list_all_iff)
  moreover have "boot vm \<noteq> [''s6-rc'', ''-bu'', ''change'', ''ext-rc'']" "boot vm \<noteq> [''vm-start'', w]" for w by (simp_all add: boot_def)
  ultimately show False using acc_irrefl [OF assms(1)] by (auto simp: below_def)
qed

text \<open>
  C15. A machine is told to boot once, after its providers: if no chain of providers is infinite, then at the moment \<open>ch-remote\<close> is called for the
  machine, every process that \<open>vm-start\<close> has started for it has ended, and every provider it has started has itself
  been told to boot.
\<close>

theorem vm_start_order:
  assumes "vm \<in> Wellfounded.acc (provides dirs)" "runs usr_bin (listing dirs) (vm_start vm) (pre @ Started (boot vm) # post) r"
  shows "all_ended pre \<and> Started (boot vm) \<notin> set pre \<union> set post \<and>
    (\<forall>p. Started [''vm-start'', p] \<in> set pre \<longrightarrow> Started (boot p) \<in> set pre \<and> (\<exists>n. Ended (boot p) n \<in> set pre))"
proof -
  let ?s = "[''s6-rc'', ''-bu'', ''change'', ''ext-rc'']"
  have s: "?s \<noteq> boot vm" by (simp add: boot_def)
  from assms(2) obtain n ps m bs where b: "pre @ Started (boot vm) # post = [Started ?s, Ended ?s n] @ ps @ bs"
    "runs usr_bin (listing dirs) (start_providers vm) ps (Some m)" "runs usr_bin (listing dirs) (Prog (boot vm)) bs r"
  proof (cases rule: vm_start_cases)
    case early
    then show thesis using s by (cases pre) auto
  next
    case (providers n ps)
    then have "Started (boot vm) \<in> set ([Started ?s, Ended ?s n] @ ps)" by (metis in_set_conv_decomp)
    with providers_no_boot [OF assms(1) providers(3)] s show thesis by auto
  qed (use that in blast)
  let ?h = "[Started ?s, Ended ?s n] @ ps"
  have h: "Started (boot vm) \<notin> set ?h" using providers_no_boot [OF assms(1) b(2)] s by auto
  have "Started (boot vm) \<in> set (?h @ bs)" using b(1) by (metis append.assoc in_set_conv_decomp)
  with h b(3) obtain bs' where bs: "bs = Started (boot vm) # bs'" "Started (boot vm) \<notin> set bs'" by (auto elim!: runs_ProgE)
  have "?h @ Started (boot vm) # bs' = pre @ Started (boot vm) # post" using b(1) bs(1) by simp
  with append_Cons_eq_iff [OF h bs(2), of pre post] have pre: "pre = ?h" "post = bs'" by simp_all
  have "all_ended ?h" by (rule all_ended_append [OF _ start_waits [OF b(2)]]) simp
  moreover have "Started (boot p) \<in> set ?h \<and> (\<exists>n. Ended (boot p) n \<in> set ?h)" if "Started [''vm-start'', p] \<in> set ?h" for p
  proof -
    have "Started [''vm-start'', p] \<in> set ps" using that by simp
    with start_waits [OF b(2)] obtain k where "Ended [''vm-start'', p] k \<in> set ps" by (auto simp: all_ended_def)
    with started_boots [OF b(2)] have "Started (boot p) \<in> set ps" by blast
    with start_waits [OF b(2)] show ?thesis by (auto simp: all_ended_def)
  qed
  ultimately show ?thesis using h bs(2) unfolding pre by blast
qed

section \<open>Runs\<close>

text \<open>Runs in which every program succeeds.\<close>

lemma forx_succeeds:
  assumes "\<And>c. c \<in> set cs \<Longrightarrow> \<exists>tr n. runs B L c tr (Some n)"
  shows "\<exists>tr. runs B L (Forx True cs) tr (Some 0)"
  using assms
proof (induction cs)
  case Nil
  show ?case using forx_done by blast
next
  case (Cons c cs)
  from Cons.prems [of c] obtain xs n where x: "runs B L c xs (Some n)" by auto
  from Cons.IH Cons.prems obtain ys where y: "runs B L (Forx True cs) ys (Some 0)" by auto
  from forx_parallel [OF x y append_shuffles] show ?case by auto
qed

lemma plain_ends: "usr_bin a = None \<Longrightarrow> runs usr_bin L (Prog a) [Started a, Ended a n] (Some n)"
  by (rule ended)

lemma if_plain: "usr_bin a = None \<Longrightarrow> runs usr_bin L c tr r \<Longrightarrow> runs usr_bin L (If (Prog a) c) ([Started a, Ended a 0] @ tr) r"
  by (rule if_true [OF plain_ends])

lemma called_ends: "usr_bin a = Some c \<Longrightarrow> runs usr_bin L c tr (Some n) \<Longrightarrow> runs usr_bin L (Prog a) (Started a # tr @ [Ended a n]) (Some n)"
  by (rule returned)

lemma service_succeeds: "\<exists>tr n. runs usr_bin L (service_up vm service) tr (Some n)"
proof -
  have "usr_bin [''s6-instance-create'', x, vm] = None" "usr_bin [''s6-svwait'', ''-U'', y] = None" for x y by (simp_all add: usr_bin_def)
  from if_plain [OF this(1) plain_ends [OF this(2), where L = L and n = 0]] show ?thesis unfolding service_up_def by blast
qed

lemma dependencies_succeed: "\<exists>tr. runs usr_bin L (create_vm_dependencies vm) tr (Some 0)"
proof -
  have "\<exists>tr n. runs usr_bin L c tr (Some n)" if "c \<in> set (map (service_up vm) services)" for c
    using that service_succeeds by auto
  from forx_succeeds [OF this] obtain tr where t: "runs usr_bin L (Forx True (map (service_up vm) services)) tr (Some 0)" by blast
  have "usr_bin (x # y # z # w # l) = None" for x y z w l by simp
  from if_plain [OF this if_plain [OF this if_plain [OF this t]]] show ?thesis unfolding create_vm_dependencies_def by blast
qed

lemma import_runs:
  "\<exists>tr. runs usr_bin (listing (\<lambda>_. [''netvm''])) (vm_import ''user'' ''/ext'') tr None \<and>
     Started [''s6-instance-create'', ''/run/service/vmm'', ''user.netvm''] \<in> set tr"
proof -
  let ?L = "listing (\<lambda>_. [''netvm''])" and ?vm = "''user.netvm''"
  obtain deps where d: "runs usr_bin ?L (create_vm_dependencies ?vm) deps (Some 0)" using dependencies_succeed by blast
  have dep: "runs usr_bin ?L (Prog [''create-vm-dependencies'', ?vm]) (Started [''create-vm-dependencies'', ?vm] # deps @ [Ended [''create-vm-dependencies'', ?vm] 0]) (Some 0)"
    by (rule called_ends [OF _ d]) simp
  have plain: "usr_bin [''mkdir'', x] = None" "usr_bin [''ln'', x, y, z] = None" "usr_bin [''test'', x, y] = None" "usr_bin [''s6-instance-create'', x, y] = None" for x y z
    by (simp_all add: usr_bin_def)
  have last: "runs usr_bin ?L (Prog [''s6-instance-create'', ''/run/service/vmm'', ?vm]) [Started [''s6-instance-create'', ''/run/service/vmm'', ?vm]] None"
    by (rule started) (rule plain(4))
  have vm: "''user'' @ ''.'' @ ''netvm'' = ?vm" by simp
  note chain = if_plain [OF plain(1) if_plain [OF plain(2) if_true [OF dep if_waits [OF last]]]]
  have "\<exists>tr. runs usr_bin ?L (import_one ''user'' ''/ext'' ''netvm'') tr None \<and> Started [''s6-instance-create'', ''/run/service/vmm'', ?vm] \<in> set tr"
    unfolding import_one_def Let_def vm
    by (rule exI, rule conjI, rule iftn_false [OF plain_ends [OF plain(3), where n = 1] _ chain]) simp_all
  then obtain tr where tr: "runs usr_bin ?L (import_one ''user'' ''/ext'' ''netvm'') tr None"
    "Started [''s6-instance-create'', ''/run/service/vmm'', ?vm] \<in> set tr" by blast
  have "runs usr_bin ?L (Forx True (map (import_one ''user'' ''/ext'') [''netvm''])) tr None"
    using forx_parallel [OF tr(1) forx_done Nil_shuffles] by simp
  then have "runs usr_bin ?L (vm_import ''user'' ''/ext'') (Did [''cd'', ''/ext''] # tr) None"
    unfolding vm_import_def by (intro runs.chain elglob [where ns = "[''netvm'']"]) (simp_all add: listing_def)
  with tr(2) show ?thesis by (intro exI [of _ "Did [''cd'', ''/ext''] # tr"]) simp
qed

theorem vm_import_order_witness:
  "\<exists>tr. runs usr_bin (listing (\<lambda>_. [''netvm''])) (vm_import ''user'' ''/ext'') tr None \<and>
     Started [''s6-instance-create'', ''/run/service/vmm'', ''user.netvm''] \<in> set tr \<and>
     preceded (\<lambda>e. e = Ended [''create-vm-dependencies'', ''user.netvm''] 0)
       (\<lambda>e. e = Started [''s6-instance-create'', ''/run/service/vmm'', ''user.netvm'']) tr"
proof -
  obtain tr where tr: "runs usr_bin (listing (\<lambda>_. [''netvm''])) (vm_import ''user'' ''/ext'') tr None"
    "Started [''s6-instance-create'', ''/run/service/vmm'', ''user.netvm''] \<in> set tr" using import_runs by blast
  have steps: "Suc 2 < length (import_steps ''user'' ''/ext'' ''netvm'')" "import_steps ''user'' ''/ext'' ''netvm'' ! 2 = [''create-vm-dependencies'', ''user.netvm'']"
    "import_steps ''user'' ''/ext'' ''netvm'' ! Suc 2 = [''s6-instance-create'', ''/run/service/vmm'', ''user.netvm'']"
    by (simp_all add: import_steps_def Let_def)
  have "preceded (\<lambda>e. e = Ended [''create-vm-dependencies'', ''user.netvm''] 0)
       (\<lambda>e. e = Started [''s6-instance-create'', ''/run/service/vmm'', ''user.netvm'']) tr"
    using conjunct1 [OF vm_import_order [OF tr(1)], rule_format, OF steps(1)] unfolding steps(2,3) .
  with tr show ?thesis by blast
qed

lemma ifs_run:
  assumes "\<And>b. b \<in> set bs \<Longrightarrow> \<exists>t. runs B L b t (Some 0)" "runs B L c tr r"
  shows "\<exists>t. runs B L (ifs bs c) (t @ tr) r"
  using assms(1)
proof (induction bs)
  case Nil
  show ?case using assms(2) by (intro exI [of _ "[]"]) simp
next
  case (Cons b bs)
  from Cons.prems [of b] obtain t where t: "runs B L b t (Some 0)" by auto
  have "\<exists>t. runs B L (ifs bs c) (t @ tr) r" by (rule Cons.IH) (rule Cons.prems, simp)
  then obtain t' where "runs B L (ifs bs c) (t' @ tr) r" by blast
  from if_true [OF t this] show ?case by (intro exI [of _ "t @ t'"]) simp
qed

lemma app_block_runs:
  assumes "b \<in> set (app_blocks appimage v @ [Prog [''create-vm-dependencies'', ''run.'' @ v]])"
  shows "\<exists>t. runs usr_bin L b t (Some 0)"
proof -
  have p: "\<exists>t. runs usr_bin L (Prog a) t (Some 0)" if "usr_bin a = None" for a using plain_ends [OF that] by blast
  then have ch: "\<exists>t. runs usr_bin L (Chain d (Prog a)) t (Some 0)" if "usr_bin a = None" for a d using that runs.chain by blast
  obtain deps where "runs usr_bin L (create_vm_dependencies (''run.'' @ v)) deps (Some 0)" using dependencies_succeed by blast
  from called_ends [OF usr_bin_simps(4) this] have d: "\<exists>t. runs usr_bin L (Prog [''create-vm-dependencies'', ''run.'' @ v]) t (Some 0)" by blast
  have n: "usr_bin [''mkdir'', x] = None" "usr_bin [''mkdir'', x, y] = None" "usr_bin [''touch'', x] = None" "usr_bin [''echo'', x] = None" for x y
    by (simp_all add: usr_bin_def)
  have "list_all (\<lambda>b. \<exists>t. runs usr_bin L b t (Some 0)) (app_blocks appimage v)"
    unfolding app_blocks_def list.pred_inject by (intro conjI p ch n usr_bin_simps) simp
  with assms d show ?thesis unfolding list_all_iff by auto
qed

lemma appimage_runs:
  "\<exists>tr. runs usr_bin L (run_appimage ''/a'') tr None \<and> Started [''start-vmm'', ''run.'' @ ''1f''] \<in> set tr"
proof -
  let ?a = "[''start-vmm'', ''run.'' @ ''1f'']"
  have "usr_bin ?a = None" by (simp add: usr_bin_def)
  then have start: "runs usr_bin L (Prog ?a) [Started ?a] None" by (rule started)
  define tr where "tr = [Did [''piperw'', ''4'', ''3''], Did [''fdclose'', ''4''], Started ?a]"
  have "runs usr_bin L (run_appimage_vm ''1f'') tr None" unfolding run_appimage_vm_def tr_def
    by (intro runs.chain background [OF cut runs.chain [OF foreground_waits [OF start]]]) simp
  from ifs_run [OF app_block_runs [where appimage = "''/a''" and v = "''1f''"] this] obtain t where
    t: "runs usr_bin L (ifs (app_blocks ''/a'' ''1f'' @ [Prog [''create-vm-dependencies'', ''run.'' @ ''1f'']]) (run_appimage_vm ''1f'')) (t @ tr) None" by blast
  have uuid: "runs usr_bin L (Prog [''uuidgen'']) [Started [''uuidgen''], Ended [''uuidgen''] 0] (Some 0)" by (rule plain_ends) simp
  have "runs usr_bin L (run_appimage ''/a'') ([Started [''uuidgen''], Ended [''uuidgen''] 0] @ t @ tr) None"
    unfolding run_appimage_ifs by (rule backtick [where v = "''1f''", OF uuid]) (rule t)
  then show ?thesis by (intro exI conjI) (assumption, simp add: tr_def)
qed


text \<open>A machine with one provider, and two machines that are each other's provider.\<close>

definition dirs0 :: "path \<Rightarrow> bytes list" where
  "dirs0 d = (if d = provider_dir ''app'' then [''netvm'']
     else if d = provider_dir ''a'' then [''b''] else if d = provider_dir ''b'' then [''a''] else [])"

lemma provider_dir_inject [simp]: "provider_dir v = provider_dir w \<longleftrightarrow> v = w"
  by (simp add: provider_dir_def)

lemma dirs0_simps:
  "dirs0 (provider_dir ''app'') = [''netvm'']" "dirs0 (provider_dir ''netvm'') = []"
  "dirs0 (provider_dir ''a'') = [''b'']" "dirs0 (provider_dir ''b'') = [''a'']"
  by (simp_all add: dirs0_def)

lemma acc0: "''app'' \<in> Wellfounded.acc (provides dirs0)" "''a'' \<notin> Wellfounded.acc (provides dirs0)"
proof -
  have "''netvm'' \<in> Wellfounded.acc (provides dirs0)" by (rule Wellfounded.accI) (simp add: provides_def dirs0_simps)
  then have "y \<in> Wellfounded.acc (provides dirs0)" if "(y, ''app'') \<in> provides dirs0" for y
    using that by (simp add: provides_def dirs0_simps)
  then show "''app'' \<in> Wellfounded.acc (provides dirs0)" by (rule Wellfounded.accI)
  have e: "(''a'', ''b'') \<in> provides dirs0" "(''b'', ''a'') \<in> provides dirs0" by (simp_all add: provides_def dirs0_simps)
  have "(''a'', ''a'') \<in> (provides dirs0)\<^sup>+" by (rule trancl_into_trancl2 [OF e(1) r_into_trancl [OF e(2)]])
  then show "''a'' \<notin> Wellfounded.acc (provides dirs0)" using acc_irrefl [of "''a''" "provides dirs0"] by argo
qed

theorem vm_start_terminates_witness:
  "bdd_above {length tr | tr r. runs usr_bin (listing dirs0) (vm_start ''app'') tr r} \<and>
   \<not> bdd_above {length tr | tr r. runs usr_bin (listing dirs0) (vm_start ''a'') tr r}"
  unfolding vm_start_terminates using acc0 by (rule conjI)

lemma vm_start_run:
  assumes "runs usr_bin L (Forx True (map (\<lambda>p. Prog [''vm-start'', p]) ps)) tr (Some m)" "L (provider_dir vm) ps"
  defines "pre \<equiv> [Started [''s6-rc'', ''-bu'', ''change'', ''ext-rc''], Ended [''s6-rc'', ''-bu'', ''change'', ''ext-rc''] 0] @
    Did [''redirfd'', ''-w'', ''2'', ''/dev/null''] # Did [''cd'', provider_dir vm] # tr"
  shows "runs usr_bin L (vm_start vm) (pre @ [Started (boot vm), Ended (boot vm) 0]) (Some 0)"
proof -
  have "runs usr_bin L (start_providers vm) (Did [''redirfd'', ''-w'', ''2'', ''/dev/null''] # Did [''cd'', provider_dir vm] # tr) (Some m)"
    unfolding start_providers_def by (intro runs.chain elglob [where L = L and ns = ps] assms(1,2))
  from foreground [OF plain_ends [OF boot_plain(2), where n = 0] foreground [OF this plain_ends [OF boot_plain(1) [of vm], where L = L and n = 0]]]
  show ?thesis unfolding vm_start_def pre_def by simp
qed

theorem vm_start_order_witness:
  "\<exists>pre. runs usr_bin (listing dirs0) (vm_start ''app'') (pre @ [Started (boot ''app''), Ended (boot ''app'') 0]) (Some 0) \<and>
     Started [''vm-start'', ''netvm''] \<in> set pre \<and> all_ended pre \<and> Started (boot ''netvm'') \<in> set pre"
proof -
  let ?L = "listing dirs0"
  have ls: "?L (provider_dir ''app'') [''netvm'']" "?L (provider_dir ''netvm'') []"
    by (simp_all add: listing_def dirs0_simps)
  have none: "runs usr_bin ?L (Forx True (map (\<lambda>p. Prog [''vm-start'', p]) [])) [] (Some 0)" by (simp add: forx_done)
  obtain xs where x: "runs usr_bin ?L (vm_start ''netvm'') xs (Some 0)"
    by (rule that [OF vm_start_run [where L = ?L and vm = "''netvm''", OF none ls(2)]])
  let ?a = "[''vm-start'', ''netvm'']"
  have a: "runs usr_bin ?L (Prog ?a) (Started ?a # xs @ [Ended ?a 0]) (Some 0)" by (rule called_ends [OF _ x]) simp
  have y: "runs usr_bin ?L (Forx True (map (\<lambda>p. Prog [''vm-start'', p]) [''netvm''])) (Started ?a # xs @ [Ended ?a 0]) (Some 0)"
    using forx_parallel [OF a none Nil_shuffles] by simp
  obtain pre where pre: "runs usr_bin ?L (vm_start ''app'') (pre @ [Started (boot ''app''), Ended (boot ''app'') 0]) (Some 0)" "Started ?a \<in> set pre"
    by (rule that [OF vm_start_run [where L = ?L and vm = "''app''", OF y ls(1)]]) simp
  note o = vm_start_order [OF acc0(1) pre(1)]
  have "Started (boot ''netvm'') \<in> set pre" using o pre(2) by blast
  with o pre show ?thesis by blast
qed

end
