(* ===== verification/Services.thy ===== *)
theory Services
  imports HostTools
begin

text \<open>
  The services of a virtual machine (\<open>host/rootfs/etc/s6-linux-init/run-image/service/*/template/run\<close>), which \<open>create-vm-dependencies\<close>
  brings up, and the sockets they listen on. A service of the machine \<open>vm\<close> runs in its instance directory with the name of the
  machine as its argument.
\<close>

definition portal_service :: "bytes \<Rightarrow> script" where
  "portal_service vm =
     Chain [''export'', ''DBUS_SESSION_BUS_ADDRESS'', ''unix:path=/run/vm/'' @ vm @ ''/portal-bus'']
     (Chain [''s6-ipcserver-socketbinder'', ''-a'', ''0700'', ''/run/vm/'' @ vm @ ''/vsock_219'']
     (If (Chain [''fdmove'', ''1'', ''3''] (Prog [''echo'']))
     (Chain [''fdclose'', ''3'']
     (Prog [''xdg-desktop-portal-spectrum-host'']))))"

definition dbus_service :: "bytes \<Rightarrow> script" where
  "dbus_service vm =
     Chain [''export'', ''VM'', ''/run/vm/'' @ vm]
     (Prog [''dbus-daemon'', ''--config-file'', ''/usr/share/dbus-1/session.conf'', ''--print-address'', ''3'',
        ''--address'', ''unix:path=/run/vm/'' @ vm @ ''/portal-bus''])"

definition fs_service :: "bytes \<Rightarrow> script" where
  "fs_service vm =
     Chain [''s6-ipcserver-socketbinder'', ''-a'', ''0700'', ''-B'', ''env/virtiofsd.sock'']
     (If (Chain [''fdmove'', ''1'', ''3''] (Prog [''echo'']))
     (Chain [''fdclose'', ''3'']
     (Chain [''export'', ''TMPDIR'', ''/run'']
     (Chain [''unshare'', ''-m'', ''--propagation'', ''slave'']
     (If (Prog [''mount'', ''--rbind'', ''-o'', ''ro'', ''/run/vm/'' @ vm @ ''/fs'', ''/run/vm/'' @ vm @ ''/fs''])
     (Prog [''virtiofsd'', ''--fd'', ''0'', ''--shared-dir'', ''/run/vm/'' @ vm @ ''/fs'']))))))"

definition gpu_service :: script where
  "gpu_service =
     Chain [''s6-notifyoncheck'', ''-dn'', ''0'']
     (Prog [''crosvm'', ''--no-syslog'', ''device'', ''gpu'', ''--socket'', ''env/crosvm.sock'', ''--wayland-sock'', ''/run/user/0/wayland-1'',
        ''--params'', ''{\"context-types\":\"cross-domain\"}''])"

text \<open>The service that is run for each name in \<open>services\<close>.\<close>

definition service_run :: "bytes \<Rightarrow> bytes \<Rightarrow> script option" where
  "service_run service vm =
     (if service = ''dbus'' then Some (dbus_service vm)
      else if service = ''vhost-user-fs'' then Some (fs_service vm)
      else if service = ''vhost-user-gpu'' then Some gpu_service
      else if service = ''xdg-desktop-portal-spectrum-host'' then Some (portal_service vm)
      else None)"

definition instance_dir :: "bytes \<Rightarrow> bytes \<Rightarrow> path" where
  "instance_dir service vm = ''/run/service/'' @ service @ ''/instance/'' @ vm"

text \<open>The sockets a service listens on: those it has bound for it, or the option \<open>--socket\<close> of its program.\<close>

definition option_value :: "bytes \<Rightarrow> argv \<Rightarrow> bytes list" where
  "option_value opt a = (case dropWhile (\<lambda>x. x \<noteq> opt) a of _ # v # _ \<Rightarrow> [v] | _ \<Rightarrow> [])"

fun sockets :: "script \<Rightarrow> path list" where
  "sockets (Prog a) = option_value ''--socket'' a"
| "sockets (Chain a c) = (if hd a = ''s6-ipcserver-socketbinder'' then [last a] else []) @ sockets c"
| "sockets (If b c) = sockets c"
| "sockets _ = []"

text \<open>Every service that is waited for exists.\<close>

lemma services_exist: "service \<in> set services \<Longrightarrow> service_run service vm \<noteq> None"
  by (auto simp: services_def service_run_def)

lemma service_sockets:
  "sockets (portal_service vm) = [''/run/vm/'' @ vm @ ''/vsock_219'']" "sockets (fs_service vm) = [''env/virtiofsd.sock'']"
  "sockets gpu_service = [''env/crosvm.sock'']"
  by (simp_all add: portal_service_def fs_service_def gpu_service_def option_value_def)

text \<open>
  Readiness is signalled, by \<open>echo\<close> on descriptor 3, only after the socket is bound, and the program is executed only after that has succeeded.
\<close>

lemma portal_service_ready:
  assumes "runs usr_bin L (portal_service vm) tr r"
  shows "preceded (\<lambda>e. e = Did [''s6-ipcserver-socketbinder'', ''-a'', ''0700'', ''/run/vm/'' @ vm @ ''/vsock_219'']) (\<lambda>e. e = Started [''echo'']) tr"
    "preceded (\<lambda>e. e = Ended [''echo''] 0) (\<lambda>e. e = Started [''xdg-desktop-portal-spectrum-host'']) tr"
proof -
  have "ordered usr_bin L (\<lambda>e. e = Did [''s6-ipcserver-socketbinder'', ''-a'', ''0700'', ''/run/vm/'' @ vm @ ''/vsock_219'']) (\<lambda>e. e = Started [''echo'']) (portal_service vm)"
    unfolding portal_service_def by (intro ordered_Chain_pass ordered_Chain disjI1) simp_all
  from orderedD [OF this assms] show "preceded (\<lambda>e. e = Did [''s6-ipcserver-socketbinder'', ''-a'', ''0700'', ''/run/vm/'' @ vm @ ''/vsock_219''])
    (\<lambda>e. e = Started [''echo'']) tr" .
  have "ordered usr_bin L (\<lambda>e. e = Ended [''echo''] 0) (\<lambda>e. e = Started [''xdg-desktop-portal-spectrum-host'']) (portal_service vm)"
    unfolding portal_service_def
    by (intro ordered_Chain_pass ordered_If disjI1 marks_Chain marks_Prog ordered_plain) (auto simp: usr_bin_def)
  from orderedD [OF this assms] show "preceded (\<lambda>e. e = Ended [''echo''] 0) (\<lambda>e. e = Started [''xdg-desktop-portal-spectrum-host'']) tr" .
qed

end
