(* ===== verification/Iface.thy ===== *)
theory Iface
  imports Net Execline
begin

text \<open>
  What virtual machines do when a network interface appears: \<open>img/app/etc/mdev/iface\<close> in a machine with an application and
  \<open>vm/sys/net/etc/mdev/iface\<close> in the one that provides the network. Both compute the address of the client from the MAC address of their
  interface, which they are given by \<open>net_setup\<close> on the host.

  The scripts get the line of \<open>/sys/class/net/INTERFACE/address\<close>. The programs \<open>grep\<close> and \<open>awk\<close>, which only read it, are computed;
  how \<open>awk\<close> converts a string to a number is an argument.
\<close>

section \<open>The scripts\<close>

definition to_upper :: "char \<Rightarrow> char" where
  "to_upper c = (if 97 \<le> (of_char c :: nat) \<and> (of_char c :: nat) \<le> 122 then char_of ((of_char c :: nat) - 32) else c)"

text \<open>\<open>grep -iq ^0A:B3:EC:\<close>\<close>

definition connects_vm :: "bytes \<Rightarrow> bool" where
  "connects_vm address \<longleftrightarrow> map to_upper (take 9 address) = ''0A:B3:EC:''"

text \<open>The field \<open>$n\<close> of \<open>awk -F:\<close>, and the output of the program of both scripts.\<close>

definition colon_field :: "nat \<Rightarrow> bytes \<Rightarrow> bytes" where
  "colon_field n line = (let fields = split_on (CHR '':'') line in if n \<le> length fields then fields ! (n - 1) else [])"

definition client_ip :: "(bytes \<Rightarrow> nat) \<Rightarrow> bytes \<Rightarrow> bytes" where
  "client_ip num address =
     ''100.64.'' @ dec (num (''0x'' @ colon_field 5 address)) @ ''.'' @ dec (num (''0x'' @ colon_field 6 address))"

text \<open>The block that \<open>iface\<close> runs in the background.\<close>

definition app_iface :: "(bytes \<Rightarrow> nat) \<Rightarrow> bytes \<Rightarrow> bytes \<Rightarrow> script" where
  "app_iface num interface address =
     If (Prog [''test'', interface, ''!='', ''lo''])
     (If (Prog [''ip'', ''address'', ''add'', client_ip num address @ ''/32'', ''dev'', interface])
     (If (Prog [''ip'', ''link'', ''set'', interface, ''up''])
     (If (Prog [''ip'', ''route'', ''add'', ''169.254.0.1'', ''dev'', interface])
     (Prog [''ip'', ''route'', ''add'', ''default'', ''via'', ''169.254.0.1'', ''dev'', interface]))))"

definition net_iface :: "(bytes \<Rightarrow> nat) \<Rightarrow> bytes \<Rightarrow> bytes \<Rightarrow> script" where
  "net_iface num interface address =
     (if connects_vm address then
        If (Prog [''ip'', ''address'', ''add'', ''169.254.0.1/32'', ''dev'', interface])
        (If (Prog [''ip'', ''link'', ''set'', interface, ''up''])
        (Prog [''ip'', ''route'', ''add'', client_ip num address, ''dev'', interface]))
      else
        If (Prog [''test'', interface, ''!='', ''lo''])
        (Background (Prog [''s6-rc'', ''-bu'', ''change'', ''connman''])
        (If (Prog [''s6-rc'', ''-bu'', ''change'', ''nftables''])
        (If (Forx True (map (\<lambda>module. Prog [''modprobe'', module]) [''nft_counter'', ''nft_masq'']))
        (Prog [''nft'', ''add'', ''rule'', ''ip'', ''nat'', ''postrouting'', ''oifname'', interface, ''counter'', ''masquerade''])))))"

section \<open>The address in a guest\<close>

text \<open>Linux writes the address in lower case.\<close>

definition lower_hex :: "nat \<Rightarrow> char" where
  "lower_hex d = (if d < 10 then char_of (48 + d) else char_of (87 + d))"

definition lower_hex02 :: "u8 \<Rightarrow> bytes" where
  "lower_hex02 b = [lower_hex (unat b div 16), lower_hex (unat b mod 16)]"

fun sysfs_address :: "mac_address \<Rightarrow> bytes" where
  "sysfs_address (MacAddress a b c d e f) =
     lower_hex02 a @ '':'' @ lower_hex02 b @ '':'' @ lower_hex02 c @ '':'' @ lower_hex02 d @ '':'' @ lower_hex02 e @ '':'' @ lower_hex02 f"

text \<open>The conversion that POSIX requires of \<open>awk\<close>, which is that of \<open>strtod\<close>: hexadecimal digits after \<open>0x\<close>.\<close>

definition reads_hex :: "(bytes \<Rightarrow> nat) \<Rightarrow> bool" where
  "reads_hex num \<longleftrightarrow> (\<forall>b. num (''0x'' @ lower_hex02 b) = unat b)"

lemma colon_notin_lower_hex02 [simp]: "CHR '':'' \<notin> set (lower_hex02 b)"
proof -
  have "(of_char (lower_hex d) :: nat) \<noteq> 58" if "d < 16" for d using that by (simp add: lower_hex_def)
  then have "CHR '':'' \<noteq> lower_hex d" if "d < 16" for d using that by (auto dest: arg_cong [where f = "of_char :: char \<Rightarrow> nat"])
  moreover have "unat b div 16 < 16" using unat_u8_bound [of b] by (simp add: less_mult_imp_div_less)
  ultimately show ?thesis by (simp add: lower_hex02_def)
qed

lemma sysfs_fields: "split_on (CHR '':'') (sysfs_address m) = map lower_hex02 (octets m)"
  by (cases m) simp

lemma client_ip_sysfs:
  "reads_hex num \<Longrightarrow> client_ip num (sysfs_address (MacAddress a b c d e f)) = ''100.64.'' @ dec (unat e) @ ''.'' @ dec (unat f)"
  unfolding client_ip_def colon_field_def sysfs_fields by (simp add: reads_hex_def)

text \<open>The address of the machine whose VMM has the process \<open>pid\<close>.\<close>

definition pid_ip :: "nat \<Rightarrow> bytes" where
  "pid_ip pid = ''100.64.'' @ dec (pid div 256 mod 256) @ ''.'' @ dec (pid mod 256)"

lemma client_ip_macs:
  assumes "reads_hex num"
  shows "client_ip num (sysfs_address (client_mac pid)) = pid_ip pid" "client_ip num (sysfs_address (router_mac pid)) = pid_ip pid"
  unfolding client_mac_def router_mac_def client_ip_sysfs [OF assms] pid_ip_def by (simp_all add: unsigned_of_nat take_bit_eq_mod)

lemma connects_vm_router: "connects_vm (sysfs_address (router_mac pid))"
  by (simp add: router_mac_def connects_vm_def lower_hex02_def lower_hex_def to_upper_def char_of_eq_iff)

text \<open>Machines have the same address only if their processes agree in 16 bits.\<close>

lemma pid_ip_inject: "pid_ip p = pid_ip q \<longleftrightarrow> p mod 65536 = q mod 65536"
proof -
  have dot: "\<not> is_digit (CHR ''.'')" by (simp add: is_digit_def)
  have "split_on (CHR ''.'') (dec m @ ''.'' @ dec n) = [dec m, dec n]" for m n using dot by simp
  then have "dec m @ ''.'' @ dec n = dec m' @ ''.'' @ dec n' \<longleftrightarrow> m = m' \<and> n = n'" for m n m' n'
    by (metis dec_inject list.inject)
  then have "pid_ip p = pid_ip q \<longleftrightarrow> p div 256 mod 256 = q div 256 mod 256 \<and> p mod 256 = q mod 256"
    unfolding pid_ip_def by simp
  also have "\<dots> \<longleftrightarrow> 256 * (p div 256 mod 256) + p mod 256 = 256 * (q div 256 mod 256) + q mod 256" (is "?a = ?b \<and> ?c = ?d \<longleftrightarrow> _")
  proof -
    have "?c < 256" "?d < 256" by simp_all
    then show ?thesis by (cases "?a = ?b") arith+
  qed
  finally show ?thesis using mod_mult2_eq [of p 256 256] mod_mult2_eq [of q 256 256] by simp
qed

section \<open>What is done\<close>

text \<open>The commands were executed one after the other, as long as they succeeded.\<close>

fun in_turn :: "argv list \<Rightarrow> ex_event list \<Rightarrow> nat option \<Rightarrow> bool" where
  "in_turn [] tr n = (tr = [] \<and> n = Some 0)"
| "in_turn (a # as) (e # f # tr) n =
     (e = Started a \<and> (f = Ended a 0 \<and> in_turn as tr n \<or> (\<exists>m. m \<noteq> 0 \<and> f = Ended a m) \<and> tr = [] \<and> n \<notin> {None, Some 0}))"
| "in_turn (a # as) tr n = ((tr = [] \<or> tr = [Started a]) \<and> n = None)"

fun in_chain :: "argv list \<Rightarrow> script" where
  "in_chain [] = Forx True []"
| "in_chain [a] = Prog a"
| "in_chain (a # as) = If (Prog a) (in_chain as)"

lemma in_chain_in_turn: "runs (\<lambda>_. None) L (in_chain as) tr n \<Longrightarrow> as \<noteq> [] \<Longrightarrow> in_turn as tr n"
proof (induction as arbitrary: tr rule: in_chain.induct)
  case (2 a)
  then show ?case by (auto elim!: runs_ProgE)
next
  case (3 a b as)
  from "3.prems"(1) have "runs (\<lambda>_. None) L (If (Prog a) (in_chain (b # as))) tr n" by simp
  then show ?case by (cases rule: runs_IfE) (auto elim!: runs_ProgE dest: "3.IH")
qed simp

definition app_commands :: "bytes \<Rightarrow> bytes \<Rightarrow> argv list" where
  "app_commands ip interface =
     [[''test'', interface, ''!='', ''lo''], [''ip'', ''address'', ''add'', ip @ ''/32'', ''dev'', interface],
      [''ip'', ''link'', ''set'', interface, ''up''], [''ip'', ''route'', ''add'', ''169.254.0.1'', ''dev'', interface],
      [''ip'', ''route'', ''add'', ''default'', ''via'', ''169.254.0.1'', ''dev'', interface]]"

definition router_commands :: "bytes \<Rightarrow> bytes \<Rightarrow> argv list" where
  "router_commands ip interface =
     [[''ip'', ''address'', ''add'', ''169.254.0.1/32'', ''dev'', interface], [''ip'', ''link'', ''set'', interface, ''up''],
      [''ip'', ''route'', ''add'', ip, ''dev'', interface]]"

lemma app_iface_chain: "app_iface num i address = in_chain (app_commands (client_ip num address) i)"
  by (simp add: app_iface_def app_commands_def)

lemma net_iface_chain: "connects_vm address \<Longrightarrow> net_iface num i address = in_chain (router_commands (client_ip num address) i)"
  by (simp add: net_iface_def router_commands_def)

text \<open>
  C11. The host and both guests agree on the addresses of a network. If \<open>net_setup\<close> succeeds, then with the MAC address it returns for the client
  the client gives itself the address of the process of its VMM and routes through 169.254.0.1; and with the MAC address it has
  given to \<open>ch-remote add-net\<close> for the router, the router recognises the interface of a virtual machine, takes the address 169.254.0.1 and routes the same
  address of the client there.
\<close>

theorem iface_addresses_agree:
  assumes "net_setup K stk d s = (Ret r, t)" "netc_fd r \<noteq> -1" "reads_hex num" "reads_hex num'"
  shows "\<exists>evs net. events t = events s @ evs \<and> spawns evs = [add_net_command d net] \<and>
    (\<forall>L i tr n. runs (\<lambda>_. None) L (app_iface num i (sysfs_address (netc_mac r))) tr n \<longrightarrow>
       in_turn (app_commands (pid_ip (sys_getpid K s)) i) tr n) \<and>
    (\<forall>L j tr n. runs (\<lambda>_. None) L (net_iface num' j (sysfs_address (net_mac net))) tr n \<longrightarrow>
       in_turn (router_commands (pid_ip (sys_getpid K s)) j) tr n)"
proof -
  from net_setup_log [OF assms(1,2)] obtain evs net where
    *: "events t = events s @ evs" "spawns evs = [add_net_command d net]"
      "net_mac net = router_mac (sys_getpid K s)" "netc_mac r = client_mac (sys_getpid K s)" by blast
  have "in_turn (app_commands (pid_ip (sys_getpid K s)) i) tr n"
    if "runs (\<lambda>_. None) L (app_iface num i (sysfs_address (netc_mac r))) tr n" for L i tr n
    using that unfolding app_iface_chain * client_ip_macs [OF assms(3)]
    by (rule in_chain_in_turn) (simp add: app_commands_def)
  moreover have "in_turn (router_commands (pid_ip (sys_getpid K s)) j) tr n"
    if "runs (\<lambda>_. None) L (net_iface num' j (sysfs_address (net_mac net))) tr n" for L j tr n
    using that unfolding * net_iface_chain [OF connects_vm_router] client_ip_macs [OF assms(4)]
    by (rule in_chain_in_turn) (simp add: router_commands_def)
  ultimately show ?thesis using * by blast
qed

text \<open>A conversion of two hexadecimal digits, and a run in which every command succeeds.\<close>

definition hex_num :: "bytes \<Rightarrow> nat" where
  "hex_num s = (let v = (\<lambda>c. if of_char c < (58 :: nat) then of_char c - 48 else of_char c - 87) in 16 * v (s ! 2) + v (s ! 3))"

lemma reads_hex_num: "reads_hex hex_num"
proof -
  have v: "(if of_char (lower_hex d) < (58 :: nat) then of_char (lower_hex d) - 48 else of_char (lower_hex d) - 87) = d" if "d < 16" for d :: nat
    using that by (auto simp: lower_hex_def)
  have "unat b div 16 < 16" for b :: u8 using unat_u8_bound [of b] by (simp add: less_mult_imp_div_less)
  then show ?thesis by (simp add: reads_hex_def hex_num_def lower_hex02_def v)
qed

theorem iface_addresses_agree_witness:
  "\<exists>r t tr. net_setup lan_os stack0 ''/run/vm/net'' ps0 = (Ret r, t) \<and>
     runs (\<lambda>_. None) (\<lambda>_ _. True) (app_iface hex_num ''eth0'' (sysfs_address (netc_mac r))) tr (Some 0) \<and>
     in_turn (app_commands ''100.64.0.42'' ''eth0'') tr (Some 0)"
proof -
  obtain r t where rt: "net_setup lan_os stack0 ''/run/vm/net'' ps0 = (Ret r, t)" "netc_fd r = 4"
    using net_setup_lan_os by blast
  let ?a = "sysfs_address (netc_mac r)"
  let ?tr = "smooth (app_iface hex_num ''eth0'' ?a)"
  have tr: "runs (\<lambda>_. None) (\<lambda>_ _. True) (app_iface hex_num ''eth0'' ?a) ?tr (Some 0)" by (rule runs_smooth) simp
  have ip: "pid_ip (sys_getpid lan_os ps0) = ''100.64.0.42''"
    by (simp add: pid_ip_def sys_getpid_def lan_os_simps ps0_def fmt_eval)
  have "netc_fd r \<noteq> -1" using rt(2) by simp
  from iface_addresses_agree [OF rt(1) this reads_hex_num reads_hex_num] tr
  have "in_turn (app_commands (pid_ip (sys_getpid lan_os ps0)) ''eth0'') ?tr (Some 0)" by blast
  with rt(1) tr show ?thesis unfolding ip by blast
qed

end
