(* ===== verification/Lseek.thy ===== *)
theory Lseek
  imports Sys Strtol
begin

text \<open>
  \<open>tools/lseek/lseek.c\<close>: seek on an open file, then execute a program. The kernel is the record \<open>seeker\<close>. An answer
  \<open>Ok\<close> of \<open>execvp\<close> means that the process is another program from there on. \<open>einval\<close> says whether the C library sets
  \<open>errno\<close> if \<open>strtol\<close> finds no number. \<open>off_t\<close> has 64 bits.
\<close>

section \<open>The program\<close>

datatype whence = SEEK_SET | SEEK_CUR | SEEK_END

datatype lseek_error = LsUsage | LsBadFd | LsBadOffset bytes errno | LsInvalidOffset | LsSeek errno | LsExec errno

datatype lkevent =
    LkGetopt char
  | LkSeek int int whence "(unit, errno) result"
  | LkExec "bytes list" "(unit, errno) result"
  | LkErr lseek_error

record 'w seeker =
  lk_lseek :: "int \<Rightarrow> int \<Rightarrow> whence \<Rightarrow> ('w, (unit, errno) result) req"
  lk_execvp :: "bytes list \<Rightarrow> ('w, (unit, errno) result) req"

text \<open>The letters of one argument of options; \<open>getopt\<close> complains about the first one that is not an option.\<close>

fun option_letters :: "whence \<Rightarrow> bytes \<Rightarrow> (whence, char) result" where
  "option_letters whence [] = Ok whence"
| "option_letters whence (c # cs) =
     (if c = CHR ''C'' then option_letters SEEK_CUR cs
      else if c = CHR ''E'' then option_letters SEEK_END cs
      else if c = CHR ''S'' then option_letters SEEK_SET cs
      else Err c)"

text \<open>
  The loop over \<open>getopt\<close> with the options \<open>+CES\<close>: it ends at the first argument that is not an option, or after
  \<open>--\<close>. The result is the mode and the arguments from \<open>optind\<close> on.
\<close>

fun parse_options :: "whence \<Rightarrow> bytes list \<Rightarrow> (whence \<times> bytes list, char) result" where
  "parse_options whence [] = Ok (whence, [])"
| "parse_options whence (a # as) =
     (if a = ''--'' then Ok (whence, as)
      else if length a < 2 \<or> hd a \<noteq> CHR ''-'' then Ok (whence, a # as)
      else (case option_letters whence (tl a) of Err c \<Rightarrow> Err c | Ok whence \<Rightarrow> parse_options whence as))"

definition INT_MAX :: int where "INT_MAX = 2 ^ 31 - 1"

definition lk_err :: "lseek_error \<Rightarrow> lkevent list \<Rightarrow> 'w \<Rightarrow> unit outcome \<times> lkevent list \<times> 'w" where
  "lk_err e evs w = (Exit 1, evs @ [LkErr e], w)"

text \<open>The \<open>errno\<close> that is seen after a conversion, if it was 0 before.\<close>

definition strtol_errno :: "bool \<Rightarrow> conversion \<Rightarrow> errno" where
  "strtol_errno einval c = (case c of Converted \<Rightarrow> 0 | OutOfRange \<Rightarrow> 34 | NoNumber \<Rightarrow> if einval then EINVAL else 0)"

definition lseek_main :: "'w seeker \<Rightarrow> bool \<Rightarrow> bytes list \<Rightarrow> 'w \<Rightarrow> unit outcome \<times> lkevent list \<times> 'w" where
  "lseek_main K einval argv w =
     (case parse_options SEEK_CUR (tl argv) of
        Err c \<Rightarrow> lk_err LsUsage [LkGetopt c] w
      | Ok (whence, rest) \<Rightarrow>
         (case rest of
            fd_arg # offset_arg # prog \<Rightarrow>
              (case strtol fd_arg of (fd, _, _) \<Rightarrow>
                 if fd < 0 \<or> INT_MAX < fd then lk_err LsBadFd [] w
                 else
                   (case strtol offset_arg of (offset, c, _) \<Rightarrow>
                      if strtol_errno einval c \<noteq> 0 then lk_err (LsBadOffset offset_arg (strtol_errno einval c)) [] w
                      else if offset \<noteq> sint (word_of_int offset :: 64 word) then lk_err LsInvalidOffset [] w
                      else
                        (case lk_lseek K fd offset whence w of
                           (Err e, w) \<Rightarrow> lk_err (LsSeek e) [LkSeek fd offset whence (Err e)] w
                         | (Ok _, w) \<Rightarrow>
                            (case lk_execvp K prog w of
                               (Err e, w) \<Rightarrow>
                                 lk_err (LsExec e) [LkSeek fd offset whence (Ok ()), LkExec prog (Err e)] w
                             | (Ok _, w) \<Rightarrow>
                                 (Ret (), [LkSeek fd offset whence (Ok ()), LkExec prog (Ok ())], w)))))
          | _ \<Rightarrow> lk_err LsUsage [] w))"

section \<open>Options\<close>

text \<open>The mode a letter stands for, and the last one of a list of option arguments, the reference for the loop.\<close>

definition mode_of :: "char \<Rightarrow> whence option" where
  "mode_of c = (if c = CHR ''C'' then Some SEEK_CUR else if c = CHR ''E'' then Some SEEK_END
     else if c = CHR ''S'' then Some SEEK_SET else None)"

lemma option_letters_Ok:
  "option_letters wh cs = Ok wh' \<longleftrightarrow> list_all (\<lambda>c. mode_of c \<noteq> None) cs \<and> wh' = last (wh # map (the \<circ> mode_of) cs)"
  by (induction cs arbitrary: wh) (auto simp: mode_of_def)

text \<open>Arguments of options: a dash and letters.\<close>

definition option_arg :: "bytes \<Rightarrow> bool" where
  "option_arg a \<longleftrightarrow> (\<exists>cs. a = CHR ''-'' # cs \<and> cs \<noteq> [] \<and> list_all (\<lambda>c. mode_of c \<noteq> None) cs)"

definition option_modes :: "bytes list \<Rightarrow> whence list" where
  "option_modes opts = map (the \<circ> mode_of) (concat (map tl opts))"

lemma option_arg_step:
  assumes "option_arg a"
  shows "parse_options wh (a # as) = parse_options (last (wh # option_modes [a])) as"
proof -
  obtain cs where a: "a = CHR ''-'' # cs" "cs \<noteq> []" "list_all (\<lambda>c. mode_of c \<noteq> None) cs"
    using assms by (auto simp: option_arg_def)
  then have "a \<noteq> ''--''" by (auto simp: mode_of_def)
  moreover have "option_letters wh cs = Ok (last (wh # option_modes [a]))"
    using a by (simp add: option_letters_Ok option_modes_def)
  moreover have "\<not> length a < 2" using a by (cases cs) auto
  ultimately show ?thesis using a by simp
qed

lemma last_chain: "last (last (x # xs) # ys) = last (x # xs @ ys)"
  by (cases ys) (simp_all add: last_append)

lemma parse_options_args:
  assumes "list_all option_arg opts"
  shows "parse_options wh (opts @ rest) = parse_options (last (wh # option_modes opts)) rest"
  using assms
proof (induction opts arbitrary: wh)
  case (Cons a opts)
  then have "parse_options wh ((a # opts) @ rest) = parse_options (last (last (wh # option_modes [a]) # option_modes opts)) rest"
    using option_arg_step [of a wh "opts @ rest"] by simp
  then show ?case unfolding last_chain by (simp add: option_modes_def)
qed (simp add: option_modes_def)

section \<open>Runs\<close>

lemma sint_long: "LONG_MIN \<le> i \<Longrightarrow> i \<le> LONG_MAX \<Longrightarrow> sint (word_of_int i :: 64 word) = i"
  by (simp add: LONG_MIN_def LONG_MAX_def signed_of_int signed_take_bit_int_eq_self)

lemma strtol_range: "strtol s = (v, c, r) \<Longrightarrow> LONG_MIN \<le> v \<and> v \<le> LONG_MAX"
  by (auto simp: strtol_def Let_def LONG_MIN_def LONG_MAX_def split: if_splits)

text \<open>The arguments with a number for the descriptor and a number for the offset.\<close>

lemma lseek_run:
  assumes "list_all option_arg opts" "0 \<le> fd" "fd \<le> INT_MAX" "LONG_MIN \<le> offset" "offset \<le> LONG_MAX"
  defines "mode \<equiv> last (SEEK_CUR # option_modes opts)"
  shows "lseek_main K einval (name # opts @ dec_int fd # dec_int offset # prog) w =
    (case lk_lseek K fd offset mode w of
       (Err e, w) \<Rightarrow> (Exit 1, [LkSeek fd offset mode (Err e), LkErr (LsSeek e)], w)
     | (Ok _, w) \<Rightarrow>
         (case lk_execvp K prog w of
            (Err e, w) \<Rightarrow> (Exit 1, [LkSeek fd offset mode (Ok ()), LkExec prog (Err e), LkErr (LsExec e)], w)
          | (Ok _, w) \<Rightarrow> (Ret (), [LkSeek fd offset mode (Ok ()), LkExec prog (Ok ())], w)))"
proof -
  let ?rest = "dec_int fd # dec_int offset # prog"
  have "dec_int fd \<noteq> ''--'' \<and> hd (dec_int fd) \<noteq> CHR ''-''"
    using dec_hd_digit [of "nat fd"] assms(2) by auto
  then have "parse_options wh ?rest = Ok (wh, ?rest)" for wh by simp
  then have p: "parse_options SEEK_CUR (opts @ ?rest) = Ok (mode, ?rest)"
    using parse_options_args [OF assms(1)] by (simp add: mode_def)
  have "LONG_MIN \<le> fd" "fd \<le> LONG_MAX" using assms(2,3) by (simp_all add: LONG_MIN_def LONG_MAX_def INT_MAX_def)
  from strtol_dec_int [OF this] strtol_dec_int [OF assms(4,5)] sint_long [OF assms(4,5)] assms(2,3) p show ?thesis
    by (simp add: lseek_main_def strtol_errno_def lk_err_def split: prod.split result.split)
qed

text \<open>
  The number of arguments is checked against two, so a missing program is not found out: it is executed as a null pointer.
\<close>

lemma lseek_missing_program:
  "lk_lseek K 1 0 SEEK_CUR w = (Ok (), w') \<Longrightarrow>
   \<exists>r w''. lseek_main K einval [''lseek'', ''1'', ''0''] w = (r, w'') \<and> LkExec [] (fst (lk_execvp K [] w')) \<in> set (fst w'')"
proof -
  assume k: "lk_lseek K 1 0 SEEK_CUR w = (Ok (), w')"
  have d: "dec_int 1 = ''1''" "dec_int 0 = ''0''" by (simp_all add: fmt_eval)
  have m: "last (SEEK_CUR # option_modes []) = SEEK_CUR" by (simp add: option_modes_def)
  have "lseek_main K einval (''lseek'' # [] @ dec_int 1 # dec_int 0 # []) w =
      (case lk_execvp K [] w' of
          (Err e, w) \<Rightarrow> (Exit 1, [LkSeek 1 0 SEEK_CUR (Ok ()), LkExec [] (Err e), LkErr (LsExec e)], w)
        | (Ok _, w) \<Rightarrow> (Ret (), [LkSeek 1 0 SEEK_CUR (Ok ()), LkExec [] (Ok ())], w))"
    using lseek_run [of "[]" 1 0 K einval "''lseek''" "[]" w, unfolded m] k
    by (simp add: INT_MAX_def LONG_MIN_def LONG_MAX_def)
  then show ?thesis unfolding d by (auto split: prod.splits result.splits)
qed

text \<open>
  A program is executed only after the seek that was asked for: whatever the arguments are, if \<open>lseek\<close> executes anything, it
  has made exactly one successful seek before, on a descriptor in the range of an \<open>int\<close>, with an offset
  in the range of a \<open>long\<close>; the descriptor, the offset and the program are consecutive arguments, nothing is done after the program was executed,
  and a program that cannot be executed is an exit with the code 1.
\<close>

lemma lseek_exec_after_seek:
  assumes "lseek_main K einval argv w = (r, evs, w')" "LkExec prog q \<in> set evs"
  shows "\<exists>pre fd_arg offset_arg fd offset mode c c' s s'. tl argv = pre @ fd_arg # offset_arg # prog \<and>
    strtol fd_arg = (fd, c, s) \<and> strtol offset_arg = (offset, c', s') \<and> c' \<noteq> OutOfRange \<and>
    0 \<le> fd \<and> fd \<le> INT_MAX \<and> LONG_MIN \<le> offset \<and> offset \<le> LONG_MAX \<and>
    (case q of Ok _ \<Rightarrow> r = Ret () \<and> evs = [LkSeek fd offset mode (Ok ()), LkExec prog q]
     | Err e \<Rightarrow> r = Exit 1 \<and> evs = [LkSeek fd offset mode (Ok ()), LkExec prog q, LkErr (LsExec e)])"
proof -
  obtain mode fd_arg offset_arg rest where p: "parse_options SEEK_CUR (tl argv) = Ok (mode, fd_arg # offset_arg # rest)"
    using assms by (auto simp: lseek_main_def lk_err_def split: result.splits list.splits)
  have suffix: "\<exists>pre. args = pre @ rest'" if "parse_options wh args = Ok (m, rest')" for wh m args rest'
    using that
  proof (induction wh args rule: parse_options.induct)
    case (2 wh a as)
    then show ?case by (auto split: if_splits result.splits)
  qed simp
  obtain fd c s where f: "strtol fd_arg = (fd, c, s)" by (metis prod_cases3)
  obtain offset c' s' where g: "strtol offset_arg = (offset, c', s')" by (metis prod_cases3)
  have ok: "0 \<le> fd" "fd \<le> INT_MAX" "strtol_errno einval c' = 0"
    using assms p f g by (auto simp: lseek_main_def lk_err_def split: if_splits)
  then have "c' \<noteq> OutOfRange" by (auto simp: strtol_errno_def)
  moreover have "prog = rest \<and> (case q of Ok _ \<Rightarrow> r = Ret () \<and> evs = [LkSeek fd offset mode (Ok ()), LkExec prog q]
      | Err e \<Rightarrow> r = Exit 1 \<and> evs = [LkSeek fd offset mode (Ok ()), LkExec prog q, LkErr (LsExec e)])"
    using assms p f g ok by (auto simp: lseek_main_def lk_err_def split: if_splits prod.splits result.splits)
  moreover obtain pre where "tl argv = pre @ fd_arg # offset_arg # rest" using suffix [OF p] by blast
  ultimately show ?thesis using f g ok strtol_range [OF g] by blast
qed

text \<open>A kernel on which everything works, with the position as the world.\<close>

definition seeker0 :: "int seeker" where
  "seeker0 = \<lparr>lk_lseek = \<lambda>fd offset whence w. (Ok (), case whence of SEEK_SET \<Rightarrow> offset | _ \<Rightarrow> w + offset),
     lk_execvp = \<lambda>_ w. (Ok (), w)\<rparr>"

lemma lseek_exec_after_seek_example:
  "\<exists>evs w. lseek_main seeker0 False [''lseek'', ''-S'', ''1'', ''-7'', ''cat''] 0 = (Ret (), evs, w) \<and>
     evs = [LkSeek 1 (-7) SEEK_SET (Ok ()), LkExec [''cat''] (Ok ())]"
proof -
  have d: "dec_int 1 = ''1''" "dec_int (- 7) = ''-7''" by (simp_all add: dec_int_def fmt_eval)
  have o: "list_all option_arg [''-S'']" "option_modes [''-S''] = [SEEK_SET]"
    by (simp_all add: option_arg_def option_modes_def mode_of_def)
  have run: "lseek_main seeker0 False [''lseek'', ''-S'', ''1'', ''-7'', ''cat''] 0 =
      (Ret (), [LkSeek 1 (-7) SEEK_SET (Ok ()), LkExec [''cat''] (Ok ())], -7)"
    using lseek_run [OF o(1), of 1 "-7" seeker0 False "''lseek''" "[''cat'']" 0] d o(2)
    by (simp add: INT_MAX_def LONG_MIN_def LONG_MAX_def seeker0_def)
  from lseek_exec_after_seek [OF run, of "[''cat'']" "Ok ()"] run show ?thesis by auto
qed

end
