(* ===== verification/Gpt.thy ===== *)
theory Gpt
  imports Lseek
begin

text \<open>
  Disk images: \<open>scripts/make-gpt.sh\<close> with \<open>scripts/sfdisk-field.awk\<close>, and \<open>scripts/format-uuid.sh\<close>.

  The commands the scripts start are the record \<open>shell\<close>. As the scripts run with \<open>-e\<close>, a command that fails ends them. The
  functions of the shell and of awk on strings are those on strings without newlines and backslashes, which the Makefiles
  pass; sizes are natural numbers, as awk computes exactly below 2 to the 53. The order in which awk visits an array is
  not specified; it is the argument \<open>order\<close>.
\<close>

section \<open>format-uuid.sh\<close>

text \<open>\<open>cut -c beg-end\<close>, counting from 1.\<close>

definition substr :: "bytes \<Rightarrow> nat \<Rightarrow> nat \<Rightarrow> bytes" where
  "substr str beg fin = take (Suc fin - beg) (drop (beg - 1) str)"

definition format_uuid :: "bytes \<Rightarrow> bytes" where
  "format_uuid s =
     (let u1 = substr s 1 8; u2 = substr s 9 12; u3 = substr s 13 16; u4 = substr s 17 20; u5 = substr s 21 32 in
      u1 @ ''-'' @ u2 @ ''-'' @ u3 @ ''-'' @ u4 @ ''-'' @ u5)"

section \<open>sfdisk-field.awk\<close>

definition partition_types :: "bytes \<rightharpoonup> bytes" where
  "partition_types =
     [''root.aarch64'' \<mapsto> ''b921b045-1df0-41c3-af44-4c6f280d3fae'',
      ''root.x86_64'' \<mapsto> ''4f68bce3-e8cd-4db1-96e7-fbcaf984b709'',
      ''verity.aarch64'' \<mapsto> ''df3300ce-d69f-4c92-978c-9bfb0f38d820'',
      ''verity.x86_64'' \<mapsto> ''2c7357ed-ebd2-46d9-aec1-23d437ec2bf5'']"

text \<open>The fields of an argument; \<open>split\<close> finds none in an empty string.\<close>

definition awk_fields :: "bytes \<Rightarrow> bytes list" where
  "awk_fields part = (if part = [] then [] else split_on (CHR '':'') part)"

text \<open>The key for the field \<open>n\<close>, counting from 1. A key that does not exist is empty.\<close>

definition field_key :: "nat \<Rightarrow> bytes" where
  "field_key n = (if n - 1 = 1 then ''type'' else if n - 1 = 2 then ''uuid'' else if n - 1 = 3 then ''name'' else [])"

definition field_text :: "bytes \<Rightarrow> bytes list \<Rightarrow> nat \<Rightarrow> bytes" where
  "field_text arch fs n =
     (if n \<le> 1 then []
      else
        (let f = fs ! (n - 1);
             v = (if field_key n = ''type''
                  then (case partition_types (f @ ''.'' @ arch) of None \<Rightarrow> f | Some uuid \<Rightarrow> uuid) else f) in
         field_key n @ ''='' @ v @ '',''))"

definition sfdisk_field :: "(nat list \<Rightarrow> nat list) \<Rightarrow> bytes \<Rightarrow> bytes \<Rightarrow> bytes" where
  "sfdisk_field order arch part =
     (let fs = awk_fields part in concat (map (field_text arch fs) (order [1 ..< Suc (length fs)])))"

section \<open>make-gpt.sh\<close>

definition ONE_MiB :: nat where "ONE_MiB = 1048576"

definition size_MiB :: "nat \<Rightarrow> nat" where
  "size_MiB n = (n + ONE_MiB - 1) div ONE_MiB"

definition partition_path :: "bytes \<Rightarrow> path" where
  "partition_path part = takeWhile (\<lambda>c. c \<noteq> CHR '':'') part"

datatype sh_command =
    Rm path
  | Truncate nat path
  | Sfdisk path bytes
  | LseekCat "bytes list" path

datatype sh_event = ShRun sh_command bool | ShStart path nat "bytes option"

text \<open>
  \<open>sh_size\<close> is the size of a file, if it can be read; \<open>sh_start\<close> is what \<open>sfdisk -J\<close> and \<open>jq\<close> print for a partition, if they succeed.
\<close>

record 'w shell =
  sh_size :: "path \<Rightarrow> 'w \<Rightarrow> nat option"
  sh_run :: "sh_command \<Rightarrow> ('w, bool) req"
  sh_start :: "path \<Rightarrow> nat \<Rightarrow> ('w, bytes option) req"

text \<open>
  The first loop: the table and the size of the image. The size of a file that cannot be read is empty, and an empty
  variable counts as 0.
\<close>

fun gpt_table ::
    "'w shell \<Rightarrow> (nat list \<Rightarrow> nat list) \<Rightarrow> bytes \<Rightarrow> bytes list \<Rightarrow> bytes \<Rightarrow> nat \<Rightarrow> 'w \<Rightarrow> bytes \<times> nat" where
  "gpt_table S order arch [] table gpt_bytes w = (table, gpt_bytes)"
| "gpt_table S order arch (part # partitions) table gpt_bytes w =
     (let size = map_option size_MiB (sh_size S (partition_path part) w);
          text = (case size of None \<Rightarrow> [] | Some n \<Rightarrow> dec n);
          n = (case size of None \<Rightarrow> 0 | Some n \<Rightarrow> n) in
      gpt_table S order arch partitions
        (table @ [CHR 0x0A] @ ''size='' @ text @ ''MiB,'' @ sfdisk_field order arch part)
        (gpt_bytes + n * ONE_MiB) w)"

text \<open>The arguments of \<open>lseek\<close> in \<open>fillPartition\<close>; its standard output is the image.\<close>

definition fill_argv :: "bytes \<Rightarrow> path \<Rightarrow> bytes list" where
  "fill_argv start path = [''lseek'', ''-S'', ''1'', start, ''cat'', path]"

fun run_commands :: "'w shell \<Rightarrow> sh_command list \<Rightarrow> 'w \<Rightarrow> bool \<times> sh_event list \<times> 'w" where
  "run_commands S [] w = (True, [], w)"
| "run_commands S (c # cs) w =
     (case sh_run S c w of (ok, w) \<Rightarrow>
        if \<not> ok then (False, [ShRun c False], w)
        else (case run_commands S cs w of (r, evs, w) \<Rightarrow> (r, ShRun c True # evs, w)))"

fun fill_partitions :: "'w shell \<Rightarrow> path \<Rightarrow> nat \<Rightarrow> bytes list \<Rightarrow> 'w \<Rightarrow> bool \<times> sh_event list \<times> 'w" where
  "fill_partitions S out n [] w = (True, [], w)"
| "fill_partitions S out n (part # partitions) w =
     (case sh_start S out n w of (start, w) \<Rightarrow>
       (case start of
          None \<Rightarrow> (False, [ShStart out n None], w)
        | Some b \<Rightarrow>
           (case run_commands S [LseekCat (fill_argv b (partition_path part)) out] w of (ok, evs, w) \<Rightarrow>
              if \<not> ok then (False, ShStart out n start # evs, w)
              else
                (case fill_partitions S out (Suc n) partitions w of (r, evs', w) \<Rightarrow>
                   (r, ShStart out n start # evs @ evs', w)))))"

definition make_gpt ::
    "'w shell \<Rightarrow> (nat list \<Rightarrow> nat list) \<Rightarrow> bytes \<Rightarrow> path \<Rightarrow> bytes list \<Rightarrow> 'w \<Rightarrow> bool \<times> sh_event list \<times> 'w" where
  "make_gpt S order arch out partitions w =
     (case gpt_table S order arch partitions ''label: gpt'' (ONE_MiB * 2) w of (table, gpt_bytes) \<Rightarrow>
       (case run_commands S [Rm out, Truncate gpt_bytes out, Sfdisk out table] w of (ok, evs, w) \<Rightarrow>
          if \<not> ok then (False, evs, w)
          else (case fill_partitions S out 0 partitions w of (r, evs', w) \<Rightarrow> (r, evs @ evs', w))))"

section \<open>Sizes\<close>

lemma size_MiB_bounds: "n \<le> size_MiB n * ONE_MiB" "size_MiB n * ONE_MiB < n + ONE_MiB"
proof -
  have "n + ONE_MiB - 1 = size_MiB n * ONE_MiB + (n + ONE_MiB - 1) mod ONE_MiB" "(n + ONE_MiB - 1) mod ONE_MiB < ONE_MiB"
    by (simp_all add: size_MiB_def ONE_MiB_def)
  then show "n \<le> size_MiB n * ONE_MiB" "size_MiB n * ONE_MiB < n + ONE_MiB" by (auto simp: ONE_MiB_def)
qed

text \<open>The size of each file, in the units of the table.\<close>

definition sizes :: "(path \<Rightarrow> nat) \<Rightarrow> bytes list \<Rightarrow> nat list" where
  "sizes len partitions = map (size_MiB \<circ> len \<circ> partition_path) partitions"

lemma gpt_table_bytes:
  assumes "\<And>p. p \<in> set partitions \<Longrightarrow> sh_size S (partition_path p) w = Some (len (partition_path p))"
  shows "snd (gpt_table S order arch partitions table n w) = n + sum_list (sizes len partitions) * ONE_MiB"
  using assms by (induction partitions arbitrary: table n) (simp_all add: sizes_def Let_def algebra_simps)

text \<open>
  The documented behaviour of \<open>sfdisk\<close> for sizes that are multiples of its alignment: the first partition begins
  after 1 MiB and every other one where the one before ends.
\<close>

definition start_of :: "nat list \<Rightarrow> nat \<Rightarrow> nat" where
  "start_of szs n = (1 + sum_list (take n szs)) * ONE_MiB"

definition lays_out :: "'w shell \<Rightarrow> path \<Rightarrow> nat list \<Rightarrow> bool" where
  "lays_out S out szs \<longleftrightarrow> (\<forall>n w. n < length szs \<longrightarrow> fst (sh_start S out n w) = Some (dec (start_of szs n)))"

lemma start_of_Suc: "n < length szs \<Longrightarrow> start_of szs (Suc n) = start_of szs n + szs ! n * ONE_MiB"
  by (simp add: start_of_def take_Suc_conv_app_nth algebra_simps)

lemma start_of_mono: "m \<le> n \<Longrightarrow> start_of szs m \<le> start_of szs n"
proof -
  assume "m \<le> n"
  then obtain k where "n = m + k" using le_Suc_ex by blast
  then show ?thesis by (simp add: start_of_def take_add)
qed

lemma start_of_end: "start_of szs (length szs) + ONE_MiB = ONE_MiB * 2 + sum_list szs * ONE_MiB"
  by (simp add: start_of_def algebra_simps)

lemma fill_partitions_log:
  assumes "lays_out S out (pre @ map f partitions)" "fill_partitions S out (length pre) partitions w = (True, evs, w')"
  shows "\<forall>i < length partitions.
    ShRun (LseekCat (fill_argv (dec (start_of (pre @ map f partitions) (length pre + i))) (partition_path (partitions ! i))) out) True
      \<in> set evs"
  using assms
proof (induction partitions arbitrary: pre w evs)
  case (Cons p ps)
  let ?szs = "pre @ map f (p # ps)"
  obtain st w1 where st: "sh_start S out (length pre) w = (st, w1)" by force
  have "fst (sh_start S out (length pre) w) = Some (dec (start_of ?szs (length pre)))"
    using Cons.prems(1) unfolding lays_out_def by simp
  with st have b: "st = Some (dec (start_of ?szs (length pre)))" by simp
  obtain ok e w2 where r: "run_commands S [LseekCat (fill_argv (dec (start_of ?szs (length pre))) (partition_path p)) out] w1 = (ok, e, w2)"
    by (metis prod_cases3)
  have ok: "ok" using Cons.prems(2) st b r by (auto split: if_splits)
  then have e: "ShRun (LseekCat (fill_argv (dec (start_of ?szs (length pre))) (partition_path p)) out) True \<in> set e"
    using r by (auto split: prod.splits if_splits)
  obtain q evs' w3 where f0: "fill_partitions S out (Suc (length pre)) ps w2 = (q, evs', w3)" by (metis prod_cases3)
  with Cons.prems(2) st b r ok have "q \<and> w3 = w' \<and> evs = ShStart out (length pre) st # e @ evs'"
    by (simp del: run_commands.simps)
  with f0 have f: "fill_partitions S out (length (pre @ [f p])) ps w2 = (True, evs', w')" "set e \<union> set evs' \<subseteq> set evs" by auto
  have "lays_out S out ((pre @ [f p]) @ map f ps)" using Cons.prems(1) by simp
  from Cons.IH [OF this f(1)] have ih: "\<forall>i < length ps.
    ShRun (LseekCat (fill_argv (dec (start_of ?szs (Suc (length pre) + i))) (partition_path (ps ! i))) out) True \<in> set evs'"
    by simp
  show ?case
  proof (intro allI impI)
    fix i assume "i < length (p # ps)"
    then show "ShRun (LseekCat (fill_argv (dec (start_of ?szs (length pre + i))) (partition_path ((p # ps) ! i))) out) True \<in> set evs"
      using e f(2) ih by (cases i) auto
  qed
qed simp

section \<open>Properties\<close>

lemma substr_subset: "set (substr s a b) \<subseteq> set s"
  by (auto simp: substr_def dest: in_set_takeD in_set_dropD)

lemma split_groups:
  fixes s :: bytes
  shows "take 8 s @ take 4 (drop 8 s) @ take 4 (drop 12 s) @ take 4 (drop 16 s) @ drop 20 s = s"
proof -
  have "take 4 (drop 16 s) @ drop 20 s = drop 16 s" using append_take_drop_id [of 4 "drop 16 s"] by simp
  moreover have "take 4 (drop 12 s) @ drop 16 s = drop 12 s" using append_take_drop_id [of 4 "drop 12 s"] by simp
  moreover have "take 4 (drop 8 s) @ drop 12 s = drop 8 s" using append_take_drop_id [of 4 "drop 8 s"] by simp
  ultimately show ?thesis by simp
qed

text \<open>
  The text of 32 hexadecimal digits, half of a dm-verity root hash, becomes a UUID: five groups of 8, 4, 4, 4 and 12 characters
  separated by dashes, which together are the text again.
\<close>

lemma format_uuid_groups:
  assumes "length s = 32" "CHR ''-'' \<notin> set s"
  shows "map length (split_on (CHR ''-'') (format_uuid s)) = [8, 4, 4, 4, 12] \<and>
    concat (split_on (CHR ''-'') (format_uuid s)) = s"
proof -
  have "CHR ''-'' \<notin> set (substr s a b)" for a b using substr_subset assms(2) by blast
  then have "split_on (CHR ''-'') (format_uuid s) =
      [substr s 1 8, substr s 9 12, substr s 13 16, substr s 17 20, substr s 21 32]"
    by (simp add: format_uuid_def Let_def)
  moreover have "take 12 (drop 20 s) = drop 20 s" using assms(1) by simp
  ultimately show ?thesis using split_groups [of s] assms(1) by (simp add: substr_def)
qed

lemma format_uuid_groups_example:
  "concat (split_on (CHR ''-'') (format_uuid ''0123456789abcdef0123456789abcdef'')) = ''0123456789abcdef0123456789abcdef''"
  using format_uuid_groups [of "''0123456789abcdef0123456789abcdef''"] by simp

text \<open>
  The script and the program \<open>lseek\<close> fit together: with the arguments of \<open>fillPartition\<close>, \<open>lseek\<close> sets the position of its
  standard output, the image, to the start of the partition and then executes \<open>cat\<close> on the file, for every start in the range of a \<open>long\<close>.
\<close>

lemma fill_argv_seeks:
  assumes "int start \<le> LONG_MAX" "lk_lseek K 1 (int start) SEEK_SET w = (Ok (), w')" "lk_execvp K [''cat'', path] w' = (Ok (), w'')"
  shows "lseek_main K einval (fill_argv (dec start) path) w =
    (Ret (), [LkSeek 1 (int start) SEEK_SET (Ok ()), LkExec [''cat'', path] (Ok ())], w'')"
proof -
  have o: "list_all option_arg [''-S'']" "last (SEEK_CUR # option_modes [''-S'']) = SEEK_SET"
    by (simp_all add: option_arg_def option_modes_def mode_of_def)
  have "dec_int 1 = ''1''" by (simp add: fmt_eval)
  moreover have "LONG_MIN \<le> int start" by (simp add: LONG_MIN_def)
  ultimately show ?thesis
    using lseek_run [OF o(1), of 1 "int start" K einval "''lseek''" "[''cat'', path]" w] assms o(2)
    by (simp add: fill_argv_def INT_MAX_def)
qed

lemma fill_argv_seeks_example:
  "lseek_main seeker0 False (fill_argv (dec 1048576) ''root.img'') 0 =
     (Ret (), [LkSeek 1 1048576 SEEK_SET (Ok ()), LkExec [''cat'', ''root.img''] (Ok ())], 1048576)"
  using fill_argv_seeks [of 1048576 seeker0 0 1048576 "''root.img''" 1048576 False]
  by (simp add: seeker0_def LONG_MAX_def)

lemma run_three:
  assumes "run_commands S [a, b, c] w = (True, evs, w')"
  shows "evs = [ShRun a True, ShRun b True, ShRun c True]"
  using assms by (auto split: prod.splits if_splits)

lemma make_gpt_parts:
  assumes "make_gpt S order arch out partitions w = (True, evs, w')"
  obtains table bytes u evs' where "gpt_table S order arch partitions ''label: gpt'' (ONE_MiB * 2) w = (table, bytes)"
    "fill_partitions S out 0 partitions u = (True, evs', w')"
    "evs = [ShRun (Rm out) True, ShRun (Truncate bytes out) True, ShRun (Sfdisk out table) True] @ evs'"
proof -
  obtain table bytes where t: "gpt_table S order arch partitions ''label: gpt'' (ONE_MiB * 2) w = (table, bytes)" by force
  obtain ok e u where r: "run_commands S [Rm out, Truncate bytes out, Sfdisk out table] w = (ok, e, u)" by (metis prod_cases3)
  obtain q evs' v where f: "fill_partitions S out 0 partitions u = (q, evs', v)" by (metis prod_cases3)
  from assms t r f have "ok \<and> q \<and> v = w' \<and> evs = e @ evs'" by (simp add: make_gpt_def del: run_commands.simps split: if_splits)
  with t r f run_three [of S "Rm out" "Truncate bytes out" "Sfdisk out table" w e u] show thesis by (intro that) simp_all
qed


text \<open>An image with one file of 5 bytes.\<close>

definition shell0 :: "unit shell" where
  "shell0 = \<lparr>sh_size = \<lambda>_ _. Some 5, sh_run = \<lambda>_ w. (True, w), sh_start = \<lambda>_ n w. (Some (dec (start_of [1] n)), w)\<rparr>"


text \<open>The fields of an argument with the parts \<open>PATH:PARTTYPE:PARTUUID:PARTLABEL\<close>, in the order of the indices.\<close>

lemma sfdisk_field_full:
  assumes "CHR '':'' \<notin> set p" "CHR '':'' \<notin> set u" "CHR '':'' \<notin> set l"
  shows "sfdisk_field (\<lambda>ns. ns) ''x86_64'' (p @ '':root:'' @ u @ '':'' @ l) =
    ''type=4f68bce3-e8cd-4db1-96e7-fbcaf984b709,uuid='' @ u @ '',name='' @ l @ '',''"
proof -
  have "p @ '':root:'' @ u @ '':'' @ l \<noteq> []" by simp
  moreover have "split_on (CHR '':'') (p @ CHR '':'' # (''root'' @ CHR '':'' # (u @ CHR '':'' # l))) = [p, ''root'', u, l]"
    using assms by (simp only: split_on_app) simp
  ultimately have "awk_fields (p @ '':root:'' @ u @ '':'' @ l) = [p, ''root'', u, l]" by (simp add: awk_fields_def)
  then show ?thesis by (simp add: sfdisk_field_def upt_rec field_text_def field_key_def partition_types_def)
qed

end
