(* ===== verification/Boot.thy ===== *)
theory Boot
  imports Gpt Execline
begin

text \<open>
  Booting: how \<open>release/live/Makefile\<close> names the partitions of the live image, and how the initramfs (\<open>host/initramfs/etc\<close>: \<open>init\<close>, \<open>getuuids\<close>,
  \<open>probe\<close>) finds them again and comes to the root file system. Both start from the root hash of the file system, which is
  on the command line of the kernel.
\<close>

section \<open>The image\<close>

text \<open>The arguments of \<open>make-gpt.sh\<close> after the first; \<open>roothash\<close> is the content of \<open>build/rootfs.verity.roothash\<close> and \<open>cmd_subst\<close> is \<open>$(...)\<close>.\<close>

definition cmd_subst :: "bytes \<Rightarrow> bytes" where
  "cmd_subst out = rev (dropWhile (\<lambda>c. c = CHR 0x0A) (rev out))"

definition live_partitions :: "path \<Rightarrow> path \<Rightarrow> bytes \<Rightarrow> bytes list" where
  "live_partitions root_fs ext_fs roothash =
     [''build/boot.fat:c12a7328-f81f-11d2-ba4b-00a0c93ec93b'',
      ''build/rootfs.verity.superblock:verity:'' @ cmd_subst (format_uuid (cmd_subst (take 32 (drop 32 roothash))) @ [CHR 0x0A]),
      root_fs @ '':root:'' @ cmd_subst (format_uuid (cmd_subst (take 32 roothash)) @ [CHR 0x0A]),
      ext_fs @ '':9293e1ff-cee4-4658-88be-898ec863944f'']"

section \<open>The initramfs\<close>

text \<open>\<open>substr(s, m, n)\<close> of awk, and what \<open>getuuids\<close> prints; without a root hash of the right length it ends with 1.\<close>

definition awk_substr :: "bytes \<Rightarrow> nat \<Rightarrow> nat \<Rightarrow> bytes" where
  "awk_substr s m n = take n (drop (m - 1) s)"

definition to_uuid :: "bytes \<Rightarrow> bytes" where
  "to_uuid hex = awk_substr hex 1 8 @ ''-'' @ awk_substr hex 9 4 @ ''-'' @ awk_substr hex 13 4 @ ''-'' @ awk_substr hex 17 4 @ ''-'' @ drop 20 hex"

definition getuuids :: "bytes \<Rightarrow> bytes option" where
  "getuuids roothash =
     (if length roothash \<noteq> 64 then None
      else Some (to_uuid (awk_substr roothash 1 32) @ [CHR 0x0A] @ to_uuid (awk_substr roothash 33 32) @ [CHR 0x0A]))"

text \<open>
  \<open>backtick\<close> with \<open>dd count=1 bs=37\<close>: what is read from the pipe and what is left there. The writer has ended before, so the
  pipe holds all it has written. One newline at the end is removed.
\<close>

definition read_uuid :: "bytes \<Rightarrow> bytes \<times> bytes" where
  "read_uuid pipe =
     (let out = take 37 pipe in
      (if out \<noteq> [] \<and> last out = CHR 0x0A then butlast out else out, drop 37 pipe))"

definition init_uuids :: "bytes \<Rightarrow> bytes \<times> bytes" where
  "init_uuids pipe =
     (case read_uuid pipe of (rootfs_uuid, pipe) \<Rightarrow> (case read_uuid pipe of (verity_uuid, pipe) \<Rightarrow> (rootfs_uuid, verity_uuid)))"

definition dd_uuid :: argv where
  "dd_uuid = [''fdmove'', ''0'', ''3'', ''dd'', ''count=1'', ''bs=37'', ''status=none'']"

text \<open>The script \<open>init\<close>; \<open>mdevd_pid\<close> is the process in the background, \<open>roothash\<close> the variable.\<close>

definition init_root :: "bytes \<Rightarrow> script" where
  "init_root mdevd_pid =
     Background (Prog [''rm'', ''/dev/rootfs'', ''/dev/verity''])
     (If (Prog [''mount'', ''/dev/mapper/root-verity'', ''/mnt/root''])
     (Chain [''wait'', mdevd_pid]
     (If (Prog [''mount'', ''--move'', ''/proc'', ''/mnt/root/proc''])
     (If (Prog [''mount'', ''--move'', ''/sys'', ''/mnt/root/sys''])
     (If (Prog [''mount'', ''--move'', ''/dev'', ''/mnt/root/dev''])
     (Prog [''switch_root'', ''/mnt/root'', ''/etc/init'']))))))"

definition init_devices :: "bytes \<Rightarrow> bytes \<Rightarrow> script" where
  "init_devices mdevd_pid roothash =
     If (Prog [''mkfifo'', ''/dev/rootfs.poll''])
     (Background (Chain [''fdclose'', ''3''] (Prog [''mdevd'', ''-C'', ''-b134217728'']))
     (Chain [''importas'', ''-iu'', ''mdevd_pid'', ''!'']
     (If (Prog [''modprobe'', ''erofs''])
     (If (Chain [''redirfd'', ''-r'', ''0'', ''/dev/rootfs.poll''] (Chain [''redirfd'', ''-w'', ''1'', ''/dev/null''] (Prog [''head'', ''-c'', ''1''])))
     (Background (Prog [''kill'', mdevd_pid])
     (Background (Prog [''rm'', ''/dev/rootfs.poll''])
     (If (Chain [''importas'', ''-Si'', ''roothash'']
        (Prog [''veritysetup'', ''open'', ''/dev/rootfs'', ''root-verity'', ''/dev/verity'', roothash]))
     (init_root mdevd_pid))))))))"

definition initramfs_init :: "bytes \<Rightarrow> bytes \<Rightarrow> script" where
  "initramfs_init mdevd_pid roothash =
     Chain [''export'', ''PATH'', ''/bin'']
     (If (Prog [''mount'', ''-a''])
     (Chain [''piperw'', ''3'', ''4'']
     (If (Chain [''fdmove'', ''1'', ''4''] (Prog [''/etc/getuuids'']))
     (Chain [''fdclose'', ''4'']
     (Backtick dd_uuid (\<lambda>rootfs_uuid. Backtick dd_uuid (\<lambda>verity_uuid.
     Chain [''fdclose'', ''3''] (init_devices mdevd_pid roothash))))))))"

text \<open>The part of \<open>probe\<close> that looks for the partitions.\<close>

definition probe_devices :: "bytes \<Rightarrow> bytes \<Rightarrow> script" where
  "probe_devices rootfs_uuid verity_uuid =
     Backtick [''findfs'', ''PARTUUID='' @ rootfs_uuid] (\<lambda>rootfs_dev.
     Backtick [''findfs'', ''PARTUUID='' @ verity_uuid] (\<lambda>verity_dev.
     If (Prog [''ln'', ''-s'', rootfs_dev, ''/dev/rootfs''])
     (If (Prog [''ln'', ''-s'', verity_dev, ''/dev/verity''])
     (Prog [''redirfd'', ''-w'', ''-nb'', ''1'', ''/dev/rootfs.poll'', ''echo'']))))"

section \<open>The partitions are found\<close>

lemma cmd_subst_line: "CHR 0x0A \<notin> set s \<Longrightarrow> cmd_subst (s @ [CHR 0x0A]) = s" "CHR 0x0A \<notin> set s \<Longrightarrow> cmd_subst s = s"
proof -
  assume "CHR 0x0A \<notin> set s"
  then have "dropWhile (\<lambda>c. c = CHR 0x0A) (rev s) = rev s" by (cases "rev s") (auto simp: rev_eq_Cons_iff)
  then show "cmd_subst (s @ [CHR 0x0A]) = s" "cmd_subst s = s" by (simp_all add: cmd_subst_def)
qed

lemma to_uuid_format: "length s = 32 \<Longrightarrow> to_uuid s = format_uuid s"
  by (simp add: to_uuid_def format_uuid_def awk_substr_def substr_def)

lemma length_format_uuid: "length s = 32 \<Longrightarrow> length (format_uuid s) = 36"
  by (simp add: format_uuid_def substr_def)

lemma set_format_uuid: "set (format_uuid s) \<subseteq> insert (CHR ''-'') (set s)"
  using substr_subset [of s] by (simp add: format_uuid_def Let_def) blast

lemma read_uuid_line: "length u = 36 \<Longrightarrow> read_uuid (u @ CHR 0x0A # pipe) = (u, pipe)"
  by (simp add: read_uuid_def)

lemma init_uuids_getuuids:
  assumes "length roothash = 64"
  shows "\<exists>out. getuuids roothash = Some out \<and> init_uuids out = (format_uuid (take 32 roothash), format_uuid (drop 32 roothash))"
proof -
  have len: "length (take 32 roothash) = 32" "length (drop 32 roothash) = 32" using assms by simp_all
  then have "getuuids roothash = Some (format_uuid (take 32 roothash) @ [CHR 0x0A] @ format_uuid (drop 32 roothash) @ [CHR 0x0A])"
    using assms by (simp add: getuuids_def awk_substr_def to_uuid_format)
  moreover have "read_uuid (format_uuid (take 32 roothash) @ CHR 0x0A # pipe) = (format_uuid (take 32 roothash), pipe)"
    "read_uuid (format_uuid (drop 32 roothash) @ CHR 0x0A # pipe) = (format_uuid (drop 32 roothash), pipe)" for pipe
    using len by (simp_all only: read_uuid_line length_format_uuid)
  ultimately show ?thesis by (simp add: init_uuids_def)
qed

lemma sfdisk_field_uuid:
  assumes "CHR '':'' \<notin> set p" "CHR '':'' \<notin> set ty" "CHR '':'' \<notin> set u"
  shows "\<exists>t. sfdisk_field (\<lambda>ns. ns) arch (p @ '':'' @ ty @ '':'' @ u) = ''type='' @ t @ '',uuid='' @ u @ '',''"
proof -
  have "split_on (CHR '':'') (p @ CHR '':'' # ty @ CHR '':'' # u) = [p, ty, u]" using assms by simp
  then have "awk_fields (p @ '':'' @ ty @ '':'' @ u) = [p, ty, u]" by (simp add: awk_fields_def)
  then show ?thesis by (simp add: sfdisk_field_def upt_rec field_text_def field_key_def)
qed

definition hash_digit :: "char \<Rightarrow> bool" where
  "hash_digit c \<longleftrightarrow> is_digit c \<or> 97 \<le> (of_char c :: nat) \<and> (of_char c :: nat) \<le> 102"



section \<open>The root file system is verified\<close>

definition boot_steps :: "bytes \<Rightarrow> argv list" where
  "boot_steps roothash =
     [[''/etc/getuuids''], [''mkfifo'', ''/dev/rootfs.poll''], [''modprobe'', ''erofs''], [''head'', ''-c'', ''1''],
      [''veritysetup'', ''open'', ''/dev/rootfs'', ''root-verity'', ''/dev/verity'', roothash],
      [''mount'', ''/dev/mapper/root-verity'', ''/mnt/root''], [''mount'', ''--move'', ''/proc'', ''/mnt/root/proc''],
      [''mount'', ''--move'', ''/sys'', ''/mnt/root/sys''], [''mount'', ''--move'', ''/dev'', ''/mnt/root/dev''],
      [''switch_root'', ''/mnt/root'', ''/etc/init'']]"

lemma init_steps:
  "list_all (\<lambda>(a, x). after a x (initramfs_init mdevd_pid roothash)) (zip (boot_steps roothash) (tl (boot_steps roothash)))"
  by (simp add: boot_steps_def initramfs_init_def init_devices_def init_root_def dd_uuid_def)

lemma probe_ordered:
  assumes "link \<in> {''/dev/rootfs'', ''/dev/verity''}"
  shows "ordered (\<lambda>_. None) L (\<lambda>e. \<exists>dev. e = Ended [''ln'', ''-s'', dev, link] 0)
    (\<lambda>e. e = Started [''redirfd'', ''-w'', ''-nb'', ''1'', ''/dev/rootfs.poll'', ''echo'']) (probe_devices rootfs_uuid verity_uuid)"
proof -
  let ?P = "\<lambda>e. \<exists>dev. e = Ended [''ln'', ''-s'', dev, link] 0" and ?x = "[''redirfd'', ''-w'', ''-nb'', ''1'', ''/dev/rootfs.poll'', ''echo'']"
  have prog: "ordered (\<lambda>_. None) L ?P (\<lambda>e. e = Started ?x) (Prog a)" if "a \<noteq> ?x" for a using that by (intro ordered_Prog) auto
  have "ordered (\<lambda>_. None) L ?P (\<lambda>e. e = Started ?x) (If (Prog [''ln'', ''-s'', dev, ''/dev/rootfs'']) (If (Prog [''ln'', ''-s'', dev', ''/dev/verity'']) (Prog ?x)))" for dev dev'
  proof (cases "link = ''/dev/rootfs''")
    case True
    then show ?thesis by (intro ordered_If prog disjI1 marks_Prog) auto
  next
    case False
    with assms have "link = ''/dev/verity''" by simp
    then show ?thesis
      by (intro ordered_If [where b = "Prog [''ln'', ''-s'', dev, ''/dev/rootfs'']"] disjI2 prog ordered_If [where b = "Prog [''ln'', ''-s'', dev', ''/dev/verity'']", OF prog disjI1 [OF marks_Prog]]) auto
  qed
  then show ?thesis unfolding probe_devices_def by (intro ordered_Backtick prog) simp_all
qed

text \<open>
  C13. The initramfs never goes on with a root file system that was not verified. At every moment of every run, each of the steps from \<open>getuuids\<close>
  over \<open>veritysetup open\<close> with the root hash, mounting the verified device and moving the other file systems to \<open>switch_root\<close> is begun only after the
  one before it has succeeded; and \<open>probe\<close> wakes \<open>init\<close> only after the links to both partitions were made.
\<close>

theorem init_verifies_root:
  assumes "runs (\<lambda>_. None) L (initramfs_init mdevd_pid roothash) tr r" "runs (\<lambda>_. None) L (probe_devices rootfs_uuid verity_uuid) tr' r'"
  defines "steps \<equiv> boot_steps roothash"
  shows "(\<forall>i. Suc i < length steps \<longrightarrow> preceded (\<lambda>e. e = Ended (steps ! i) 0) (\<lambda>e. e = Started (steps ! Suc i)) tr) \<and>
    (\<forall>link \<in> {''/dev/rootfs'', ''/dev/verity''}.
       preceded (\<lambda>e. \<exists>dev. e = Ended [''ln'', ''-s'', dev, link] 0) (\<lambda>e. e = Started [''redirfd'', ''-w'', ''-nb'', ''1'', ''/dev/rootfs.poll'', ''echo'']) tr')"
proof -
  have "preceded (\<lambda>e. e = Ended (steps ! i) 0) (\<lambda>e. e = Started (steps ! Suc i)) tr" if "Suc i < length steps" for i
    using that init_steps [of mdevd_pid roothash] unfolding steps_def
    by (intro orderedD [OF after_ordered assms(1)]) (auto simp: list_all_length nth_tl)
  moreover have "preceded (\<lambda>e. \<exists>dev. e = Ended [''ln'', ''-s'', dev, link] 0)
      (\<lambda>e. e = Started [''redirfd'', ''-w'', ''-nb'', ''1'', ''/dev/rootfs.poll'', ''echo'']) tr'"
    if "link \<in> {''/dev/rootfs'', ''/dev/verity''}" for link
    by (rule orderedD [OF probe_ordered [OF that] assms(2)])
  ultimately show ?thesis by blast
qed

theorem init_verifies_root_witness:
  "runs (\<lambda>_. None) (\<lambda>_ _. True) (initramfs_init ''42'' ''0f'') (smooth (initramfs_init ''42'' ''0f'')) (Some 0) \<and>
   Started [''switch_root'', ''/mnt/root'', ''/etc/init''] \<in> set (smooth (initramfs_init ''42'' ''0f'')) \<and>
   preceded (\<lambda>e. e = Ended [''veritysetup'', ''open'', ''/dev/rootfs'', ''root-verity'', ''/dev/verity'', ''0f''] 0)
     (\<lambda>e. e = Started [''mount'', ''/dev/mapper/root-verity'', ''/mnt/root'']) (smooth (initramfs_init ''42'' ''0f''))"
proof -
  have runs: "runs (\<lambda>_. None) (\<lambda>_ _. True) (initramfs_init ''42'' ''0f'') (smooth (initramfs_init ''42'' ''0f'')) (Some 0)"
    "runs (\<lambda>_. None) (\<lambda>_ _. True) (probe_devices [] []) (smooth (probe_devices [] [])) (Some 0)" by (rule runs_smooth, simp)+
  have "Suc 4 < length (boot_steps ''0f'')" by (simp add: boot_steps_def)
  with init_verifies_root [OF runs] have "preceded (\<lambda>e. e = Ended (boot_steps ''0f'' ! 4) 0) (\<lambda>e. e = Started (boot_steps ''0f'' ! Suc 4))
      (smooth (initramfs_init ''42'' ''0f''))" by blast
  moreover have "Started [''switch_root'', ''/mnt/root'', ''/etc/init''] \<in> set (smooth (initramfs_init ''42'' ''0f''))"
    by (simp add: initramfs_init_def init_devices_def init_root_def)
  ultimately show ?thesis using runs(1) by (simp add: boot_steps_def)
qed

end
