(* ===== verification/RunQemu.thy ===== *)
theory RunQemu
  imports Prelude
begin

text \<open>
  \<open>scripts/run-qemu.sh\<close> and \<open>scripts/run-cloud-hypervisor.sh\<close>: wrappers that change the arguments of QEMU and of Cloud Hypervisor. A script goes through its positional parameters by taking
  the first one off and adding what becomes of it at the end, until as many were handled as there are. Variables that may be inherited from
  the environment are options; as the scripts run with \<open>-u\<close>, using one that is not set ends it, which is \<open>None\<close>. Parameters that the shell would
  expand as patterns of file names are not considered.
\<close>

section \<open>The script\<close>

text \<open>The fields of an unquoted expansion, if \<open>IFS\<close> is a comma.\<close>

definition comma_fields :: "bytes \<Rightarrow> bytes list" where
  "comma_fields s = (let fs = split_on (CHR '','') s in if last fs = [] then butlast fs else fs)"

text \<open>\<open>${x:+word}\<close>\<close>

definition if_set :: "bytes option \<Rightarrow> bytes list \<Rightarrow> bytes list" where
  "if_set x word = (case x of None \<Rightarrow> [] | Some v \<Rightarrow> if v = [] then [] else word)"

text \<open>\<open>"${x:+$x }$v"\<close> and \<open>"console=ttyS0${x:+ $x}"\<close>\<close>

definition append_word :: "bytes option \<Rightarrow> bytes \<Rightarrow> bytes" where
  "append_word x v = (case x of None \<Rightarrow> [] | Some a \<Rightarrow> if a = [] then [] else a @ '' '') @ v"

definition console_and :: "bytes option \<Rightarrow> bytes" where
  "console_and x = ''console=ttyS0'' @ (case x of None \<Rightarrow> [] | Some a \<Rightarrow> if a = [] then [] else '' '' @ a)"

record qemu_vars =
  q_append :: "bytes option"
  q_iommu :: "bytes option"
  q_machine :: "bytes option"
  q_kernel :: "bytes option"
  q_accel :: bytes

definition arch_vars :: "bytes \<Rightarrow> qemu_vars \<Rightarrow> qemu_vars" where
  "arch_vars arch q =
     (if arch = ''aarch64'' then q\<lparr>q_machine := Some ''virt,gic-version=3,iommu=smmuv3''\<rparr>
      else if arch = ''x86_64'' then
        q\<lparr>q_append := Some (console_and (q_append q)),
          q_iommu := Some ''intel-iommu,intremap=on'', q_machine := Some ''q35,kernel-irqchip=split''\<rparr>
      else q)"

definition append_value :: "qemu_vars \<Rightarrow> bytes \<Rightarrow> bytes" where
  "append_value q v = append_word (q_append q) v"

definition device_vars :: "bytes \<Rightarrow> qemu_vars \<Rightarrow> qemu_vars" where
  "device_vars v q =
     (case comma_fields v of [] \<Rightarrow> q | opt # _ \<Rightarrow> if drop (length opt - 6) opt = ''-iommu'' then q\<lparr>q_iommu := None\<rparr> else q)"

fun machine_value :: "bytes \<Rightarrow> bytes list \<Rightarrow> bytes \<Rightarrow> qemu_vars \<Rightarrow> bytes \<times> qemu_vars" where
  "machine_value arch [] arg q = (arg, q)"
| "machine_value arch (opt # opts) arg q =
     (if opt = ''virtualization=on'' \<and> arch \<noteq> ''aarch64'' then machine_value arch opts arg q
      else
        (let q = (if opt = ''virtualization=on'' then q\<lparr>q_accel := ''tcg''\<rparr> else q) in
         machine_value arch opts (arg @ (if arg = [] then [] else '','') @ opt) q))"

function qemu_loop :: "bytes \<Rightarrow> nat \<Rightarrow> bytes list \<Rightarrow> qemu_vars \<Rightarrow> (qemu_vars \<times> bytes list) option" where
  "qemu_loop arch i args q =
     (if \<not> i < length args then Some (q, args)
      else
        (let arg = hd args; rest = tl args in
         if arg = ''-append'' then
           (case rest of [] \<Rightarrow> None | v # _ \<Rightarrow> qemu_loop arch (i + 2) (tl (rest @ [''-append'', append_value q v])) q)
         else if arg = ''-device'' then
           (case rest of [] \<Rightarrow> None | v # _ \<Rightarrow> qemu_loop arch (i + 1) (rest @ [arg]) (device_vars v q))
         else if arg = ''-machine'' then
           (let ps = rest @ [arg] in
            case machine_value arch (comma_fields (hd ps)) [] q of (arg, q) \<Rightarrow> qemu_loop arch (i + 2) (tl ps @ [arg]) q)
         else qemu_loop arch (i + 1) (rest @ [arg]) q))"
  by pat_completeness auto
termination
  by (relation "measure (\<lambda>(arch, i, args, q). length args - i)") auto

declare qemu_loop.simps [simp del]

definition last_vars :: "bytes list \<Rightarrow> qemu_vars \<Rightarrow> qemu_vars" where
  "last_vars args q =
     (let q = (if ''-append'' \<in> set args then q\<lparr>q_append := Some []\<rparr> else q) in
      if ''-kernel'' \<in> set args then q\<lparr>q_kernel := Some ''1''\<rparr> else q)"

text \<open>The arguments QEMU is executed with.\<close>

definition run_qemu :: "bytes \<Rightarrow> bytes list \<Rightarrow> qemu_vars \<Rightarrow> bytes list option" where
  "run_qemu arch args q =
     (case qemu_loop arch 0 args (arch_vars arch (q\<lparr>q_accel := ''kvm''\<rparr>)) of
        None \<Rightarrow> None
      | Some (q, args) \<Rightarrow>
         (let q = last_vars args q in
          case q_machine q of
            None \<Rightarrow> None
          | Some machine \<Rightarrow>
              Some ([''-accel'', q_accel q, ''-machine'', machine] @
                if_set (q_kernel q) (case q_append q of None \<Rightarrow> [] | Some a \<Rightarrow> if_set (q_append q) [''-append'', a]) @
                (case q_iommu q of None \<Rightarrow> [] | Some d \<Rightarrow> if_set (q_iommu q) [''-device'', d]) @ args)))"

section \<open>What becomes of the arguments\<close>

text \<open>The reference: the arguments from left to right.\<close>

fun rewrite :: "bytes \<Rightarrow> bytes list \<Rightarrow> qemu_vars \<Rightarrow> qemu_vars \<times> bytes list" where
  "rewrite arch [] q = (q, [])"
| "rewrite arch [a] q = (q, [a])"
| "rewrite arch (a # v # as) q =
     (if a = ''-append'' then (case rewrite arch as q of (q', out) \<Rightarrow> (q', a # append_value q v # out))
      else if a = ''-device'' then (case rewrite arch (v # as) (device_vars v q) of (q', out) \<Rightarrow> (q', a # out))
      else if a = ''-machine'' then
        (case machine_value arch (comma_fields v) [] q of (m, q) \<Rightarrow> (case rewrite arch as q of (q', out) \<Rightarrow> (q', a # m # out)))
      else (case rewrite arch (v # as) q of (q', out) \<Rightarrow> (q', a # out)))"

text \<open>The options that are looked at have their value.\<close>

fun complete :: "bytes list \<Rightarrow> bool" where
  "complete [] = True"
| "complete [a] = (a \<notin> {''-append'', ''-device'', ''-machine''})"
| "complete (a # v # as) = (if a \<in> {''-append'', ''-machine''} then complete as else complete (v # as))"

lemma qemu_loop_done: "qemu_loop arch (length out) out q = Some (q, out)"
  by (subst qemu_loop.simps) simp

lemma qemu_loop_rewrites:
  "complete args \<Longrightarrow> qemu_loop arch (length out) (args @ out) q = (case rewrite arch args q of (q', out') \<Rightarrow> Some (q', out @ out'))"
proof (induction arch args q arbitrary: out rule: rewrite.induct)
  case (1 arch q)
  show ?case by (simp add: qemu_loop_done)
next
  case (2 arch a q)
  then have "qemu_loop arch (length out) ([a] @ out) q = qemu_loop arch (length (out @ [a])) (out @ [a]) q"
    by (subst qemu_loop.simps) simp
  then show ?case using qemu_loop_done [of arch "out @ [a]" q] by simp
next
  case (3 arch a v as q)
  have len: "length out < length ((a # v # as) @ out)" by simp
  consider "a = ''-append''" | "a = ''-device''" | "a = ''-machine''" | "a \<notin> {''-append'', ''-device'', ''-machine''}" by blast
  then show ?case
  proof cases
    case 1
    then have "qemu_loop arch (length out) ((a # v # as) @ out) q =
        qemu_loop arch (length (out @ [a, append_value q v])) (as @ out @ [a, append_value q v]) q"
      by (subst qemu_loop.simps) simp
    moreover have "complete as" using "3.prems" 1 by simp
    ultimately show ?thesis using "3.IH"(1) [OF 1, of "out @ [a, append_value q v]"] 1 by (simp split: prod.splits)
  next
    case 2
    then have "qemu_loop arch (length out) ((a # v # as) @ out) q = qemu_loop arch (length (out @ [a])) ((v # as) @ out @ [a]) (device_vars v q)"
      by (subst qemu_loop.simps) simp
    moreover have "a \<noteq> ''-append''" "complete (v # as)" using "3.prems" 2 by simp_all
    ultimately show ?thesis using "3.IH"(2) [OF _ 2, of "out @ [a]"] 2 by (simp split: prod.splits)
  next
    case c: 3
    obtain m q' where m: "machine_value arch (comma_fields v) [] q = (m, q')" by force
    with c have "qemu_loop arch (length out) ((a # v # as) @ out) q = qemu_loop arch (length (out @ [a, m])) (as @ out @ [a, m]) q'"
      by (subst qemu_loop.simps) simp
    moreover have "a \<noteq> ''-append''" "a \<noteq> ''-device''" "complete as" using "3.prems" c by simp_all
    ultimately show ?thesis using "3.IH"(3) [OF _ _ c m [symmetric], of "out @ [a, m]"] c m by (simp split: prod.splits)
  next
    case 4
    then have "qemu_loop arch (length out) ((a # v # as) @ out) q = qemu_loop arch (length (out @ [a])) ((v # as) @ out @ [a]) q"
      by (subst qemu_loop.simps) simp
    moreover have "complete (v # as)" using "3.prems" 4 by simp
    ultimately show ?thesis using "3.IH"(4) [of "out @ [a]"] 4 by (simp split: prod.splits)
  qed
qed

lemma length_rewrite: "length (snd (rewrite arch args q)) = length args"
  by (induction arch args q rule: rewrite.induct) (auto split: prod.splits)

text \<open>
  C23. Turning the positional parameters around is equivalent to going through them from left to right: if every option the script looks at has its
  value, the loop ends with each parameter, or what became of it, in its place, and with the variables that going through them in that order leaves.
\<close>

theorem qemu_loop_reference:
  assumes "complete args"
  shows "qemu_loop arch 0 args q = Some (rewrite arch args q) \<and> length (snd (rewrite arch args q)) = length args"
  using qemu_loop_rewrites [OF assms, of arch "[]" q] length_rewrite [of arch args q] by (simp split: prod.splits)

definition qemu_vars0 :: qemu_vars where
  "qemu_vars0 = \<lparr>q_append = Some ''quiet'', q_iommu = None, q_machine = None, q_kernel = None, q_accel = ''kvm''\<rparr>"

theorem qemu_loop_reference_witness:
  "complete [''-kernel'', ''bzImage'', ''-append'', ''ro'', ''-machine'', ''a=1,virtualization=on,b''] \<and>
   qemu_loop ''x86_64'' 0 [''-kernel'', ''bzImage'', ''-append'', ''ro'', ''-machine'', ''a=1,virtualization=on,b''] qemu_vars0 =
     Some (qemu_vars0, [''-kernel'', ''bzImage'', ''-append'', ''quiet ro'', ''-machine'', ''a=1,b''])"
  using qemu_loop_reference [of "[''-kernel'', ''bzImage'', ''-append'', ''ro'', ''-machine'', ''a=1,virtualization=on,b'']" "''x86_64''" qemu_vars0]
  by (simp add: append_value_def append_word_def comma_fields_def qemu_vars0_def)

text \<open>
  An option \<open>-append\<close> at the end without a value is not noticed: an argument that was already handled is taken for the value and
  is missing from the arguments of QEMU.
\<close>

lemma qemu_loop_trailing:
  assumes "a \<notin> {''-append'', ''-device'', ''-machine''}"
  shows "qemu_loop arch 0 [a, ''-append''] q = Some (q, [''-append'', append_value q a])"
proof -
  have "qemu_loop arch 0 [a, ''-append''] q = qemu_loop arch 1 [''-append'', a] q" using assms by (subst qemu_loop.simps) simp
  also have "\<dots> = qemu_loop arch 3 [''-append'', append_value q a] q" by (subst qemu_loop.simps) (simp add: numeral_3_eq_3)
  also have "\<dots> = Some (q, [''-append'', append_value q a])" by (subst qemu_loop.simps) simp
  finally show ?thesis .
qed

text \<open>A kernel on x86_64 always has a console: if no \<open>-append\<close> is among the arguments, one is added.\<close>

lemma machine_value_vars: "machine_value arch opts arg q = (m, q') \<Longrightarrow> q_append q' = q_append q \<and> q_machine q' = q_machine q"
  by (induction arch opts arg q rule: machine_value.induct) (auto simp: Let_def split: if_splits)

lemma device_vars_keeps [simp]: "q_append (device_vars v q) = q_append q" "q_machine (device_vars v q) = q_machine q"
  by (auto simp: device_vars_def split: list.split)

lemma rewrite_vars:
  "q_append (fst (rewrite arch args q)) = q_append q \<and> q_machine (fst (rewrite arch args q)) = q_machine q"
proof (induction arch args q rule: rewrite.induct)
  case (3 arch a v as q)
  obtain m q' where m: "machine_value arch (comma_fields v) [] q = (m, q')" by force
  from machine_value_vars [OF m] 3 m show ?case by (simp add: split_beta del: split_paired_All)
qed simp_all

lemma run_qemu_console:
  assumes "complete args" "rewrite ''x86_64'' args (arch_vars ''x86_64'' (q\<lparr>q_accel := ''kvm''\<rparr>)) = (q', out)"
    and kernel: "''-kernel'' \<in> set out" and no_append: "''-append'' \<notin> set out"
  shows "\<exists>accel machine more rest. run_qemu ''x86_64'' args q =
    Some ([''-accel'', accel, ''-machine'', machine, ''-append'', ''console=ttyS0'' @ more] @ rest)"
proof -
  let ?q = "arch_vars ''x86_64'' (q\<lparr>q_accel := ''kvm''\<rparr>)"
  have loop: "qemu_loop ''x86_64'' 0 args ?q = Some (q', out)"
    using qemu_loop_rewrites [OF assms(1), of "''x86_64''" "[]"] assms(2) by simp
  obtain more machine where "q_append ?q = Some (''console=ttyS0'' @ more)" "q_machine ?q = Some machine" by (simp add: arch_vars_def console_and_def)
  then have vars: "q_append q' = Some (''console=ttyS0'' @ more)" "q_machine q' = Some machine"
    using rewrite_vars [of "''x86_64''" args ?q] assms(2) by simp_all
  have last: "last_vars out q' = q'\<lparr>q_kernel := Some ''1''\<rparr>" using kernel no_append unfolding last_vars_def Let_def by (simp only: if_True if_False)
  show ?thesis unfolding run_qemu_def loop option.case prod.case Let_def last by (simp add: vars if_set_def)
qed

section \<open>The wrapper of Cloud Hypervisor\<close>

function ch_loop :: "nat \<Rightarrow> bytes list \<Rightarrow> bytes option \<Rightarrow> (bytes option \<times> bytes list) option" where
  "ch_loop i args cmdline =
     (if \<not> i < length args then Some (cmdline, args)
      else
        (let arg = hd args; rest = tl args in
         if arg = ''--cmdline'' then
           (case rest of [] \<Rightarrow> None | v # rest \<Rightarrow> ch_loop i rest (Some (append_word cmdline v)))
         else ch_loop (i + 1) (rest @ [arg]) cmdline))"
  by pat_completeness auto
termination
  by (relation "measure (\<lambda>(i, args, cmdline). length args - i)") (auto dest: arg_cong [where f = length])

declare ch_loop.simps [simp del]

text \<open>The arguments Cloud Hypervisor is executed with.\<close>

definition run_cloud_hypervisor :: "bytes \<Rightarrow> bytes list \<Rightarrow> bytes option \<Rightarrow> bytes list option" where
  "run_cloud_hypervisor arch args cmdline =
     (let cmdline = (if arch = ''x86_64'' then Some (console_and cmdline) else cmdline) in
      case ch_loop 0 args cmdline of
        None \<Rightarrow> None
      | Some (cmdline, args) \<Rightarrow> Some ((case cmdline of None \<Rightarrow> [] | Some c \<Rightarrow> if_set cmdline [''--cmdline'', c]) @ args))"

text \<open>The reference: the values of \<open>--cmdline\<close> are collected, the rest is kept. A last \<open>--cmdline\<close> needs its value.\<close>

fun cmdlines :: "bytes list \<Rightarrow> bytes option \<Rightarrow> bytes option \<times> bytes list" where
  "cmdlines [] c = (c, [])"
| "cmdlines [a] c = (c, [a])"
| "cmdlines (a # v # as) c =
     (if a = ''--cmdline'' then cmdlines as (Some (append_word c v))
      else (case cmdlines (v # as) c of (c', out) \<Rightarrow> (c', a # out)))"

fun cmdline_complete :: "bytes list \<Rightarrow> bool" where
  "cmdline_complete [] = True"
| "cmdline_complete [a] = (a \<noteq> ''--cmdline'')"
| "cmdline_complete (a # v # as) = (if a = ''--cmdline'' then cmdline_complete as else cmdline_complete (v # as))"

lemma ch_loop_cmdlines:
  "cmdline_complete args \<Longrightarrow> ch_loop (length out) (args @ out) c = (case cmdlines args c of (c', out') \<Rightarrow> Some (c', out @ out'))"
proof (induction args c arbitrary: out rule: cmdlines.induct)
  case (1 c)
  show ?case by (subst ch_loop.simps) simp
next
  case (2 a c)
  then have "ch_loop (length out) ([a] @ out) c = ch_loop (length (out @ [a])) (out @ [a]) c"
    by (subst ch_loop.simps) simp
  also have "\<dots> = Some (c, out @ [a])" by (subst ch_loop.simps) simp
  finally show ?case by simp
next
  case (3 a v as c)
  show ?case
  proof (cases "a = ''--cmdline''")
    case True
    then have "ch_loop (length out) ((a # v # as) @ out) c = ch_loop (length out) (as @ out) (Some (append_word c v))"
      by (subst ch_loop.simps) simp
    with 3 True show ?thesis by simp
  next
    case False
    then have "ch_loop (length out) ((a # v # as) @ out) c = ch_loop (length (out @ [a])) ((v # as) @ out @ [a]) c"
      by (subst ch_loop.simps) simp
    moreover have "cmdline_complete (v # as)" using "3.prems" False by simp
    ultimately show ?thesis using "3.IH"(2) [OF False, of "out @ [a]"] False by (simp split: prod.splits)
  qed
qed

lemma cmdlines_removed: "cmdline_complete args \<Longrightarrow> ''--cmdline'' \<notin> set (snd (cmdlines args c))"
  by (induction args c rule: cmdlines.induct) (auto split: prod.splits if_splits)

text \<open>
  Cloud Hypervisor gets at most one \<open>--cmdline\<close>, at the front, and on x86_64 it begins with the console, whatever was collected.
\<close>

lemma cmdlines_console: "\<exists>more. fst (cmdlines args (Some (''console=ttyS0'' @ c))) = Some (''console=ttyS0'' @ more)"
proof (induction args "Some (''console=ttyS0'' @ c)" arbitrary: c rule: cmdlines.induct)
  case (3 a v as)
  have "append_word (Some (''console=ttyS0'' @ c)) v = ''console=ttyS0'' @ c @ '' '' @ v" by (simp add: append_word_def)
  with 3 show ?case by (auto simp: split_beta)
qed auto

lemma run_cloud_hypervisor_console:
  assumes "cmdline_complete args"
  shows "\<exists>more rest. run_cloud_hypervisor ''x86_64'' args cmdline = Some (''--cmdline'' # (''console=ttyS0'' @ more) # rest) \<and>
    ''--cmdline'' \<notin> set rest"
proof -
  obtain c where c: "console_and cmdline = ''console=ttyS0'' @ c" by (simp add: console_and_def)
  obtain c' out where out: "cmdlines args (Some (''console=ttyS0'' @ c)) = (c', out)" by force
  obtain more where "c' = Some (''console=ttyS0'' @ more)" using cmdlines_console [of args c] out by auto
  moreover have "''--cmdline'' \<notin> set out" using cmdlines_removed [OF assms] out by (metis snd_conv)
  moreover have "ch_loop 0 args (Some (''console=ttyS0'' @ c)) = Some (c', out)"
    using ch_loop_cmdlines [OF assms, of "[]"] out by simp
  ultimately show ?thesis unfolding run_cloud_hypervisor_def Let_def by (simp add: c if_set_def)
qed

end
