(* ===== verification/Spec2Isabelle.thy ===== *)
theory Spec2Isabelle
  imports StartVmm PortalHost Guest RunVm Services Iface Boot RunQemu
begin

text \<open>
  \<^bold>\<open>A verification of the programs of Spectrum\<close>

  Spectrum runs applications in virtual machines. All of its programs in Rust and C are modelled here, and those of its scripts
  that decide something: the tools that bring machines up, the services of a machine, the network in the guests, the boot of the host and the disk images.

  \<^item> \<open>start-vmm\<close> (\<open>src/host/start-vmm\<close>) is started by s6 once per virtual machine. It reads the directory of the
    machine, sets up a bridge with two taps if the machine has a network provider, forks a process that configures Cloud
    Hypervisor through its API and then signals readiness, and executes Cloud Hypervisor itself.
  \<^item> The portal has two sides. \<open>xdg-desktop-portal-spectrum\<close> (\<open>src/tools/xdg-desktop-portal-spectrum\<close>) runs in the
    guest and connects to the host over vsock; \<open>xdg-desktop-portal-spectrum-host\<close> (\<open>src/tools/xdg-desktop-portal-spectrum-host\<close>)
    listens on the socket Cloud Hypervisor connects to for the guest, connects back to the D-Bus of the guest and offers a file chooser there.
    Files the user chooses on the host are shared through the document portal.
  \<^item> \<open>make-gpt.sh\<close> (\<open>src/scripts\<close>) makes a disk image with a partition for each file. It seeks in the image with the program \<open>lseek\<close>
    (\<open>src/tools/lseek\<close>). \<open>run-spectrum-vm\<close> (\<open>src/scripts/run-spectrum-vm.c\<close>) runs \<open>start-vmm\<close> outside of Spectrum,
    and \<open>run-qemu.sh\<close> and \<open>run-cloud-hypervisor.sh\<close> run images.
  \<^item> On the host, \<open>vm-import\<close>, \<open>vm-start\<close> and \<open>run-appimage\<close> (\<open>src/host/rootfs/usr/bin\<close>) make the directories of machines, create the
    instances of their services (\<open>src/host/rootfs/etc/s6-linux-init/run-image/service\<close>) and tell Cloud Hypervisor to boot. They are written in execline.
  \<^item> The initramfs (\<open>src/host/initramfs/etc\<close>) finds and verifies the root file system of the host. In the guests, the scripts \<open>iface\<close>
    (\<open>src/img/app/etc/mdev\<close>, \<open>src/vm/sys/net/etc/mdev\<close>) configure the network that \<open>start-vmm\<close> has connected.

  These parts share no definitions. They meet in the sockets under \<open>/run/vm/NAME\<close> and in the instance directories of the services, in MAC addresses and in
  identifiers of partitions, which each of them computes for itself.

  \<^bold>\<open>Conventions\<close>

  Byte strings, paths and \<open>OsString\<close> are lists of characters. A fallible function returns \<open>result\<close>; a function that may
  panic, exit or not return has the type \<open>outcome\<close>. Messages are constructors of an error type, one for each message in the sources.
  The kernel and the crates and libraries that are not in the repository are fields of records (\<open>os\<close>, \<open>host\<close>, \<open>zv\<close>, \<open>guest\<close>, \<open>seeker\<close>, \<open>shell\<close>, \<open>runner\<close>):
  arbitrary functions of a hidden world, so a theorem without a hypothesis on them holds for every behaviour of them. What a program
  relies on is a named hypothesis (\<open>fd_table\<close>, \<open>netdev\<close>, \<open>pipe_reader\<close>, \<open>stream\<close>, \<open>guest_socket\<close>, \<open>sound_host\<close> and so on), and each
  has an instance in a witness. Every request is recorded in a log together with its answer; safety properties speak about that log. Variables that
  the C code reads without having written them are arguments called \<open>junk\<close>.

  \<^bold>\<open>Theories\<close>

  \<^item> \<open>Prelude\<close>, \<open>Format\<close>, \<open>Strtol\<close>, \<open>Utf8\<close>, \<open>RPath\<close>: the parts of the standard libraries the programs use. Numbers in decimal and hexadecimal,
    the conversion \<open>strtol\<close>, words as bytes, valid UTF-8, and \<open>Path\<close> with its components, which are proved to be those of a plain reference definition.
  \<^item> \<open>Sys\<close>, \<open>Fds\<close>, \<open>Quiet\<close>: the operating system as \<open>start-vmm\<close> sees it and the state of a process; the locale \<open>fd_op\<close>, with which the
    descriptors an operation leaves open are computed compositionally from its log; the locale \<open>quiet_op\<close> for operations
    without certain events.
  \<^item> \<open>Mac\<close> (\<open>net.rs\<close>), \<open>Ch\<close> (\<open>ch.rs\<close>), \<open>NetUtil\<close> (\<open>net-util.c\<close>), \<open>Net\<close> and \<open>NetNames\<close> (\<open>net.c\<close>), \<open>Fork\<close> (\<open>fork.c\<close>, \<open>unix.c\<close>, \<open>unix.rs\<close>, \<open>s6.rs\<close>),
    \<open>VmConfig\<close> (\<open>vm_config\<close> of \<open>lib.rs\<close>) and \<open>StartVmm\<close> (the rest of \<open>lib.rs\<close> and \<open>start-vmm.rs\<close>). Each has one definition per
    function, with the same name and the same order of calls. They show: text and arguments determine the values they are made from;
    no descriptor is leaked on any path, whatever the kernel answers; failing network set-ups delete their bridge; names
    fit their buffers; the pid of the grandchild crosses the pipe; a configuration describes exactly its directory; readiness is signalled exactly if
    the machine was created; and what is executed in the end.
  \<^item> \<open>PortalEnv\<close>: the environment of the portal on the host, its three \<open>static\<close> cells (locale \<open>once_lock\<close>) and streams.
  \<^item> \<open>Wire\<close> and \<open>PortalHost\<close> (\<open>main.rs\<close>), \<open>Documents\<close> (\<open>documents.rs\<close>), \<open>FileChooser\<close> (\<open>file_chooser.rs\<close>). The process is the step relation
    \<open>portal_step\<close> on the accept loop, the tasks and the requests of guests. It is shown that no reachable state has panicked, that
    choosers have absolute share roots, that the waiting connections can be set up in any order, that success is reported to a guest only
    after its chooser is registered, and that files are shared only as the user has chosen, with the rights the user has given.
  \<^item> \<open>Guest\<close> (\<open>xdg-desktop-portal-spectrum.c\<close>): all functions, with the bytes they write and the answers they accept.
  \<^item> \<open>Lseek\<close> (\<open>lseek.c\<close>) and \<open>Gpt\<close> (\<open>make-gpt.sh\<close>, \<open>sfdisk-field.awk\<close>, \<open>format-uuid.sh\<close>): a program is executed only after the seek
    that was asked for; the script passes the arguments that seek to a partition; and the files in an image do not overlap.
  \<^item> \<open>RunVm\<close> (\<open>run-spectrum-vm.c\<close>): what is executed and removed, and after which calls. \<open>RunQemu\<close> (\<open>run-qemu.sh\<close>, \<open>run-cloud-hypervisor.sh\<close>): turning the
    positional parameters around is the same as going through them once, and a kernel on x86_64 always gets a console.
  \<^item> \<open>Execline\<close>: the language as a datatype of scripts and the relation \<open>runs\<close> between a script, what it can have done at some moment and its status,
    with the rules to prove what happens before what, in parallel blocks too, and a computable check for scripts that call no other scripts.
  \<^item> \<open>HostTools\<close> (\<open>vm-import\<close>, \<open>create-vm-dependencies\<close>, \<open>vm-start\<close>, \<open>vm-stop\<close>, \<open>run-appimage\<close>): machines are brought up in the right order, and
    \<open>vm-start\<close>, which calls itself for the providers of a machine, ends exactly if no chain of providers is infinite. \<open>Services\<close>: the four services of a machine and
    the sockets they listen on.
  \<^item> \<open>Iface\<close>: both ends of a network compute the same address of the client from the MAC addresses \<open>net_setup\<close> has given them. \<open>Boot\<close>
    (\<open>init\<close>, \<open>getuuids\<close>, the search in \<open>probe\<close>, the partitions in \<open>release/live/Makefile\<close>): the initramfs looks for the partitions under the names they were made with and
    goes on only with a verified root file system.
  \<^item> This theory: the properties that span programs. The portal connects to the socket of its own virtual machine, \<open>start-vmm\<close>, the tools and the services agree on
    their sockets, the two sides of the portal understand each other, and \<open>run-spectrum-vm\<close> calls \<open>start-vmm\<close> without the argument it needs.

  \<^bold>\<open>Loops\<close>

  No fuel is used. Loops over lists are recursion on the list. \<open>read_response\<close> of the portal terminates because each iteration
  fills at least one byte of a buffer of 14; it is proved equivalent to a definition without a loop. The
  loops of \<open>run-qemu.sh\<close> and \<open>run-cloud-hypervisor.sh\<close> end because the arguments that are left become fewer. The loops that may run forever are
  partial functions in the option type: \<open>poll_loop\<close>, \<open>poll_hangup\<close> of \<open>run-spectrum-vm\<close>, the two copying loops of \<open>double_fork\<close>
  and \<open>write_all\<close> of the guest. That they return is proved from the hypotheses that say when,
  and that \<open>double_fork\<close> does not at the end of the file is proved too. Accumulators that wrap around are \<^typ>\<open>64 word\<close>, values on the wire \<^typ>\<open>32 word\<close>.

  \<^bold>\<open>Not modelled\<close>

  Processes are followed one at a time: the answers to \<open>fork\<close> decide which. In the portal, the awaited calls of one
  set-up are one step; what other tasks do to the world meanwhile is part of the arbitrary environment, and the cells are written before any task
  starts. Memory exhaustion (\<open>receive_bytestring\<close> allocates what the guest asks for) is not modelled, nor are the texts of messages. Outside the
  model are miniserde, zbus, zvariant, url, percent-encoding, libdbus, Cloud Hypervisor, ch-remote and the commands
  \<open>make-gpt.sh\<close> starts, which are parameters; the programs the scripts in execline start, which may do anything
  and end with any status; and tests and the Weston module of one. The status of a loop \<open>forx\<close> is left open, so nothing relies on it. Of \<open>probe\<close>, the images of an
  installer are left out, and of the Makefiles and Nix expressions everything but the names of the partitions: they describe builds.
  Scripts that are only a sequence of calls of other tools, whose effect is in those tools or in the files of the kernel, are not modelled:
  \<open>make-erofs.sh\<close>, \<open>dist-cloud-hypervisor.sh\<close>, \<open>update-nixpkgs.sh\<close>, \<open>lsvm\<close>, \<open>vm-console\<close>, \<open>xdg-open\<close>, the other scripts of mdevd and the
  services that start one program. The choice of the architecture in \<open>sfdisk-field.awk\<close> and \<open>run-qemu.sh\<close> (the environment or \<open>uname\<close>) is an argument.
\<close>

section \<open>The portal and the virtual machine\<close>

text \<open>The socket the service \<open>xdg-desktop-portal-spectrum-host\<close> binds for the instance \<open>name\<close>.\<close>

definition portal_socket :: "bytes \<Rightarrow> path" where
  "portal_socket name = hd (sockets (portal_service name))"

lemma portal_socket_eq: "portal_socket name = ''/run/vm/'' @ name @ ''/vsock_219''"
  by (simp add: portal_socket_def service_sockets)

text \<open>A file in the directory of a virtual machine.\<close>

lemma vm_dir_file:
  assumes "plain_name name" "\<not> is_absolute file"
  shows "join (join ''/run/vm'' name) file = ''/run/vm/'' @ name @ ''/'' @ file"
proof -
  have "name \<noteq> []" "\<not> is_absolute name" "CHR ''/'' \<notin> set name" using assms(1) by (auto simp: plain_name_def)
  then have "last (''/run/vm/'' @ name) \<noteq> CHR ''/''" by (metis last_appendR last_in_set)
  moreover have "join ''/run/vm'' name = ''/run/vm/'' @ name" using \<open>\<not> is_absolute name\<close> by (simp add: join_def)
  ultimately show ?thesis using assms(2) by (simp add: join_def)
qed

text \<open>
  C18. The portal talks to the virtual machine it was started for: if the virtual machine \<open>name\<close> was given a configuration by
  \<open>start-vmm\<close> and the portal has started to listen on the socket its service binds, then in every state it
  reaches the path it connects to is the socket of that configuration.
\<close>

theorem portal_reaches_its_vm:
  assumes "vm_config K x86_64 stk (join ''/run/vm'' name) s = (Ret (Ok cfg), t)" "plain_name name"
    and "\<And>w. fst (h_local_addr H w) = Ok (Some (portal_socket name))"
    and "reachable H Z w p" "p_end (start_portal H w) = None"
  shows "vsock_unix_path (p_state p) = Some (vsock_socket (cfg_vsock cfg))"
proof -
  let ?path = "''/run/vm/'' @ name @ ''/vsock''"
  have "portal_socket name = ?path @ CHR ''_'' # ''219''" by (simp add: portal_socket_eq)
  then have a: "fst (h_local_addr H w) = Ok (Some (?path @ CHR ''_'' # ''219''))" for w using assms(3) by simp
  have "list_all is_digit ''219''" by (simp add: is_digit_def)
  then have "vsock_unix_path (p_state (start_portal H w)) = Some ?path"
    using start_vsock [OF assms(5) a] by simp
  moreover obtain name' where "config_fields x86_64 (join ''/run/vm'' name) name' cfg"
    by (rule vm_config_Ok [OF assms(1)])
  then have "vsock_socket (cfg_vsock cfg) = ?path"
    using vm_dir_file [OF assms(2) plain_literals(4)] by (simp add: config_fields_def)
  ultimately show ?thesis using reachable_vsock [OF assms(4)] by simp
qed

theorem portal_reaches_its_vm_witness:
  "\<exists>cfg t. vm_config dir_os True stack0 (join ''/run/vm'' ''testvm'') ps0 = (Ret (Ok cfg), t) \<and>
     vsock_unix_path (p_state (start_portal (line_host\<lparr>h_local_addr := \<lambda>w. (Ok (Some (portal_socket ''testvm'')), w)\<rparr>) [])) =
       Some (vsock_socket (cfg_vsock cfg))"
proof -
  let ?H = "line_host\<lparr>h_local_addr := \<lambda>w. (Ok (Some (portal_socket ''testvm'')), w)\<rparr>"
  obtain cfg t where c: "vm_config dir_os True stack0 (join ''/run/vm'' ''testvm'') ps0 = (Ret (Ok cfg), t)"
    using testvm_run by (auto simp: testvm_paths)
  have "infer_vsock_path (portal_socket ''testvm'') = Ret (Ok ''/run/vm/testvm/vsock'')"
    using infer_vsock_path_iff [of "portal_socket ''testvm''" "''/run/vm/testvm/vsock''"] by (simp add: portal_socket_eq is_digit_def)
  then have e: "p_end (start_portal ?H []) = None"
    by (simp add: start_portal_def read_argv_def line_host_simps listen_def hask_def listening_vsock_path_def once_set_def Let_def)
  have "fst (h_local_addr ?H w) = Ok (Some (portal_socket ''testvm''))" for w by simp
  from portal_reaches_its_vm [OF c testvm_paths(7) this reachable.start e] c show ?thesis by blast
qed

section \<open>The services of a virtual machine\<close>



section \<open>The two sides of the portal\<close>

text \<open>
  C4. The two programs of the portal understand each other. Suppose the guest reads 1 and 0, and the host's side of
  that connection reads exactly the bytes the guest then writes; further that Cloud Hypervisor answers with \<open>OK\<close> and a 32-bit number, and the
  guest's bus can be set up. Then the guest program exits with success, the host has registered the file chooser of the share
  root that was compiled into the guest, after asking for the port that the guest's D-Bus address
  names, and what the host sends on the connection is exactly 1 and 0.
\<close>

theorem guest_host_round_trip:
  assumes guest: "g_getenv G ''DBUS_STARTER_ADDRESS'' = Some addr" "g_parse_address G addr = Ok (pre @ e # post)"
      "list_all (\<lambda>e. e_method e \<noteq> ''vsock'') pre" "e_method e = ''vsock''" "e_value e ''port'' = Some ps"
      "parse_u32 (Some ps) = Ok port" "guest_socket G sock gview" "gview (gworld g) = [CHR 0x01, NUL]"
    and wire: "view (hworld s) = gwritten (drop (length (gevents g)) (gevents (snd (guest_main G root junk junk' g))))"
    and host: "stream H c view" "duplex H c view" "length root < 2 ^ 32" "is_absolute root" "vsock_unix_path s = Some path"
      "\<And>w. \<exists>w'. h_connect H path w = (Ok v, w') \<and> view' w' = ''OK '' @ dec (unat (n :: u32)) @ [CHR 0x0A]"
      "stream H v view'" "duplex H v view'" "\<And>w. fst (h_serve H v root w) = Ok d" "c \<noteq> v"
  shows "fst (guest_main G root junk junk' g) = Ret 0 \<and>
    (\<exists>t evs. setup_guest_connection H c s = (Ret (Ok (d, root)), t) \<and> hlog t = hlog s @ evs \<and>
      sent c evs = [CHR 0x01, NUL] \<and> sent v evs = ''CONNECT '' @ dec (unat port) @ [CHR 0x0A])"
proof -
  obtain gt gevs where g: "guest_main G root junk junk' g = (Ret 0, gt)" "gevents gt = gevents g @ gevs"
    "gwritten gevs = guest_message port root"
    using guest_main_done [OF guest(1-7), of root junk junk' g] guest(8) by (auto simp: read_into_def guest_message_def)
  then have "view (hworld s) = guest_message port root @ []" using wire by simp
  from setup_served [OF host(1,2) this host(3-10)] have
    "\<exists>t evs. setup_guest_connection H c s = (Ret (Ok (d, root)), t) \<and> hlog t = hlog s @ evs \<and>
      sent c evs = [CHR 0x01, NUL] \<and> sent v evs = ''CONNECT '' @ dec (unat port) @ [CHR 0x0A]" .
  with g(1) show ?thesis by simp
qed

theorem guest_host_round_trip_witness:
  "fst (guest_main guest0 ''/mnt'' NUL NUL (gs0 [CHR 0x01, NUL])) = Ret 0 \<and>
   (\<exists>t. setup_guest_connection two_host 1 (hs2 (gwritten (gevents (snd (guest_main guest0 ''/mnt'' NUL NUL (gs0 [CHR 0x01, NUL])))))) =
      (Ret (Ok (3, ''/mnt'')), t))"
proof -
  let ?b = "gwritten (gevents (snd (guest_main guest0 ''/mnt'' NUL NUL (gs0 [CHR 0x01, NUL]))))"
  have g: "gworld (gs0 [CHR 0x01, NUL]) = [CHR 0x01, NUL]" by (simp add: gs0_def)
  have w: "fst (hworld (hs2 ?b)) = gwritten (drop (length (gevents (gs0 [CHR 0x01, NUL]))) (gevents (snd (guest_main guest0 ''/mnt'' NUL NUL (gs0 [CHR 0x01, NUL])))))"
    by (simp add: hs2_def gs0_def)
  have r: "length ''/mnt'' < 2 ^ 32" "is_absolute ''/mnt''" by (simp_all add: is_absolute_def has_root_def)
  have p: "vsock_unix_path (hs2 ?b) = Some ''/run/vm/app/vsock''" by (simp add: hs2_def)
  have b: "fst (h_serve two_host 2 ''/mnt'' w) = Ok 3" for w by (simp add: two_host_def Let_def)
  from guest_host_round_trip [OF guest0_env guest0_port guest0_socket g w two_host_streams(1,2) r p two_host_vmm
      two_host_streams(3,4) b]
  show ?thesis by auto
qed

section \<open>The development tool and start-vmm\<close>

text \<open>
  C35. The tool \<open>run-spectrum-vm\<close> and \<open>start-vmm\<close> do not fit together: whatever the kernel answers, whenever the tool has become
  \<open>start-vmm\<close>, the arguments it passed make \<open>start-vmm\<close> print its usage and exit with status 1 before it makes any request, because the name
  of the virtual machine is missing.
\<close>

theorem run_vm_only_usage:
  assumes "run_vm_main R P s = (r, t)" "revents s = []" "RvExecStartVmm fd argv env q \<in> set (revents t)"
  shows "StartVmm.main K to_json x86_64 stk junk argv u = (Exit 1, u\<lparr>events := events u @ [EvStderr None Usage]\<rparr>)"
proof -
  from run_vm_log [OF assms(1)] assms(2,3) obtain dir where "removes_once dir (revents t) \<or> starts_vmm P dir (revents t)"
    using no_exec_vmm [of "revents t"] by auto
  with assms(3) removes_once_vmm starts_vmm_args have "argv = [''start-vmm'']" by blast
  then show ?thesis by (intro main_usage) simp
qed

theorem run_vm_only_usage_witness:
  "\<exists>t. run_vm_main runner0 programs0 rs0 = (Ret (), t) \<and> RvExecStartVmm 6 [''start-vmm''] [''PATH=/bin''] (Ok ()) \<in> set (revents t) \<and>
     StartVmm.main dir_os (\<lambda>_. []) True stack0 ''????'' [''start-vmm''] ps0 = (Exit 1, ps0\<lparr>events := events ps0 @ [EvStderr None Usage]\<rparr>)"
proof -
  obtain t where t: "run_vm_main runner0 programs0 rs0 = (Ret (), t)" "RvExecStartVmm 6 [''start-vmm''] [''PATH=/bin''] (Ok ()) \<in> set (revents t)"
    using runner0_run by blast
  have "revents rs0 = []" by (simp add: rs0_def)
  from run_vm_only_usage [OF t(1) this t(2)] t show ?thesis by blast
qed

end
